(* ===== verification/Gtun_Prelude.thy ===== *)
theory Gtun_Prelude
  imports Main "HOL-Library.Word"
begin

text \<open>
  Shared vocabulary of the G-Tun development: bytes and byte strings, Go strings, I/O errors,
  the collections of rewrite rules the component theories extend, generic lemmas on lists, and
  the reachability predicate with the locale \<open>invariant_system\<close> that every step relation of
  the development instantiates.
\<close>

section \<open>Bytes and strings\<close>

text \<open>
  A Go \<^verbatim>\<open>byte\<close> is an 8-bit word and a \<^verbatim>\<open>[]byte\<close> a list of them. A Go \<^verbatim>\<open>string\<close> is a
  sequence of bytes; HOL's \<^typ>\<open>char\<close> has exactly 256 values, so it is a \<^typ>\<open>string\<close> here
  and \<open>len\<close> counts bytes. \<open>bytes_of\<close> is the conversion \<^verbatim>\<open>[]byte(s)\<close> and
  \<open>string_of\<close> the conversion \<^verbatim>\<open>string(b)\<close>.
\<close>

type_synonym byte = "8 word"
type_synonym bytes = "8 word list"

definition byte_of_char :: "char \<Rightarrow> byte" where
  "byte_of_char c = of_nat (of_char c)"

definition char_of_byte :: "byte \<Rightarrow> char" where
  "char_of_byte b = char_of (unat b)"

definition bytes_of :: "string \<Rightarrow> bytes" where
  "bytes_of s = map byte_of_char s"

definition string_of :: "bytes \<Rightarrow> string" where
  "string_of bs = map char_of_byte bs"

lemma of_char_less_256: "(of_char c :: nat) < 256"
  by (metis nat_of_char_less_256)

lemma char_of_byte_of_char [simp]: "char_of_byte (byte_of_char c) = c"
  by (simp add: char_of_byte_def byte_of_char_def unat_of_nat of_char_less_256)

lemma byte_of_char_of_byte [simp]: "byte_of_char (char_of_byte b) = b"
proof -
  have "unat b < 256"
    using unsigned_less [of b, where 'a = nat] by simp
  then show ?thesis
    by (simp add: char_of_byte_def byte_of_char_def)
qed

lemma byte_of_char_eq_iff [simp]: "byte_of_char c = byte_of_char d \<longleftrightarrow> c = d"
  by (metis char_of_byte_of_char)

lemma length_bytes_of [simp]: "length (bytes_of s) = length s"
  by (simp add: bytes_of_def)

lemma string_of_bytes_of [simp]: "string_of (bytes_of s) = s"
  by (simp add: string_of_def bytes_of_def comp_def)

lemma bytes_of_string_of [simp]: "bytes_of (string_of b) = b"
  by (simp add: string_of_def bytes_of_def comp_def)

lemma bytes_of_append [simp]: "bytes_of (s @ t) = bytes_of s @ bytes_of t"
  by (simp add: bytes_of_def)

lemma bytes_of_eq_iff [simp]: "bytes_of s = bytes_of t \<longleftrightarrow> s = t"
  by (metis string_of_bytes_of)

section \<open>I/O errors\<close>

text \<open>
  The errors the standard library's I/O functions report and the program tells apart: the end of
  a stream, a stream that ends inside a fixed-size read, an expired deadline, a closed
  connection or listener, a cancelled context, and every other failure.
\<close>

datatype io_error = EOF | UnexpectedEOF | DeadlineExceeded | ErrClosed | Canceled | OtherIO nat

section \<open>Generic list facts\<close>

lemma take_drop_append_eq:
  assumes "length a = n"
  shows "take n (a @ b) = a" and "drop n (a @ b) = b"
  using assms by auto

lemma append_eq_split_iff:
  "length a = n \<Longrightarrow> n \<le> length xs \<Longrightarrow> xs = a @ b \<longleftrightarrow> take n xs = a \<and> drop n xs = b"
  by (metis append_eq_conv_conj append_take_drop_id)

lemma append_same_length_cancel:
  "length a = length c \<Longrightarrow> a @ b = c @ d \<longleftrightarrow> a = c \<and> b = d"
  by (rule append_eq_append_conv) simp

lemma take_add_split: "take (m + n) xs = take m xs @ take n (drop m xs)"
  by (rule take_add)

section \<open>Reachable states and invariants\<close>

text \<open>
  The stateful components are step relations on a state type; \<open>reach\<close> is the least set of states
  that holds the initial ones and is closed under steps.
\<close>

inductive reach :: "('s \<Rightarrow> bool) \<Rightarrow> ('s \<Rightarrow> 's \<Rightarrow> bool) \<Rightarrow> 's \<Rightarrow> bool"
  for init :: "'s \<Rightarrow> bool" and step :: "'s \<Rightarrow> 's \<Rightarrow> bool" where
  reach_init: "init s \<Longrightarrow> reach init step s"
| reach_step: "reach init step s \<Longrightarrow> step s t \<Longrightarrow> reach init step t"

text \<open>
  The contract between a step relation and its invariant: it holds initially and every step keeps
  it. The client's lemma is that it then holds in every reachable state, and along every run.
\<close>

locale invariant_system =
  fixes init :: "'s \<Rightarrow> bool"
    and step :: "'s \<Rightarrow> 's \<Rightarrow> bool"
    and inv :: "'s \<Rightarrow> bool"
  assumes inv_init: "init s \<Longrightarrow> inv s"
    and inv_step: "inv s \<Longrightarrow> step s t \<Longrightarrow> inv t"
begin

lemma inv_reach: "reach init step s \<Longrightarrow> inv s"
  by (induction rule: reach.induct) (auto intro: inv_init inv_step)

lemma inv_run: "step\<^sup>*\<^sup>* s t \<Longrightarrow> inv s \<Longrightarrow> inv t"
  by (induction rule: rtranclp_induct) (auto intro: inv_step)

end

text \<open>
  A system that comes to an end: while a state is not final it has a step, and every step lowers a rank. Every state
  that satisfies the invariant then runs to a final one, under every schedule, in a number of steps bounded by its rank.
\<close>

locale terminating_system = invariant_system +
  fixes rank :: "'s \<Rightarrow> nat"
    and final :: "'s \<Rightarrow> bool"
  assumes rank_step: "inv s \<Longrightarrow> step s t \<Longrightarrow> rank t < rank s"
    and enabled: "inv s \<Longrightarrow> \<not> final s \<Longrightarrow> \<exists>t. step s t"
begin

lemma run_bound: "(step ^^ n) s t \<Longrightarrow> inv s \<Longrightarrow> inv t \<and> n + rank t \<le> rank s"
proof (induction n arbitrary: t)
  case (Suc n)
  from Suc.prems(1) obtain u where u: "(step ^^ n) s u" "step u t" by auto
  with Suc.IH [OF u(1) Suc.prems(2)] show ?case using inv_step rank_step by fastforce
qed simp

lemma no_infinite_run: "inv s \<Longrightarrow> \<not> (\<exists>f. f 0 = s \<and> (\<forall>i. step (f i) (f (Suc i))))"
proof (intro notI, elim exE conjE)
  fix f assume s: "inv s" "f 0 = s" and steps: "\<forall>i. step (f i) (f (Suc i))"
  have run: "(step ^^ i) s (f i)" for i by (induction i) (use s(2) steps in auto)
  from run_bound [OF run [of "Suc (rank s)"] s(1)] show False by simp
qed

lemma runs_to_end: "inv s \<Longrightarrow> \<exists>t. step\<^sup>*\<^sup>* s t \<and> final t"
proof (induction "rank s" arbitrary: s rule: less_induct)
  case less
  show ?case
  proof (cases "final s")
    case False
    with enabled [OF less.prems] obtain u where u: "step s u" by blast
    with less rank_step inv_step show ?thesis by (meson converse_rtranclp_into_rtranclp)
  qed blast
qed

end

text \<open>
  Runs that go on for ever, and fairness: an action that is possible again and again is taken again and again. A rank
  that no step raises and that a fair action lowers, while that action is possible, comes down to its goal.
\<close>

definition run_of :: "('s \<Rightarrow> 's \<Rightarrow> bool) \<Rightarrow> (nat \<Rightarrow> 's) \<Rightarrow> bool" where
  "run_of step f \<longleftrightarrow> (\<forall>n. step (f n) (f (Suc n)))"

definition fair :: "('s \<Rightarrow> 's \<Rightarrow> bool) \<Rightarrow> (nat \<Rightarrow> 's) \<Rightarrow> bool" where
  "fair act f \<longleftrightarrow> (\<forall>n. \<exists>m\<ge>n. \<exists>t. act (f m) t) \<longrightarrow> (\<forall>n. \<exists>m\<ge>n. act (f m) (f (Suc m)))"

lemma fair_descent_again:
  fixes rank :: "'s \<Rightarrow> nat"
  assumes "fair act f"
    and again: "\<And>m. n \<le> m \<Longrightarrow> (\<And>k. m \<le> k \<Longrightarrow> \<not> Q (f k)) \<Longrightarrow> \<exists>k\<ge>m. \<exists>t. act (f k) t"
    and keep: "\<And>m. n \<le> m \<Longrightarrow> \<not> Q (f m) \<Longrightarrow> rank (f (Suc m)) \<le> rank (f m)"
    and lower: "\<And>m. n \<le> m \<Longrightarrow> \<not> Q (f m) \<Longrightarrow> act (f m) (f (Suc m)) \<Longrightarrow> rank (f (Suc m)) < rank (f m)"
  shows "\<exists>m\<ge>n. Q (f m)"
proof (rule ccontr)
  assume "\<not> ?thesis"
  then have never: "\<not> Q (f m)" if "n \<le> m" for m using that by blast
  have "\<exists>m\<ge>k. \<exists>t. act (f m) t" for k using again [of "max n k"] never by force
  with assms(1) have taken: "\<exists>m\<ge>k. act (f m) (f (Suc m))" for k by (simp add: fair_def)
  have mono: "rank (f m') \<le> rank (f m)" if "m \<le> m'" "n \<le> m" for m m'
    using that
  proof (induction m' rule: dec_induct)
    case (step k)
    with keep [of k] never [of k] show ?case by simp
  qed simp
  have "\<exists>m\<ge>n. rank (f m) + k \<le> rank (f n)" for k
  proof (induction k)
    case (Suc k)
    then obtain m where m: "n \<le> m" "rank (f m) + k \<le> rank (f n)" by blast
    from taken [of m] obtain m' where m': "m \<le> m'" "act (f m') (f (Suc m'))" by blast
    with m(1) lower [of m'] never [of m'] mono [of m m'] m(2) show ?case
      by (intro exI [of _ "Suc m'"]) auto
  qed auto
  from this [of "Suc (rank (f n))"] show False by auto
qed

lemma fair_descent:
  fixes rank :: "'s \<Rightarrow> nat"
  assumes "fair act f"
    and "\<And>m. n \<le> m \<Longrightarrow> \<not> Q (f m) \<Longrightarrow> \<exists>t. act (f m) t"
    and "\<And>m. n \<le> m \<Longrightarrow> \<not> Q (f m) \<Longrightarrow> rank (f (Suc m)) \<le> rank (f m)"
    and "\<And>m. n \<le> m \<Longrightarrow> \<not> Q (f m) \<Longrightarrow> act (f m) (f (Suc m)) \<Longrightarrow> rank (f (Suc m)) < rank (f m)"
  shows "\<exists>m\<ge>n. Q (f m)"
  by (rule fair_descent_again [where rank = rank, OF assms(1) _ assms(3,4)]) (use assms(2) in blast)+

lemma run_keeps:
  assumes "\<And>m. n \<le> m \<Longrightarrow> P (f m) \<Longrightarrow> P (f (Suc m))" and "P (f n)" and "n \<le> m"
  shows "P (f m)"
  using assms(3) by (induction m rule: dec_induct) (auto intro: assms)

lemma fair_zero:
  fixes rank :: "'s \<Rightarrow> nat"
  assumes "fair act f"
    and "\<And>m. n \<le> m \<Longrightarrow> rank (f m) \<noteq> 0 \<Longrightarrow> \<exists>t. act (f m) t"
    and keep: "\<And>m. n \<le> m \<Longrightarrow> rank (f (Suc m)) \<le> rank (f m)"
    and "\<And>m. n \<le> m \<Longrightarrow> act (f m) (f (Suc m)) \<Longrightarrow> rank (f (Suc m)) < rank (f m)"
  shows "\<exists>n'\<ge>n. \<forall>m\<ge>n'. rank (f m) = 0"
proof -
  have "\<exists>n'\<ge>n. rank (f n') = 0"
    by (rule fair_descent [where act = act and rank = rank]) (use assms in auto)
  then obtain n' where n': "n \<le> n'" "rank (f n') = 0" by blast
  have "rank (f m) = 0" if "n' \<le> m" for m
    using that
  proof (induction m rule: dec_induct)
    case (step k)
    with keep [of k] n'(1) show ?case by simp
  qed (rule n'(2))
  with n'(1) show ?thesis by blast
qed

lemma eventually_all_less:
  "(\<And>i. i < k \<Longrightarrow> \<exists>n. \<forall>m\<ge>n. P i m) \<Longrightarrow> \<exists>n. \<forall>m\<ge>(n :: nat). \<forall>i < (k :: nat). P i m"
proof (induction k)
  case (Suc k)
  then obtain n n' where "\<forall>m\<ge>n. \<forall>i < k. P i m" "\<forall>m\<ge>n'. P k m" by (metis less_SucI lessI)
  then show ?case by (intro exI [of _ "max n n'"]) (auto simp: less_Suc_eq)
qed simp

lemma run_of_reach: "run_of step f \<Longrightarrow> reach init step (f 0) \<Longrightarrow> reach init step (f n)"
  by (induction n) (auto simp: run_of_def intro: reach_step)

text \<open>A finite run to a state that has a step to itself can be continued for ever.\<close>

lemma run_of_extend:
  assumes "step\<^sup>*\<^sup>* s t" and "step t t"
  shows "\<exists>f n. f 0 = s \<and> run_of step f \<and> (\<forall>m\<ge>n. f m = t)"
proof -
  from assms(1) obtain n f where f: "f 0 = s" "f n = t" "\<forall>i<n. step (f i) (f (Suc i))"
    by (auto simp: rtranclp_power relpowp_fun_conv)
  let ?f = "\<lambda>i. if i < n then f i else t"
  have "step (?f i) (?f (Suc i))" for i
    using f assms(2) by (cases "Suc i < n"; cases "i < n") (auto simp: not_less le_Suc_eq less_Suc_eq)
  with f(1,2) have "?f 0 = s \<and> run_of step ?f \<and> (\<forall>m\<ge>n. ?f m = t)" by (auto simp: run_of_def)
  then show ?thesis by (intro exI [of _ ?f] exI [of _ n])
qed

lemma reach_rtranclp: "step\<^sup>*\<^sup>* s t \<Longrightarrow> reach init step s \<Longrightarrow> reach init step t"
  by (induction rule: rtranclp_induct) (auto intro: reach_step)

text \<open>
  If two different steps from a state can always be joined by one further step each, a state without successors
  that can be reached in \<open>n\<close> steps is reached from everywhere along the way, and no run is longer than \<open>n\<close>.
\<close>

locale diamond_system =
  fixes step :: "'s \<Rightarrow> 's \<Rightarrow> bool"
  assumes diamond: "step s a \<Longrightarrow> step s b \<Longrightarrow> a \<noteq> b \<Longrightarrow> \<exists>c. step a c \<and> step b c"
begin

lemma step_towards:
  assumes "\<And>u. \<not> step t u"
  shows "(step ^^ n) s t \<Longrightarrow> step s a \<Longrightarrow> \<exists>m. n = Suc m \<and> (step ^^ m) a t"
proof (induction n arbitrary: s a)
  case 0
  with assms show ?case by simp
next
  case (Suc n)
  from Suc.prems(1) obtain b where b: "step s b" "(step ^^ n) b t" by (metis relpowp_Suc_D2)
  show ?case
  proof (cases "a = b")
    case False
    with diamond [OF Suc.prems(2) b(1)] obtain c where c: "step a c" "step b c" by blast
    from Suc.IH [OF b(2) c(2)] obtain m where "n = Suc m" "(step ^^ m) c t" by blast
    with c(1) have "(step ^^ n) a t" by (metis relpowp_Suc_I2)
    then show ?thesis by blast
  qed (use b(2) in blast)
qed

lemma steps_towards:
  assumes "\<And>u. \<not> step t u"
  shows "(step ^^ k) s a \<Longrightarrow> (step ^^ n) s t \<Longrightarrow> k \<le> n \<and> (step ^^ (n - k)) a t"
proof (induction k arbitrary: a)
  case (Suc k)
  from Suc.prems(1) obtain b where b: "(step ^^ k) s b" "step b a" by auto
  with Suc have "k \<le> n" "(step ^^ (n - k)) b t" by auto
  from step_towards [OF assms this(2) b(2)] obtain m where "n - k = Suc m" "(step ^^ m) a t" by blast
  moreover from this have "Suc k \<le> n" "n - Suc k = m" using \<open>k \<le> n\<close> by auto
  ultimately show ?case by simp
qed simp

lemma confluent_end:
  assumes stuck: "\<And>u. \<not> step t u" and run: "step\<^sup>*\<^sup>* s t"
  shows "(step\<^sup>*\<^sup>* s a \<longrightarrow> step\<^sup>*\<^sup>* a t) \<and> \<not> (\<exists>f. f 0 = s \<and> (\<forall>i. step (f i) (f (Suc i))))"
proof -
  from run obtain n where n: "(step ^^ n) s t" by (auto simp: rtranclp_power)
  have "step\<^sup>*\<^sup>* a t" if "step\<^sup>*\<^sup>* s a"
    using that steps_towards [OF stuck _ n] by (auto simp: rtranclp_power)
  moreover have False if "f 0 = s" "\<forall>i. step (f i) (f (Suc i))" for f
  proof -
    have "(step ^^ i) s (f i)" for i by (induction i) (use that in auto)
    from steps_towards [OF stuck this n, of "Suc n"] show False by simp
  qed
  ultimately show ?thesis by blast
qed

end

section \<open>Rule collections\<close>

named_theorems gtun_bytes \<open>lengths and slices of protocol messages\<close>
named_theorems gtun_steps \<open>one-step preservation lemmas of the step relations\<close>

end
