(* ===== verification/Go_Crypto.thy ===== *)
theory Go_Crypto
  imports Gtun_Prelude
begin

text \<open>
  The parts of Go's \<^verbatim>\<open>crypto\<close> packages that the program calls: SHA-256 (FIPS 180-4), HMAC
  (RFC 2104) as the \<^verbatim>\<open>hash.Hash\<close> object that \<^verbatim>\<open>hmac.New\<close> returns, and the constant-time
  comparison behind \<^verbatim>\<open>hmac.Equal\<close>. Everything is executable on 32-bit words; the theory
  \<open>Go_Crypto_Test\<close> evaluates the standard's test vector with the kernel.
\<close>

unbundle bit_operations_syntax

section \<open>SHA-256\<close>

type_synonym w32 = "32 word"

definition rotr :: "nat \<Rightarrow> w32 \<Rightarrow> w32" where
  "rotr n x = (drop_bit n x OR push_bit (32 - n) x)"

text \<open>
  The constants, as the standard defines them: the first 32 bits of the fractional parts of the cube roots of
  the first 64 primes, and of the square roots of the first eight. \<open>root_bits k n a x\<close> extends the
  approximation \<open>a\<close> of the \<open>k\<close>-th root of \<open>x\<close> from below by \<open>n\<close> bits.
\<close>

fun root_bits :: "nat \<Rightarrow> nat \<Rightarrow> int \<Rightarrow> int \<Rightarrow> int" where
  "root_bits k 0 a x = a"
| "root_bits k (Suc n) a x = (let b = a + 2 ^ n in root_bits k n (if b ^ k \<le> x then b else a) x)"

lemma root_bits_spec:
  "a ^ k \<le> x \<Longrightarrow> x < (a + 2 ^ n) ^ k \<Longrightarrow> root_bits k n a x ^ k \<le> x \<and> x < (root_bits k n a x + 1) ^ k"
proof (induction n arbitrary: a)
  case (Suc n)
  show ?case
  proof (cases "(a + 2 ^ n) ^ k \<le> x")
    case True
    with Suc.prems Suc.IH [of "a + 2 ^ n"] show ?thesis by (simp add: Let_def algebra_simps)
  next
    case False
    with Suc.prems Suc.IH [of a] show ?thesis by (simp add: Let_def)
  qed
qed simp

definition frac_root :: "nat \<Rightarrow> int \<Rightarrow> w32" where
  "frac_root k p = word_of_int (root_bits k 37 0 (p * 2 ^ (32 * k)))"

definition small_primes :: "int list" where
  "small_primes =
    [2, 3, 5, 7, 11, 13, 17, 19, 23, 29, 31, 37, 41, 43, 47, 53, 59, 61, 67, 71, 73, 79, 83, 89, 97, 101,
     103, 107, 109, 113, 127, 131, 137, 139, 149, 151, 157, 163, 167, 173, 179, 181, 191, 193, 197, 199,
     211, 223, 227, 229, 233, 239, 241, 251, 257, 263, 269, 271, 277, 281, 283, 293, 307, 311]"

definition K256 :: "w32 list" where
  "K256 = map (frac_root 3) small_primes"

definition H256 :: "w32 list" where
  "H256 = map (frac_root 2) (take 8 small_primes)"

definition be32_word :: "byte \<Rightarrow> byte \<Rightarrow> byte \<Rightarrow> byte \<Rightarrow> w32" where
  "be32_word a b c d =
     (push_bit 24 (ucast a) OR push_bit 16 (ucast b) OR push_bit 8 (ucast c) OR ucast d)"

fun words32 :: "bytes \<Rightarrow> w32 list" where
  "words32 (a # b # c # d # r) = be32_word a b c d # words32 r"
| "words32 _ = []"

definition be32_bytes :: "w32 \<Rightarrow> bytes" where
  "be32_bytes w = [ucast (drop_bit 24 w), ucast (drop_bit 16 w), ucast (drop_bit 8 w), ucast w]"

text \<open>
  The message schedule, kept newest word first: the next word combines the words 2, 7, 15 and 16
  positions back.
\<close>

definition schedule_next :: "w32 list \<Rightarrow> w32" where
  "schedule_next r =
     (let v1 = r ! 1; v2 = r ! 14;
          t1 = rotr 17 v1 XOR rotr 19 v1 XOR drop_bit 10 v1;
          t2 = rotr 7 v2 XOR rotr 18 v2 XOR drop_bit 3 v2
      in t1 + r ! 6 + t2 + r ! 15)"

primrec schedule :: "nat \<Rightarrow> w32 list \<Rightarrow> w32 list" where
  "schedule 0 r = r"
| "schedule (Suc n) r = schedule n (schedule_next r # r)"

fun round256 :: "w32 \<times> w32 \<Rightarrow> w32 list \<Rightarrow> w32 list" where
  "round256 (k, w) [a, b, c, d, e, f, g, h] =
     (let t1 = h + (rotr 6 e XOR rotr 11 e XOR rotr 25 e) + ((e AND f) XOR (NOT e AND g)) + k + w;
          t2 = (rotr 2 a XOR rotr 13 a XOR rotr 22 a) + ((a AND b) XOR (a AND c) XOR (b AND c))
      in [t1 + t2, a, b, c, d + t1, e, f, g])"
| "round256 _ s = s"

definition block256 :: "bytes \<Rightarrow> w32 list \<Rightarrow> w32 list" where
  "block256 p h =
     map2 (+) h (fold round256 (zip K256 (rev (schedule 48 (rev (words32 p))))) h)"

text \<open>Padding: a one bit, zeros up to 56 modulo 64, and the bit length as a big-endian 64-bit word.\<close>

definition be64_bytes :: "64 word \<Rightarrow> bytes" where
  "be64_bytes w = map (\<lambda>i. ucast (drop_bit (8 * i) w)) [7, 6, 5, 4, 3, 2, 1, 0]"

definition pad256 :: "bytes \<Rightarrow> bytes" where
  "pad256 m = m @ [0x80] @ replicate ((119 - length m mod 64) mod 64) 0
                @ be64_bytes (of_nat (8 * length m))"

function blocks256 :: "bytes \<Rightarrow> w32 list \<Rightarrow> w32 list" where
  "blocks256 m h = (if m = [] then h else blocks256 (drop 64 m) (block256 (take 64 m) h))"
  by pat_completeness auto
termination
  by (relation "measure (\<lambda>(m, h). length m)") auto

declare blocks256.simps [simp del]

definition sha256 :: "bytes \<Rightarrow> bytes" where
  "sha256 m = concat (map be32_bytes (blocks256 (pad256 m) H256))"

text \<open>The compression keeps the eight-word state, so a digest always has 32 bytes.\<close>

lemma length_round256 [simp]: "length (round256 kw s) = length s"
  by (induction kw s rule: round256.induct) (simp_all add: Let_def)

lemma length_fold_round256 [simp]: "length (fold round256 kws s) = length s"
  by (induction kws arbitrary: s) simp_all

lemma length_block256 [simp]: "length (block256 p h) = length h"
  by (simp add: block256_def)

lemma length_blocks256 [simp]: "length (blocks256 m h) = length h"
proof (induction m h rule: blocks256.induct)
  case (1 m h)
  then show ?case
    by (subst blocks256.simps) auto
qed

lemma length_concat_be32: "length (concat (map be32_bytes ws)) = 4 * length ws"
  by (induction ws) (simp_all add: be32_bytes_def)

lemma length_sha256 [simp]: "length (sha256 m) = 32"
  by (simp add: sha256_def length_concat_be32 H256_def small_primes_def)

text \<open>The padded message is a whole number of blocks, so no block is processed short.\<close>

lemma length_pad256: "64 dvd length (pad256 m)"
proof -
  define q r where "q = length m div 64" and "r = length m mod 64"
  have m: "length m = 64 * q + r" and r: "r < 64"
    by (simp_all add: q_def r_def)
  have "length (pad256 m) = 64 * q + (r + (119 - r) mod 64 + 9)"
    by (simp add: pad256_def be64_bytes_def m r)
  moreover have "r + (119 - r) mod 64 + 9 = (if r \<le> 55 then 64 else 128)"
  proof (cases "r \<le> 55")
    case True
    then have "(119 - r) mod 64 = (119 - r - 64) mod 64"
      by (intro le_mod_geq) linarith
    also have "\<dots> = 119 - r - 64"
      by (rule mod_less) linarith
    finally have "r + (119 - r) mod 64 + 9 = 64" using True by linarith
    then show ?thesis by (simp only: True if_True)
  next
    case False
    with r show ?thesis by simp
  qed
  ultimately show ?thesis by simp
qed

section \<open>HMAC\<close>

text \<open>
  A key longer than a block is hashed first; the key is then padded with zeros to the block size
  and mixed with the inner and outer pads.
\<close>

definition sha256_BlockSize :: nat where "sha256_BlockSize = 64"

definition hmac_key :: "bytes \<Rightarrow> bytes" where
  "hmac_key key =
     (let k = (if length key > sha256_BlockSize then sha256 key else key)
      in k @ replicate (sha256_BlockSize - length k) 0)"

definition hmac_sha256 :: "bytes \<Rightarrow> bytes \<Rightarrow> bytes" where
  "hmac_sha256 key msg =
     (let k = hmac_key key;
          ipad = map (\<lambda>b. b XOR 0x36) k;
          opad = map (\<lambda>b. b XOR 0x5c) k
      in sha256 (opad @ sha256 (ipad @ msg)))"

lemma length_hmac_sha256 [simp]: "length (hmac_sha256 key msg) = 32"
  by (simp add: hmac_sha256_def Let_def)

lemma length_hmac_key: "length (hmac_key key) = 64"
  by (simp add: hmac_key_def sha256_BlockSize_def Let_def)

text \<open>
  The hash object: \<^verbatim>\<open>hmac.New(sha256.New, key)\<close>, \<^verbatim>\<open>Write\<close> and \<^verbatim>\<open>Sum(nil)\<close>. Writing in pieces
  is writing the concatenation.
\<close>

record mac =
  mac_key :: bytes
  mac_data :: bytes

definition hmac_New :: "bytes \<Rightarrow> mac" where
  "hmac_New key = \<lparr>mac_key = key, mac_data = []\<rparr>"

definition mac_Write :: "bytes \<Rightarrow> mac \<Rightarrow> mac" where
  "mac_Write p m = m\<lparr>mac_data := mac_data m @ p\<rparr>"

definition mac_Sum :: "mac \<Rightarrow> bytes" where
  "mac_Sum m = hmac_sha256 (mac_key m) (mac_data m)"

lemma mac_Write_fields [simp]:
  "mac_key (mac_Write p m) = mac_key m" "mac_data (mac_Write p m) = mac_data m @ p"
  by (simp_all add: mac_Write_def)

lemma fold_mac_Write:
  "mac_key (fold mac_Write ps m) = mac_key m"
  "mac_data (fold mac_Write ps m) = mac_data m @ concat ps"
  by (induction ps arbitrary: m) simp_all

section \<open>Constant-time comparison\<close>

text \<open>
  \<^verbatim>\<open>hmac.Equal\<close> accumulates the differences of all byte pairs and looks at the result only at the
  end; slices of different length are unequal.
\<close>

definition ConstantTimeCompare :: "bytes \<Rightarrow> bytes \<Rightarrow> bool" where
  "ConstantTimeCompare x y =
     (if length x \<noteq> length y then False
      else fold (\<lambda>(a, b) v. v OR (a XOR b)) (zip x y) 0 = 0)"

definition hmac_Equal :: "bytes \<Rightarrow> bytes \<Rightarrow> bool" where
  "hmac_Equal a b = ConstantTimeCompare a b"

lemma xor_eq_0_byte_iff: "(a :: byte) XOR b = 0 \<longleftrightarrow> a = b"
  by (auto simp: bit_eq_iff bit_xor_iff)

lemma fold_or_xor_0_iff:
  "length x = length y \<Longrightarrow>
   fold (\<lambda>(a, b) v. v OR (a XOR b)) (zip x y) (v :: byte) = 0 \<longleftrightarrow> v = 0 \<and> x = y"
proof (induction x y arbitrary: v rule: list_induct2)
  case Nil
  then show ?case by simp
next
  case (Cons a x b y)
  then show ?case by (simp add: or_eq_0_iff xor_eq_0_byte_iff conj_assoc)
qed

lemma hmac_Equal_iff [simp]: "hmac_Equal a b \<longleftrightarrow> a = b"
  by (auto simp: hmac_Equal_def ConstantTimeCompare_def fold_or_xor_0_iff)

end
