(* ===== verification/Go_Crypto_Test.thy ===== *)
theory Go_Crypto_Test
  imports Go_Crypto
begin

text \<open>
  The SHA-256 model evaluated by the kernel on the one-block test vector of FIPS 180-4, the
  message \<open>abc\<close>.
\<close>

lemma pad256_abc: "pad256 [0x61, 0x62, 0x63] = [0x61, 0x62, 0x63, 0x80] @ replicate 59 0 @ [0x18]"
  by code_simp

lemma block256_abc:
  "block256 ([0x61, 0x62, 0x63, 0x80] @ replicate 59 0 @ [0x18]) H256 =
   [0xba7816bf, 0x8f01cfea, 0x414140de, 0x5dae2223, 0xb00361a3, 0x96177a9c, 0xb410ff61, 0xf20015ad]"
  by code_simp

lemma sha256_abc:
  "sha256 [0x61, 0x62, 0x63] =
   [0xba, 0x78, 0x16, 0xbf, 0x8f, 0x01, 0xcf, 0xea, 0x41, 0x41, 0x40, 0xde, 0x5d, 0xae, 0x22, 0x23,
    0xb0, 0x03, 0x61, 0xa3, 0x96, 0x17, 0x7a, 0x9c, 0xb4, 0x10, 0xff, 0x61, 0xf2, 0x00, 0x15, 0xad]"
proof -
  have "blocks256 (pad256 [0x61, 0x62, 0x63]) H256 =
        block256 ([0x61, 0x62, 0x63, 0x80] @ replicate 59 0 @ [0x18]) H256"
    unfolding pad256_abc by (subst blocks256.simps, subst blocks256.simps) simp
  then have "sha256 [0x61, 0x62, 0x63] = concat (map be32_bytes
     [0xba7816bf, 0x8f01cfea, 0x414140de, 0x5dae2223, 0xb00361a3, 0x96177a9c, 0xb410ff61, 0xf20015ad])"
    by (simp only: sha256_def block256_abc)
  also have "\<dots> = 
   [0xba, 0x78, 0x16, 0xbf, 0x8f, 0x01, 0xcf, 0xea, 0x41, 0x41, 0x40, 0xde, 0x5d, 0xae, 0x22, 0x23,
    0xb0, 0x03, 0x61, 0xa3, 0x96, 0x17, 0x7a, 0x9c, 0xb4, 0x10, 0xff, 0x61, 0xf2, 0x00, 0x15, 0xad]"
    by code_simp
  finally show ?thesis .
qed

end
