(* ===== verification/Go_IO.thy ===== *)
theory Go_IO
  imports Gtun_Prelude
begin

text \<open>
  Byte-stream I/O. A reader is any state type with a \<^verbatim>\<open>Read\<close> operation; \<open>ReadFull\<close> is the loop of
  \<^verbatim>\<open>io.ReadFull\<close> over it, which need not return and is therefore a partial function. The locale
  \<open>byte_stream\<close> states what a well-behaved \<^verbatim>\<open>Read\<close> promises, and shows that \<open>ReadFull\<close> then returns
  and yields exactly the next bytes of the stream. Code that talks over a connection is written
  once as a value of type \<open>'a io\<close>, the tree of its reads, writes and random draws, so that the
  same definition can be run over a scripted connection (\<open>run_io\<close>) and against a live peer.
\<close>

section \<open>Readers\<close>

text \<open>\<^verbatim>\<open>Read(p)\<close> with \<open>len(p) = n\<close>: the bytes delivered, the error, and the next state.\<close>

type_synonym 's reader = "'s \<Rightarrow> nat \<Rightarrow> (bytes \<times> io_error option) \<times> 's"

partial_function (option) ReadFull_loop ::
  "'s reader \<Rightarrow> nat \<Rightarrow> bytes \<Rightarrow> 's \<Rightarrow> ((io_error + bytes) \<times> 's) option" where
  "ReadFull_loop rd n got s =
     (if n \<le> length got then Some (Inr got, s)
      else case rd s (n - length got) of ((bs, err), s') \<Rightarrow>
        (case err of
           None \<Rightarrow> ReadFull_loop rd n (got @ bs) s'
         | Some e \<Rightarrow>
             Some (if n \<le> length (got @ bs) then Inr (got @ bs)
                   else if got @ bs \<noteq> [] \<and> e = EOF then Inl UnexpectedEOF
                   else Inl e, s')))"

definition ReadFull :: "'s reader \<Rightarrow> nat \<Rightarrow> 's \<Rightarrow> ((io_error + bytes) \<times> 's) option" where
  "ReadFull rd n s = ReadFull_loop rd n [] s"

text \<open>
  What a fixed-size read of \<open>n\<close> bytes yields on a stream that holds \<open>bs\<close> and then ends with \<open>e\<close>:
  \<^verbatim>\<open>io.ErrUnexpectedEOF\<close> replaces \<^verbatim>\<open>io.EOF\<close> when some bytes, but too few, were read.
\<close>

definition read_result :: "nat \<Rightarrow> bytes \<Rightarrow> io_error \<Rightarrow> io_error + bytes" where
  "read_result n bs e =
     (if n \<le> length bs then Inr (take n bs)
      else Inl (if bs \<noteq> [] \<and> e = EOF then UnexpectedEOF else e))"

lemma read_result_Inr_iff:
  "read_result n bs e = Inr xs \<longleftrightarrow> n \<le> length bs \<and> xs = take n bs"
  by (auto simp: read_result_def)

lemma read_result_Inr_split:
  "read_result n bs e = Inr xs \<Longrightarrow> length xs = n \<and> bs = xs @ drop n bs"
  by (auto simp: read_result_Inr_iff)

text \<open>\<^verbatim>\<open>io.Copy(io.Discard, r)\<close> reads until an error; the end of the stream is no error.\<close>

partial_function (option) Discard_loop ::
  "'s reader \<Rightarrow> 's \<Rightarrow> (io_error option \<times> 's) option" where
  "Discard_loop rd s =
     (case rd s 8192 of ((bs, err), s') \<Rightarrow>
        (case err of
           None \<Rightarrow> Discard_loop rd s'
         | Some e \<Rightarrow> Some (if e = EOF then None else Some e, s')))"

text \<open>
  The contract of a reader: \<open>content\<close> is the byte sequence still to come, \<open>final\<close> the error the
  stream ends with, and \<open>todo\<close> bounds the number of reads. A successful read delivers a prefix of
  the content of at most the requested size; a failing one delivers the rest of it. Reading does not
  change \<open>frame\<close>, the rest of the connection's state.
\<close>

locale byte_stream =
  fixes rd :: "'s reader"
    and content :: "'s \<Rightarrow> bytes"
    and final :: "'s \<Rightarrow> io_error"
    and todo :: "'s \<Rightarrow> nat"
    and frame :: "'s \<Rightarrow> 'f"
  assumes rd_ok: "rd s n = ((bs, None), s') \<Longrightarrow> 0 < n \<Longrightarrow>
      content s = bs @ content s' \<and> length bs \<le> n \<and> final s' = final s \<and> frame s' = frame s
      \<and> todo s' < todo s"
    and rd_err: "rd s n = ((bs, Some e), s') \<Longrightarrow> 0 < n \<Longrightarrow>
      content s = bs \<and> content s' = [] \<and> length bs \<le> n \<and> e = final s \<and> final s' = final s
      \<and> frame s' = frame s"
begin

lemma ReadFull_loop_returns:
  assumes "length got \<le> n"
  shows "\<exists>s'. ReadFull_loop rd n got s = Some (read_result n (got @ content s) (final s), s')
           \<and> content s' = drop (n - length got) (content s) \<and> final s' = final s \<and> frame s' = frame s"
  using assms
proof (induction "todo s" arbitrary: s got rule: less_induct)
  case less
  show ?case
  proof (cases "length got = n")
    case True
    then show ?thesis
      by (subst ReadFull_loop.simps) (simp add: read_result_def)
  next
    case False
    with less.prems have n: "\<not> n \<le> length got" "0 < n - length got" by auto
    obtain bs err s' where rd: "rd s (n - length got) = ((bs, err), s')"
      by (metis surj_pair)
    show ?thesis
    proof (cases err)
      case None
      with rd n have ok: "content s = bs @ content s'" "length bs \<le> n - length got"
          "final s' = final s" "todo s' < todo s" "frame s' = frame s"
        using rd_ok by blast+
      then have "length (got @ bs) \<le> n" using n by simp
      from less.hyps [OF ok(4) this] show ?thesis
        using None rd n ok by (subst ReadFull_loop.simps) auto
    next
      case (Some e)
      with rd n have err: "content s = bs" "content s' = []" "length bs \<le> n - length got"
          "e = final s" "final s' = final s" "frame s' = frame s"
        using rd_err by blast+
      then show ?thesis
        using Some rd n by (subst ReadFull_loop.simps) (auto simp: read_result_def)
    qed
  qed
qed

lemma ReadFull_returns:
  "\<exists>s'. ReadFull rd n s = Some (read_result n (content s) (final s), s')
     \<and> content s' = drop n (content s) \<and> final s' = final s \<and> frame s' = frame s"
  using ReadFull_loop_returns [of "[]" n s] by (simp add: ReadFull_def)

lemma Discard_loop_returns:
  "\<exists>s'. Discard_loop rd s = Some (if final s = EOF then None else Some (final s), s')
     \<and> content s' = [] \<and> final s' = final s \<and> frame s' = frame s"
proof (induction "todo s" arbitrary: s rule: less_induct)
  case less
  obtain bs err s' where rd: "rd s 8192 = ((bs, err), s')"
    by (metis surj_pair)
  show ?case
  proof (cases err)
    case None
    with rd have "todo s' < todo s" and f: "final s' = final s" "frame s' = frame s"
      using rd_ok [of s 8192 bs s'] by auto
    from less.hyps [OF this(1)] show ?thesis
      using None rd f by (subst Discard_loop.simps) auto
  next
    case (Some e)
    with rd have "e = final s" "content s' = []" "final s' = final s" "frame s' = frame s"
      using rd_err [of s 8192 bs e s'] by auto
    then show ?thesis
      using Some rd by (subst Discard_loop.simps) auto
  qed
qed

end

section \<open>A network connection\<close>

text \<open>
  The local end of a \<^verbatim>\<open>net.Conn\<close> under an arbitrary environment: the segments in which the peer's
  bytes will arrive and the error after them, the writes performed so far, and the outcomes the
  environment has in store for the next writes and deadline changes (an exhausted script means
  success). Operations on a closed connection fail.
\<close>

record conn =
  rx :: "bytes list"
  rx_err :: io_error
  tx :: "bytes list"
  tx_script :: "io_error option list"
  deadline :: "int option"
  dl_script :: "io_error option list"
  conn_closed :: bool

definition conn_Read :: "conn reader" where
  "conn_Read c n =
     (if conn_closed c then (([], Some ErrClosed), c)
      else case rx c of
        [] \<Rightarrow> (([], Some (rx_err c)), c)
      | seg # rest \<Rightarrow>
          ((take n seg, None),
           c\<lparr>rx := (if length seg \<le> n then rest else drop n seg # rest)\<rparr>))"

fun next_outcome :: "io_error option list \<Rightarrow> io_error option \<times> io_error option list" where
  "next_outcome [] = (None, [])"
| "next_outcome (e # es) = (e, es)"

definition conn_Write :: "bytes \<Rightarrow> conn \<Rightarrow> io_error option \<times> conn" where
  "conn_Write bs c =
     (if conn_closed c then (Some ErrClosed, c)
      else case next_outcome (tx_script c) of
        (Some e, es) \<Rightarrow> (Some e, c\<lparr>tx_script := es\<rparr>)
      | (None, es) \<Rightarrow> (None, c\<lparr>tx := tx c @ [bs], tx_script := es\<rparr>))"

definition conn_SetDeadline :: "int option \<Rightarrow> conn \<Rightarrow> io_error option \<times> conn" where
  "conn_SetDeadline d c =
     (if conn_closed c then (Some ErrClosed, c)
      else case next_outcome (dl_script c) of
        (Some e, es) \<Rightarrow> (Some e, c\<lparr>dl_script := es\<rparr>)
      | (None, es) \<Rightarrow> (None, c\<lparr>deadline := d, dl_script := es\<rparr>))"

definition conn_Close :: "conn \<Rightarrow> conn" where
  "conn_Close c = c\<lparr>conn_closed := True\<rparr>"

definition conn_content :: "conn \<Rightarrow> bytes" where
  "conn_content c = (if conn_closed c then [] else concat (rx c))"

definition conn_final :: "conn \<Rightarrow> io_error" where
  "conn_final c = (if conn_closed c then ErrClosed else rx_err c)"

definition conn_todo :: "conn \<Rightarrow> nat" where
  "conn_todo c = sum_list (map (Suc \<circ> length) (rx c))"

text \<open>An environment in which nothing but the peer's stream can fail.\<close>

definition conn_reliable :: "conn \<Rightarrow> bool" where
  "conn_reliable c \<longleftrightarrow> \<not> conn_closed c \<and> tx_script c = [] \<and> dl_script c = []"

text \<open>A fresh connection on which the given segments arrive and then the peer closes.\<close>

definition conn_of :: "bytes list \<Rightarrow> conn" where
  "conn_of segs = \<lparr>rx = segs, rx_err = EOF, tx = [], tx_script = [], deadline = None,
                   dl_script = [], conn_closed = False\<rparr>"

lemma conn_of_simps [simp]:
  "conn_reliable (conn_of segs)" "conn_content (conn_of segs) = concat segs"
  "conn_final (conn_of segs) = EOF" "tx (conn_of segs) = []"
  by (simp_all add: conn_of_def conn_reliable_def conn_content_def conn_final_def)

interpretation net: byte_stream conn_Read conn_content conn_final conn_todo
  "\<lambda>c. (tx c, conn_reliable c)"
proof
  fix s s' :: conn and n :: nat and bs :: bytes
  assume "conn_Read s n = ((bs, None), s')" and "0 < n"
  then show "conn_content s = bs @ conn_content s' \<and> length bs \<le> n \<and>
      conn_final s' = conn_final s \<and> (tx s', conn_reliable s') = (tx s, conn_reliable s)
      \<and> conn_todo s' < conn_todo s"
    by (auto simp: conn_Read_def conn_content_def conn_final_def conn_todo_def conn_reliable_def
        split: if_splits list.splits)
next
  fix s s' :: conn and n :: nat and bs :: bytes and e :: io_error
  assume "conn_Read s n = ((bs, Some e), s')" and "0 < n"
  then show "conn_content s = bs \<and> conn_content s' = [] \<and> length bs \<le> n \<and>
      e = conn_final s \<and> conn_final s' = conn_final s
      \<and> (tx s', conn_reliable s') = (tx s, conn_reliable s)"
    by (auto simp: conn_Read_def conn_content_def conn_final_def conn_reliable_def split: if_splits list.splits)
qed

section \<open>Programs over a connection\<close>

text \<open>
  A function that takes an \<^verbatim>\<open>io.ReadWriter\<close> or a connection is the tree of the calls it makes, each
  with the continuation for its outcome: \<^verbatim>\<open>io.ReadFull\<close>, \<^verbatim>\<open>Write\<close>, \<^verbatim>\<open>rand.Read\<close>,
  \<^verbatim>\<open>SetDeadline\<close> (\<open>Some d\<close> for \<open>time.Now().Add(d)\<close>, \<open>None\<close> for the zero time),
  \<^verbatim>\<open>io.Copy(io.Discard, conn)\<close> and \<^verbatim>\<open>Close\<close>.
\<close>

datatype 'a io =
    Ret 'a
  | DoReadFull nat "io_error + bytes \<Rightarrow> 'a io"
  | DoWrite bytes "io_error option \<Rightarrow> 'a io"
  | DoRand nat "io_error + bytes \<Rightarrow> 'a io"
  | DoSetDeadline "int option" "io_error option \<Rightarrow> 'a io"
  | DoDiscard "io_error option \<Rightarrow> 'a io"
  | DoClose "'a io"

primrec io_bind :: "'a io \<Rightarrow> ('a \<Rightarrow> 'b io) \<Rightarrow> 'b io" where
  "io_bind (Ret a) f = f a"
| "io_bind (DoReadFull n k) f = DoReadFull n (\<lambda>r. io_bind (k r) f)"
| "io_bind (DoWrite bs k) f = DoWrite bs (\<lambda>r. io_bind (k r) f)"
| "io_bind (DoRand n k) f = DoRand n (\<lambda>r. io_bind (k r) f)"
| "io_bind (DoSetDeadline d k) f = DoSetDeadline d (\<lambda>r. io_bind (k r) f)"
| "io_bind (DoDiscard k) f = DoDiscard (\<lambda>r. io_bind (k r) f)"
| "io_bind (DoClose k) f = DoClose (io_bind k f)"

text \<open>
  Randomness is a draw of the operating system: an error, or a source of bytes from which
  \<^verbatim>\<open>rand.Read\<close> fills the buffer.
\<close>

type_synonym entropy = "io_error + (nat \<Rightarrow> byte)"

definition rand_Read :: "entropy \<Rightarrow> nat \<Rightarrow> io_error + bytes" where
  "rand_Read g n = (case g of Inl e \<Rightarrow> Inl e | Inr f \<Rightarrow> Inr (map f [0..<n]))"

lemma rand_Read_length: "rand_Read g n = Inr bs \<Longrightarrow> length bs = n"
  by (auto simp: rand_Read_def split: sum.splits)

text \<open>The operations of a connection type, and the run of a program over them.\<close>

record 's conn_ops =
  op_Read :: "'s reader"
  op_Write :: "bytes \<Rightarrow> 's \<Rightarrow> io_error option \<times> 's"
  op_SetDeadline :: "int option \<Rightarrow> 's \<Rightarrow> io_error option \<times> 's"
  op_Close :: "'s \<Rightarrow> 's"

primrec run_io :: "'s conn_ops \<Rightarrow> entropy \<Rightarrow> 'a io \<Rightarrow> 's \<Rightarrow> ('a \<times> 's) option" where
  "run_io ops g (Ret a) s = Some (a, s)"
| "run_io ops g (DoReadFull n k) s =
     (case ReadFull (op_Read ops) n s of None \<Rightarrow> None | Some (r, s') \<Rightarrow> run_io ops g (k r) s')"
| "run_io ops g (DoWrite bs k) s =
     (case op_Write ops bs s of (e, s') \<Rightarrow> run_io ops g (k e) s')"
| "run_io ops g (DoRand n k) s = run_io ops g (k (rand_Read g n)) s"
| "run_io ops g (DoSetDeadline d k) s =
     (case op_SetDeadline ops d s of (e, s') \<Rightarrow> run_io ops g (k e) s')"
| "run_io ops g (DoDiscard k) s =
     (case Discard_loop (op_Read ops) s of None \<Rightarrow> None | Some (e, s') \<Rightarrow> run_io ops g (k e) s')"
| "run_io ops g (DoClose k) s = run_io ops g k (op_Close ops s)"

lemma run_io_bind:
  "run_io ops g (io_bind p f) s =
     (case run_io ops g p s of None \<Rightarrow> None | Some (a, s') \<Rightarrow> run_io ops g (f a) s')"
  by (induction p arbitrary: s) (auto split: option.splits prod.splits)

definition net_ops :: "conn conn_ops" where
  "net_ops = \<lparr>op_Read = conn_Read, op_Write = conn_Write,
              op_SetDeadline = conn_SetDeadline, op_Close = conn_Close\<rparr>"

section \<open>Runs seen from the stream\<close>

text \<open>
  What a program does to a connection, told in terms of the bytes alone:
  \<open>io_run g flt p c e a c' e' ws\<close> holds when \<open>p\<close>, on a stream that holds \<open>c\<close> and ends with \<open>e\<close>,
  can return \<open>a\<close> leaving \<open>c'\<close> (ending with \<open>e'\<close>) unread after the writes \<open>ws\<close>. Writes and
  deadline changes can fail only when \<open>flt\<close> says so, as they do after a close.
\<close>

inductive io_run ::
  "entropy \<Rightarrow> bool \<Rightarrow> 'a io \<Rightarrow> bytes \<Rightarrow> io_error \<Rightarrow> 'a \<Rightarrow> bytes \<Rightarrow> io_error \<Rightarrow> bytes list \<Rightarrow> bool"
  for g :: entropy where
  run_Ret: "io_run g flt (Ret a) c e a c e []"
| run_ReadFull: "io_run g flt (k (read_result n c e)) (drop n c) e a c' e' ws \<Longrightarrow>
     io_run g flt (DoReadFull n k) c e a c' e' ws"
| run_Write: "io_run g flt (k None) c e a c' e' ws \<Longrightarrow>
     io_run g flt (DoWrite bs k) c e a c' e' (bs # ws)"
| run_WriteErr: "flt \<Longrightarrow> io_run g flt (k (Some x)) c e a c' e' ws \<Longrightarrow>
     io_run g flt (DoWrite bs k) c e a c' e' ws"
| run_Rand: "io_run g flt (k (rand_Read g n)) c e a c' e' ws \<Longrightarrow>
     io_run g flt (DoRand n k) c e a c' e' ws"
| run_SetDeadline: "io_run g flt (k None) c e a c' e' ws \<Longrightarrow>
     io_run g flt (DoSetDeadline d k) c e a c' e' ws"
| run_SetDeadlineErr: "flt \<Longrightarrow> io_run g flt (k (Some x)) c e a c' e' ws \<Longrightarrow>
     io_run g flt (DoSetDeadline d k) c e a c' e' ws"
| run_Discard: "io_run g flt (k (if e = EOF then None else Some e)) [] e a c' e' ws \<Longrightarrow>
     io_run g flt (DoDiscard k) c e a c' e' ws"
| run_Close: "io_run g True k [] ErrClosed a c' e' ws \<Longrightarrow> io_run g flt (DoClose k) c e a c' e' ws"

inductive_simps io_run_simps [simp]:
  "io_run g flt (Ret a) c e b c' e' ws"
  "io_run g flt (DoReadFull n k) c e a c' e' ws"
  "io_run g flt (DoWrite bs k) c e a c' e' ws"
  "io_run g flt (DoRand n k) c e a c' e' ws"
  "io_run g flt (DoSetDeadline d k) c e a c' e' ws"
  "io_run g flt (DoDiscard k) c e a c' e' ws"
  "io_run g flt (DoClose k) c e a c' e' ws"

text \<open>A run that needs no failure is also possible where failures can happen.\<close>

lemma io_run_mono: "io_run g flt p c e a c' e' ws \<Longrightarrow> flt \<longrightarrow> flt' \<Longrightarrow> io_run g flt' p c e a c' e' ws"
  by (induction rule: io_run.induct) auto

lemma io_run_faulty: "io_run g flt p c e a c' e' ws \<Longrightarrow> io_run g True p c e a c' e' ws"
  by (erule io_run_mono) simp

text \<open>A sequenced program first runs its first part.\<close>

lemma io_run_bindD:
  "io_run g flt (io_bind p f) c e b c' e' ws \<Longrightarrow>
     \<exists>flt1 a c1 e1 ws1 ws2. io_run g flt p c e a c1 e1 ws1 \<and> io_run g flt1 (f a) c1 e1 b c' e' ws2
       \<and> ws = ws1 @ ws2"
proof (induction p arbitrary: flt c e ws)
  case (Ret a)
  then have "io_run g flt (Ret a) c e a c e []" "io_run g flt (f a) c e b c' e' ws" by auto
  then show ?case by (metis append_Nil)
next
  case (DoWrite bs k)
  from DoWrite.prems consider ws2 where "ws = bs # ws2" "io_run g flt (io_bind (k None) f) c e b c' e' ws2"
    | x where "flt" "io_run g flt (io_bind (k (Some x)) f) c e b c' e' ws"
    by auto
  then show ?case
  proof cases
    case 1
    from DoWrite.IH [OF rangeI 1(2)] 1(1) show ?thesis
      by simp (metis append_Cons)
  next
    case 2
    from DoWrite.IH [OF rangeI 2(2)] 2(1) show ?thesis
      by simp blast
  qed
next
  case (DoSetDeadline d k)
  from DoSetDeadline.prems obtain x where x: "x = None \<or> flt"
      and run: "io_run g flt (io_bind (k x) f) c e b c' e' ws"
    by auto
  from DoSetDeadline.IH [OF rangeI run] x show ?case
    by (cases x) (simp, blast)+
next
  case (DoReadFull n k)
  then have "io_run g flt (io_bind (k (read_result n c e)) f) (drop n c) e b c' e' ws" by simp
  from DoReadFull.IH [OF rangeI this] show ?case by simp
next
  case (DoRand n k)
  then have "io_run g flt (io_bind (k (rand_Read g n)) f) c e b c' e' ws" by simp
  from DoRand.IH [OF rangeI this] show ?case by simp
next
  case (DoDiscard k)
  then have "io_run g flt (io_bind (k (if e = EOF then None else Some e)) f) [] e b c' e' ws" by simp
  from DoDiscard.IH [OF rangeI this] show ?case by simp
next
  case (DoClose k)
  then have "io_run g True (io_bind k f) [] ErrClosed b c' e' ws" by simp
  from DoClose.IH [OF this] show ?case by simp
qed

text \<open>
  The contract between a connection and the programs that use it: its reader is a byte stream;
  writing appends to \<open>sent\<close> when it succeeds and never disturbs what is still to be read; closing
  ends the stream; a reliable connection accepts every write. Every program then runs to its end,
  and its run is one of \<open>io_run\<close>.
\<close>

locale connection = byte_stream "op_Read ops" content final todo "\<lambda>s. (sent s, reliable s)"
  for ops :: "'s conn_ops" and content :: "'s \<Rightarrow> bytes" and final :: "'s \<Rightarrow> io_error"
    and todo :: "'s \<Rightarrow> nat" and sent :: "'s \<Rightarrow> bytes list" and reliable :: "'s \<Rightarrow> bool" +
  assumes write_frame: "op_Write ops bs s = (e, s') \<Longrightarrow> content s' = content s \<and> final s' = final s"
    and write_sent:
      "op_Write ops bs s = (e, s') \<Longrightarrow> sent s' = (if e = None then sent s @ [bs] else sent s)"
    and write_reliable: "op_Write ops bs s = (e, s') \<Longrightarrow> reliable s \<Longrightarrow> e = None \<and> reliable s'"
    and deadline_frame: "op_SetDeadline ops d s = (e, s') \<Longrightarrow>
      content s' = content s \<and> final s' = final s \<and> sent s' = sent s"
    and deadline_reliable: "op_SetDeadline ops d s = (e, s') \<Longrightarrow> reliable s \<Longrightarrow> e = None \<and> reliable s'"
    and close_frame: "content (op_Close ops s) = [] \<and> final (op_Close ops s) = ErrClosed
      \<and> sent (op_Close ops s) = sent s"
begin

lemma run_io_refines:
  "flt \<or> reliable s \<Longrightarrow> \<exists>a s' ws. run_io ops g p s = Some (a, s') \<and> sent s' = sent s @ ws
     \<and> io_run g flt p (content s) (final s) a (content s') (final s') ws"
proof (induction p arbitrary: s flt)
  case (DoReadFull n k)
  obtain s1 where s1: "ReadFull (op_Read ops) n s = Some (read_result n (content s) (final s), s1)"
      "content s1 = drop n (content s)" "final s1 = final s" "sent s1 = sent s" "reliable s1 = reliable s"
    using ReadFull_returns [of n s] by auto
  from DoReadFull.IH [OF rangeI, of flt s1 "read_result n (content s) (final s)"] DoReadFull.prems s1
  show ?case by auto
next
  case (DoWrite bs k)
  obtain e s1 where w: "op_Write ops bs s = (e, s1)" by fastforce
  have "flt \<or> reliable s1" "e = None \<or> flt"
    using DoWrite.prems write_reliable [OF w] by auto
  with w DoWrite.IH [OF rangeI, of flt s1 e] write_frame [OF w] write_sent [OF w] show ?case
    by (cases e) fastforce+
next
  case (DoSetDeadline d k)
  obtain e s1 where d: "op_SetDeadline ops d s = (e, s1)" by fastforce
  have "flt \<or> reliable s1" "e = None \<or> flt"
    using DoSetDeadline.prems deadline_reliable [OF d] by auto
  with d DoSetDeadline.IH [OF rangeI, of flt s1 e] deadline_frame [OF d] show ?case
    by (cases e) fastforce+
next
  case (DoDiscard k)
  obtain s1 where s1: "Discard_loop (op_Read ops) s =
        Some (if final s = EOF then None else Some (final s), s1)"
      "content s1 = []" "final s1 = final s" "sent s1 = sent s" "reliable s1 = reliable s"
    using Discard_loop_returns [of s] by blast
  from DoDiscard.IH [OF rangeI, of flt s1 "if final s = EOF then None else Some (final s)"]
    DoDiscard.prems s1 show ?case by auto
next
  case (DoClose k)
  from DoClose.IH [of True "op_Close ops s"] close_frame [of s] show ?case by auto
qed auto

lemma run_io_returns: "\<exists>a s'. run_io ops g p s = Some (a, s')"
  using run_io_refines [of True s g p] by blast

lemma run_io_io_run:
  "run_io ops g p s = Some (a, s') \<Longrightarrow> flt \<or> reliable s \<Longrightarrow>
     \<exists>ws. sent s' = sent s @ ws \<and> io_run g flt p (content s) (final s) a (content s') (final s') ws"
  using run_io_refines [of flt s g p] by auto

end

interpretation netc: connection net_ops conn_content conn_final conn_todo tx conn_reliable
proof
  fix bs and s s' :: conn and e
  assume w: "op_Write net_ops bs s = (e, s')"
  then show "conn_content s' = conn_content s \<and> conn_final s' = conn_final s"
    and "tx s' = (if e = None then tx s @ [bs] else tx s)"
    by (auto simp: net_ops_def conn_Write_def conn_content_def conn_final_def
        split: if_splits prod.splits option.splits)
  assume "conn_reliable s"
  with w show "e = None \<and> conn_reliable s'"
    by (auto simp: net_ops_def conn_Write_def conn_reliable_def)
next
  fix d and s s' :: conn and e
  assume d: "op_SetDeadline net_ops d s = (e, s')"
  then show "conn_content s' = conn_content s \<and> conn_final s' = conn_final s \<and> tx s' = tx s"
    by (auto simp: net_ops_def conn_SetDeadline_def conn_content_def conn_final_def
        split: if_splits prod.splits option.splits)
  assume "conn_reliable s"
  with d show "e = None \<and> conn_reliable s'"
    by (auto simp: net_ops_def conn_SetDeadline_def conn_reliable_def)
qed (auto simp: net_ops_def conn_Close_def conn_content_def conn_final_def dest: net.rd_ok net.rd_err)

end
