(* ===== verification/Auth.thy ===== *)
theory Auth
  imports Go_Crypto Go_IO
begin

text \<open>
  Package \<^verbatim>\<open>auth\<close>, file \<^verbatim>\<open>internal/auth/auth.go\<close>: the keyed tags and the three-message
  handshake that opens the control channel and every data connection. The two sides are programs of
  type \<open>'a io\<close>. The lemmas of the section on adversarial peers hold for every connection that
  satisfies the \<open>connection\<close> contract; the section on two honest peers runs both programs against
  each other under every schedule.
\<close>

section \<open>Tags\<close>

definition NonceSize :: nat where "NonceSize = 32"
definition TagSize :: nat where "TagSize = 32"
definition labelClient :: string where "labelClient = ''gtun/v1/client''"
definition labelServer :: string where "labelServer = ''gtun/v1/server''"

definition Sign :: "string \<Rightarrow> string \<Rightarrow> bytes list \<Rightarrow> bytes" where
  "Sign token label parts =
     mac_Sum (fold mac_Write parts (mac_Write (bytes_of label) (hmac_New (bytes_of token))))"

definition Verify :: "string \<Rightarrow> string \<Rightarrow> bytes \<Rightarrow> bytes list \<Rightarrow> bool" where
  "Verify token label tag parts = hmac_Equal tag (Sign token label parts)"

definition DeriveKey :: "string \<Rightarrow> string \<Rightarrow> bytes" where
  "DeriveKey token purpose = Sign token (''gtun/v1/key/'' @ purpose) []"

lemma Sign_eq: "Sign token label parts = hmac_sha256 (bytes_of token) (bytes_of label @ concat parts)"
  by (simp add: Sign_def mac_Sum_def fold_mac_Write hmac_New_def)

lemma length_Sign [simp]: "length (Sign token label parts) = TagSize"
  by (simp add: Sign_eq TagSize_def)

lemma Verify_iff [simp]: "Verify token label tag parts \<longleftrightarrow> tag = Sign token label parts"
  by (simp add: Verify_def)

lemmas auth_sizes = NonceSize_def TagSize_def

section \<open>The handshake\<close>

text \<open>One constructor per error return of the two handshake functions.\<close>

datatype auth_error =
    GenerateNonce io_error
  | SendNonce io_error
  | ReadServerProof io_error
  | SendClientProof io_error
  | ReadClientNonce io_error
  | SendServerProof io_error
  | ReadClientProof io_error
  | ErrAuthFailed

text \<open>A \<^verbatim>\<open>Channel\<close> identifies one authenticated session: the transcript of the nonces.\<close>

type_synonym Channel = bytes

definition transcript :: "bytes \<Rightarrow> bytes \<Rightarrow> Channel" where
  "transcript clientNonce serverNonce = clientNonce @ serverNonce"

definition ClientHandshake :: "string \<Rightarrow> (auth_error + Channel) io" where
  "ClientHandshake token =
     DoRand NonceSize (\<lambda>r. case r of
       Inl e \<Rightarrow> Ret (Inl (GenerateNonce e))
     | Inr clientNonce \<Rightarrow>
         DoWrite clientNonce (\<lambda>w. case w of
           Some e \<Rightarrow> Ret (Inl (SendNonce e))
         | None \<Rightarrow>
             DoReadFull (NonceSize + TagSize) (\<lambda>r. case r of
               Inl e \<Rightarrow> Ret (Inl (ReadServerProof e))
             | Inr reply \<Rightarrow>
                 (let serverNonce = take NonceSize reply; serverTag = drop NonceSize reply in
                  if \<not> Verify token labelServer serverTag [clientNonce, serverNonce]
                  then Ret (Inl ErrAuthFailed)
                  else DoWrite (Sign token labelClient [clientNonce, serverNonce]) (\<lambda>w. case w of
                    Some e \<Rightarrow> Ret (Inl (SendClientProof e))
                  | None \<Rightarrow> Ret (Inr (transcript clientNonce serverNonce)))))))"

definition ServerHandshake :: "string \<Rightarrow> (auth_error + Channel) io" where
  "ServerHandshake token =
     DoReadFull NonceSize (\<lambda>r. case r of
       Inl e \<Rightarrow> Ret (Inl (ReadClientNonce e))
     | Inr clientNonce \<Rightarrow>
         DoRand NonceSize (\<lambda>r. case r of
           Inl e \<Rightarrow> Ret (Inl (GenerateNonce e))
         | Inr serverNonce \<Rightarrow>
             DoWrite (serverNonce @ Sign token labelServer [clientNonce, serverNonce]) (\<lambda>w. case w of
               Some e \<Rightarrow> Ret (Inl (SendServerProof e))
             | None \<Rightarrow>
                 DoReadFull TagSize (\<lambda>r. case r of
                   Inl e \<Rightarrow> Ret (Inl (ReadClientProof e))
                 | Inr clientTag \<Rightarrow>
                     if \<not> Verify token labelClient clientTag [clientNonce, serverNonce]
                     then Ret (Inl ErrAuthFailed)
                     else Ret (Inr (transcript clientNonce serverNonce))))))"

section \<open>Any peer: what an accepted connection must have carried\<close>

text \<open>
  Exact characterisations of success on a stream: which bytes the peer sent, what was written, and
  what the returned channel is.
\<close>

lemma ServerHandshake_run_iff:
  "io_run g flt (ServerHandshake token) c e (Inr ch) c' e' ws \<longleftrightarrow>
     (\<exists>nc ns. length nc = NonceSize \<and> rand_Read g NonceSize = Inr ns \<and> ch = transcript nc ns
        \<and> c = nc @ Sign token labelClient [nc, ns] @ c' \<and> e' = e
        \<and> ws = [ns @ Sign token labelServer [nc, ns]])" (is "?run \<longleftrightarrow> ?spec")
proof
  assume ?run
  then obtain nc where nc: "read_result NonceSize c e = Inr nc"
    unfolding ServerHandshake_def by (auto split: sum.splits)
  with \<open>?run\<close> obtain ns tag where ns: "rand_Read g NonceSize = Inr ns"
    and tag: "read_result TagSize (drop NonceSize c) e = Inr tag" "tag = Sign token labelClient [nc, ns]"
    and rest: "ch = transcript nc ns" "c' = drop TagSize (drop NonceSize c)" "e' = e"
      "ws = [ns @ Sign token labelServer [nc, ns]]"
    unfolding ServerHandshake_def by (auto split: sum.splits if_splits)
  from read_result_Inr_split [OF nc] read_result_Inr_split [OF tag(1)] rest tag(2)
  have "c = nc @ Sign token labelClient [nc, ns] @ c'" by metis
  with ns rest read_result_Inr_split [OF nc] show ?spec by blast
next
  assume ?spec
  then obtain nc ns where spec: "length nc = NonceSize" "rand_Read g NonceSize = Inr ns"
      "ch = transcript nc ns" "c = nc @ Sign token labelClient [nc, ns] @ c'" "e' = e"
      "ws = [ns @ Sign token labelServer [nc, ns]]" by blast
  then have "read_result NonceSize c e = Inr nc" "drop NonceSize c = Sign token labelClient [nc, ns] @ c'"
      "read_result TagSize (Sign token labelClient [nc, ns] @ c') e = Inr (Sign token labelClient [nc, ns])"
    by (auto simp: read_result_Inr_iff)
  with spec show ?run
    unfolding ServerHandshake_def by simp
qed

lemma ClientHandshake_run_iff:
  "io_run g flt (ClientHandshake token) c e (Inr ch) c' e' ws \<longleftrightarrow>
     (\<exists>nc ns. length ns = NonceSize \<and> rand_Read g NonceSize = Inr nc \<and> ch = transcript nc ns
        \<and> c = ns @ Sign token labelServer [nc, ns] @ c' \<and> e' = e
        \<and> ws = [nc, Sign token labelClient [nc, ns]])" (is "?run \<longleftrightarrow> ?spec")
proof
  assume ?run
  then obtain nc where nc: "rand_Read g NonceSize = Inr nc"
    unfolding ClientHandshake_def by (auto split: sum.splits)
  with \<open>?run\<close> obtain reply where reply: "read_result (NonceSize + TagSize) c e = Inr reply"
      and tag: "drop NonceSize reply = Sign token labelServer [nc, take NonceSize reply]"
      and rest: "ch = transcript nc (take NonceSize reply)" "c' = drop (NonceSize + TagSize) c" "e' = e"
        "ws = [nc, Sign token labelClient [nc, take NonceSize reply]]"
    unfolding ClientHandshake_def by (auto simp: Let_def split: sum.splits if_splits)
  from read_result_Inr_split [OF reply] have len: "length reply = NonceSize + TagSize"
      and c: "c = reply @ c'"
    using rest(2) by auto
  have "c = take NonceSize reply @ Sign token labelServer [nc, take NonceSize reply] @ c'"
    using c tag by (metis append.assoc append_take_drop_id)
  with nc rest len show ?spec by (auto intro!: exI [of _ "take NonceSize reply"])
next
  assume ?spec
  then obtain nc ns where spec: "length ns = NonceSize" "rand_Read g NonceSize = Inr nc"
      "ch = transcript nc ns" "c = ns @ Sign token labelServer [nc, ns] @ c'" "e' = e"
      "ws = [nc, Sign token labelClient [nc, ns]]" by blast
  then have "read_result (NonceSize + TagSize) c e = Inr (ns @ Sign token labelServer [nc, ns])"
      "drop (NonceSize + TagSize) c = c'"
    by (auto simp: read_result_Inr_iff)
  with spec show ?run
    unfolding ClientHandshake_def by simp
qed

text \<open>The failing runs of the server once a full nonce and tag have arrived and nothing else fails.\<close>

lemma ServerHandshake_run_reliable:
  assumes "length nc = NonceSize" and "length tag = TagSize" and "rand_Read g NonceSize = Inr ns"
  shows "io_run g False (ServerHandshake token) (nc @ tag @ rest) e r c' e' ws \<longleftrightarrow>
     r = (if tag = Sign token labelClient [nc, ns] then Inr (transcript nc ns) else Inl ErrAuthFailed)
     \<and> c' = rest \<and> e' = e \<and> ws = [ns @ Sign token labelServer [nc, ns]]"
proof -
  have "read_result NonceSize (nc @ tag @ rest) e = Inr nc" "drop NonceSize (nc @ tag @ rest) = tag @ rest"
      "read_result TagSize (tag @ rest) e = Inr tag"
    using assms by (auto simp: read_result_Inr_iff)
  then show ?thesis
    using assms unfolding ServerHandshake_def by auto
qed

lemma ClientHandshake_run_reliable:
  assumes "length ns = NonceSize" and "rand_Read g NonceSize = Inr nc"
  shows "io_run g False (ClientHandshake token) (ns @ Sign token labelServer [nc, ns] @ rest) e r c' e' ws
    \<longleftrightarrow> r = Inr (transcript nc ns) \<and> c' = rest \<and> e' = e \<and> ws = [nc, Sign token labelClient [nc, ns]]"
proof -
  have "read_result (NonceSize + TagSize) (ns @ Sign token labelServer [nc, ns] @ rest) e =
      Inr (ns @ Sign token labelServer [nc, ns])"
    using assms by (auto simp: read_result_Inr_iff)
  then show ?thesis
    using assms unfolding ClientHandshake_def by auto
qed

text \<open>A client run that returns \<^verbatim>\<open>ErrAuthFailed\<close> has written its nonce and nothing else.\<close>

lemma ClientHandshake_run_refused:
  assumes "io_run g flt (ClientHandshake token) c e (Inl ErrAuthFailed) c' e' ws"
  shows "\<exists>nc. rand_Read g NonceSize = Inr nc \<and> ws = [nc] \<and>
     \<not> (\<exists>ns rest. length ns = NonceSize \<and> c = ns @ Sign token labelServer [nc, ns] @ rest)"
proof -
  from assms obtain nc where nc: "rand_Read g NonceSize = Inr nc"
    unfolding ClientHandshake_def by (auto split: sum.splits)
  with assms obtain reply where reply: "read_result (NonceSize + TagSize) c e = Inr reply"
      and tag: "drop NonceSize reply \<noteq> Sign token labelServer [nc, take NonceSize reply]"
      and ws: "ws = [nc]"
    unfolding ClientHandshake_def by (auto simp: Let_def split: sum.splits if_splits)
  have "reply = ns @ Sign token labelServer [nc, ns]"
    if "length ns = NonceSize" "c = ns @ Sign token labelServer [nc, ns] @ rest" for ns rest
    using reply that by (simp add: read_result_Inr_iff)
  with tag nc ws show ?thesis by fastforce
qed

text \<open>The same facts for a network connection.\<close>

lemma server_handshake_run_ex:
  assumes "run_io net_ops g (ServerHandshake token) c = Some (Inr ch, c')"
  shows "\<exists>nc ns. length nc = NonceSize \<and> rand_Read g NonceSize = Inr ns \<and> ch = transcript nc ns
    \<and> conn_content c = nc @ Sign token labelClient [nc, ns] @ conn_content c'
    \<and> tx c' = tx c @ [ns @ Sign token labelServer [nc, ns]]"
  using netc.run_io_io_run [OF assms, of True] unfolding ServerHandshake_run_iff by blast

lemma server_run_reliable:
  assumes "conn_reliable c" and "conn_content c = nc @ tag @ rest"
    and "length nc = NonceSize" and "length tag = TagSize" and "rand_Read g NonceSize = Inr ns"
  shows "\<exists>c'. run_io net_ops g (ServerHandshake token) c =
      Some (if tag = Sign token labelClient [nc, ns] then Inr (transcript nc ns) else Inl ErrAuthFailed, c')
    \<and> conn_content c' = rest"
proof -
  from netc.run_io_refines [of False c g "ServerHandshake token"] assms(1) obtain r c' ws
    where "run_io net_ops g (ServerHandshake token) c = Some (r, c')"
      "io_run g False (ServerHandshake token) (conn_content c) (conn_final c) r (conn_content c') (conn_final c') ws"
    by blast
  then show ?thesis
    unfolding assms(2) ServerHandshake_run_reliable [OF assms(3,4,5)] by blast
qed

lemma client_run_reliable:
  assumes "conn_reliable c" and "conn_content c = ns @ Sign token labelServer [nc, ns] @ rest"
    and "length ns = NonceSize" and "rand_Read g NonceSize = Inr nc"
  shows "\<exists>c'. run_io net_ops g (ClientHandshake token) c = Some (Inr (transcript nc ns), c')
    \<and> conn_content c' = rest"
proof -
  from netc.run_io_refines [of False c g "ClientHandshake token"] assms(1) obtain r c' ws
    where "run_io net_ops g (ClientHandshake token) c = Some (r, c')"
      "io_run g False (ClientHandshake token) (conn_content c) (conn_final c) r (conn_content c') (conn_final c') ws"
    by blast
  then show ?thesis
    unfolding assms(2) ClientHandshake_run_reliable [OF assms(3,4)] by blast
qed

section \<open>Two honest peers\<close>

text \<open>
  Both programs joined by two reliable byte queues. A side blocks in a read until enough bytes have
  arrived; which side moves next is up to the scheduler.
\<close>

fun party_step :: "entropy \<Rightarrow> 'a io \<Rightarrow> bytes \<Rightarrow> ('a io \<times> bytes \<times> bytes) option" where
  "party_step g (Ret a) inb = None"
| "party_step g (DoReadFull n k) inb =
     (if n \<le> length inb then Some (k (Inr (take n inb)), drop n inb, []) else None)"
| "party_step g (DoWrite bs k) inb = Some (k None, inb, bs)"
| "party_step g (DoRand n k) inb = Some (k (rand_Read g n), inb, [])"
| "party_step g (DoSetDeadline d k) inb = Some (k None, inb, [])"
| "party_step g (DoDiscard k) inb = None"
| "party_step g (DoClose k) inb = Some (k, inb, [])"

record ('a, 'b) duplex =
  client_prog :: "'a io"
  server_prog :: "'b io"
  to_server :: bytes
  to_client :: bytes

inductive duplex_step :: "entropy \<Rightarrow> entropy \<Rightarrow> ('a, 'b) duplex \<Rightarrow> ('a, 'b) duplex \<Rightarrow> bool"
  for gc :: entropy and gs :: entropy where
  client_moves: "party_step gc (client_prog s) (to_client s) = Some (p, inb, out) \<Longrightarrow>
     duplex_step gc gs s (s\<lparr>client_prog := p, to_client := inb, to_server := to_server s @ out\<rparr>)"
| server_moves: "party_step gs (server_prog s) (to_server s) = Some (p, inb, out) \<Longrightarrow>
     duplex_step gc gs s (s\<lparr>server_prog := p, to_server := inb, to_client := to_client s @ out\<rparr>)"

definition handshake_start ::
  "string \<Rightarrow> string \<Rightarrow> (auth_error + bytes, auth_error + bytes) duplex" where
  "handshake_start ctoken stoken =
     \<lparr>client_prog = ClientHandshake ctoken, server_prog = ServerHandshake stoken,
      to_server = [], to_client = []\<rparr>"

text \<open>The steps of a state whose two programs are known.\<close>

lemma duplex_step_iff:
  "duplex_step gc gs s t \<longleftrightarrow>
     (\<exists>p inb out. party_step gc (client_prog s) (to_client s) = Some (p, inb, out) \<and>
        t = s\<lparr>client_prog := p, to_client := inb, to_server := to_server s @ out\<rparr>) \<or>
     (\<exists>p inb out. party_step gs (server_prog s) (to_server s) = Some (p, inb, out) \<and>
        t = s\<lparr>server_prog := p, to_server := inb, to_client := to_client s @ out\<rparr>)"
  by (auto simp: duplex_step.simps)

lemma party_step_more:
  "party_step g p inb = Some (p', rest, out) \<Longrightarrow> party_step g p (inb @ xs) = Some (p', rest @ xs, out)"
  by (cases p) (auto split: if_splits)

lemma client_step:
  "party_step gc p inb = Some (p', rest, out) \<Longrightarrow>
     duplex_step gc gs \<lparr>client_prog = p, server_prog = q, to_server = xs, to_client = inb\<rparr>
       \<lparr>client_prog = p', server_prog = q, to_server = xs @ out, to_client = rest\<rparr>"
  and server_step:
  "party_step gs q xs = Some (q', rest, out) \<Longrightarrow>
     duplex_step gc gs \<lparr>client_prog = p, server_prog = q, to_server = xs, to_client = inb\<rparr>
       \<lparr>client_prog = p, server_prog = q', to_server = rest, to_client = inb @ out\<rparr>"
  by (simp_all add: duplex_step_iff)

lemma duplex_step_cases:
  assumes "duplex_step gc gs \<lparr>client_prog = p, server_prog = q, to_server = xs, to_client = ys\<rparr> t"
  shows "(\<exists>p' ys' out. party_step gc p ys = Some (p', ys', out)
            \<and> t = \<lparr>client_prog = p', server_prog = q, to_server = xs @ out, to_client = ys'\<rparr>)
       \<or> (\<exists>q' xs' out. party_step gs q xs = Some (q', xs', out)
            \<and> t = \<lparr>client_prog = p, server_prog = q', to_server = xs', to_client = ys @ out\<rparr>)"
  using assms by (simp add: duplex_step_iff)

text \<open>A step of one side does not disable the other side: it only adds bytes to its queue.\<close>

lemma duplex_diamond:
  assumes "duplex_step gc gs s a" "duplex_step gc gs s b" "a \<noteq> b"
  shows "\<exists>c. duplex_step gc gs a c \<and> duplex_step gc gs b c"
proof (cases s)
  case (fields p q xs ys)
  have commute: "\<exists>c. duplex_step gc gs \<lparr>client_prog = p', server_prog = q, to_server = xs @ oc, to_client = ys'\<rparr> c
      \<and> duplex_step gc gs \<lparr>client_prog = p, server_prog = q', to_server = xs', to_client = ys @ os\<rparr> c"
    if "party_step gc p ys = Some (p', ys', oc)" "party_step gs q xs = Some (q', xs', os)" for p' ys' oc q' xs' os
    using server_step [OF party_step_more [OF that(2), of oc], of gc p' ys']
      client_step [OF party_step_more [OF that(1), of os], of gs q' xs'] by blast
  from duplex_step_cases [OF assms(1) [unfolded fields]] duplex_step_cases [OF assms(2) [unfolded fields]] assms(3)
  show ?thesis by (elim disjE exE conjE) (auto dest: commute)
qed

interpretation dx: diamond_system "duplex_step gc gs" for gc gs
  by unfold_locales (rule duplex_diamond)

text \<open>The stages of the two programs along the successful exchange.\<close>

lemma ClientHandshake_stages:
  "\<exists>k0 k1 k2 k3. ClientHandshake token = DoRand NonceSize k0 \<and> k0 (Inr nc) = DoWrite nc k1
     \<and> k1 None = DoReadFull (NonceSize + TagSize) k2
     \<and> (length ns = NonceSize \<longrightarrow> k2 (Inr (ns @ Sign token labelServer [nc, ns])) =
          DoWrite (Sign token labelClient [nc, ns]) k3)
     \<and> k3 None = Ret (Inr (transcript nc ns))"
  by (auto simp: ClientHandshake_def)

lemma ServerHandshake_stages:
  "\<exists>k0 k1 k2 k3. ServerHandshake token = DoReadFull NonceSize k0 \<and> k0 (Inr nc) = DoRand NonceSize k1
     \<and> k1 (Inr ns) = DoWrite (ns @ Sign token labelServer [nc, ns]) k2
     \<and> k2 None = DoReadFull TagSize k3
     \<and> k3 (Inr (Sign token labelClient [nc, ns])) = Ret (Inr (transcript nc ns))"
  by (auto simp: ServerHandshake_def)

definition handshake_done :: "bytes \<Rightarrow> bytes \<Rightarrow> (auth_error + bytes, auth_error + bytes) duplex" where
  "handshake_done nc ns =
     \<lparr>client_prog = Ret (Inr (transcript nc ns)), server_prog = Ret (Inr (transcript nc ns)),
      to_server = [], to_client = []\<rparr>"

lemma rand_Read_Inr [simp]: "rand_Read (Inr f) n = Inr (map f [0..<n])"
  by (simp add: rand_Read_def)

text \<open>One schedule of the exchange.\<close>

lemma handshake_runs:
  "(duplex_step (Inr draws_c) (Inr draws_s))\<^sup>*\<^sup>* (handshake_start token token)
     (handshake_done (map draws_c [0..<NonceSize]) (map draws_s [0..<NonceSize]))"
proof -
  define nc where "nc = map draws_c [0..<NonceSize]"
  define ns where "ns = map draws_s [0..<NonceSize]"
  let ?step = "duplex_step (Inr draws_c) (Inr draws_s)"
  let ?st = "\<lambda>p q a b. \<lparr>client_prog = p, server_prog = q, to_server = a, to_client = b\<rparr>
    :: (auth_error + bytes, auth_error + bytes) duplex"
  let ?reply = "ns @ Sign token labelServer [nc, ns]" and ?proof = "Sign token labelClient [nc, ns]"
  have len: "length nc = NonceSize" "length ns = NonceSize" by (simp_all add: nc_def ns_def)
  obtain c0 c1 c2 c3 where c: "ClientHandshake token = DoRand NonceSize c0" "c0 (Inr nc) = DoWrite nc c1"
      "c1 None = DoReadFull (NonceSize + TagSize) c2" "c2 (Inr ?reply) = DoWrite ?proof c3"
      "c3 None = Ret (Inr (transcript nc ns))"
    using ClientHandshake_stages [of token nc ns] len by blast
  obtain s0 s1 s2 s3 where s: "ServerHandshake token = DoReadFull NonceSize s0"
      "s0 (Inr nc) = DoRand NonceSize s1" "s1 (Inr ns) = DoWrite ?reply s2"
      "s2 None = DoReadFull TagSize s3" "s3 (Inr ?proof) = Ret (Inr (transcript nc ns))"
    using ServerHandshake_stages [of token nc ns] by blast
  let ?cr = "DoReadFull (NonceSize + TagSize) c2" and ?sr = "DoReadFull TagSize s3" and ?ok = "Ret (Inr (transcript nc ns))"
  have "?step (?st (ClientHandshake token) (ServerHandshake token) [] []) (?st (DoWrite nc c1) (ServerHandshake token) [] [])"
    by (simp add: duplex_step_iff c nc_def [symmetric])
  moreover have "?step (?st (DoWrite nc c1) (ServerHandshake token) [] []) (?st ?cr (ServerHandshake token) nc [])"
    by (simp add: duplex_step_iff c)
  moreover have "?step (?st ?cr (ServerHandshake token) nc []) (?st ?cr (DoRand NonceSize s1) [] [])"
    by (simp add: duplex_step_iff s len)
  moreover have "?step (?st ?cr (DoRand NonceSize s1) [] []) (?st ?cr (DoWrite ?reply s2) [] [])"
    by (simp add: duplex_step_iff s ns_def [symmetric])
  moreover have "?step (?st ?cr (DoWrite ?reply s2) [] []) (?st ?cr ?sr [] ?reply)"
    by (simp add: duplex_step_iff s)
  moreover have "?step (?st ?cr ?sr [] ?reply) (?st (DoWrite ?proof c3) ?sr [] [])"
    by (simp add: duplex_step_iff c len)
  moreover have "?step (?st (DoWrite ?proof c3) ?sr [] []) (?st ?ok ?sr ?proof [])"
    by (simp add: duplex_step_iff c)
  moreover have "?step (?st ?ok ?sr ?proof []) (?st ?ok ?ok [] [])"
    by (simp add: duplex_step_iff s)
  ultimately show ?thesis
    unfolding handshake_start_def handshake_done_def nc_def [symmetric] ns_def [symmetric]
    by (meson rtranclp.rtrancl_into_rtrancl rtranclp.rtrancl_refl)
qed

lemma handshake_done_stuck: "\<not> duplex_step gc gs (handshake_done nc ns) t"
  by (simp add: duplex_step_iff handshake_done_def)

section \<open>Properties\<close>

text \<open>A concrete exchange for the witnesses.\<close>

definition demo_token :: string where "demo_token = ''0123456789abcdef''"
definition demo_nc :: bytes where "demo_nc = replicate NonceSize 1"
definition demo_ns :: bytes where "demo_ns = replicate NonceSize 2"

lemma demo_nonces [simp]:
  "length demo_nc = NonceSize" "length demo_ns = NonceSize"
  "map (\<lambda>_. 1) [0..<NonceSize] = demo_nc" "map (\<lambda>_. 2) [0..<NonceSize] = demo_ns"
  "map (\<lambda>_. 3) [0..<NonceSize] = replicate NonceSize 3"
  by (simp_all add: demo_nc_def demo_ns_def map_replicate_const)

text \<open>A recorded exchange: what an honest client sends, cut into two segments.\<close>

definition demo_client_stream :: conn where
  "demo_client_stream = conn_of [demo_nc, Sign demo_token labelClient [demo_nc, demo_ns]]"

lemma demo_server_accepts:
  "\<exists>c'. run_io net_ops (Inr (\<lambda>_. 2)) (ServerHandshake demo_token) demo_client_stream =
     Some (Inr (transcript demo_nc demo_ns), c')"
  using server_run_reliable [of demo_client_stream demo_nc "Sign demo_token labelClient [demo_nc, demo_ns]"
      "[]" "Inr (\<lambda>_. 2)" demo_ns demo_token]
  by (auto simp: demo_client_stream_def)

text \<open>
  C1. Server authentication against any peer. Whatever bytes arrive, in whatever segments, and
  whichever writes fail: if \<^verbatim>\<open>ServerHandshake\<close> returns a channel, the peer sent a 32-byte nonce
  followed by the client tag over that nonce and this run's own fresh server nonce, the channel is
  the transcript of the two nonces, nothing beyond the proof was consumed, and the only thing the
  server wrote is its nonce with its own proof.
\<close>

theorem server_handshake_sound:
  assumes "run_io net_ops g (ServerHandshake token) c = Some (Inr ch, c')"
  shows "\<exists>nc ns. length nc = NonceSize \<and> rand_Read g NonceSize = Inr ns \<and> ch = transcript nc ns
    \<and> conn_content c = nc @ Sign token labelClient [nc, ns] @ conn_content c'
    \<and> tx c' = tx c @ [ns @ Sign token labelServer [nc, ns]]"
  using assms by (rule server_handshake_run_ex)

theorem server_handshake_sound_witness:
  "\<exists>ch c'. run_io net_ops (Inr (\<lambda>_. 2)) (ServerHandshake demo_token) demo_client_stream = Some (Inr ch, c')
    \<and> (\<exists>nc ns. length nc = NonceSize \<and> ch = transcript nc ns
       \<and> conn_content demo_client_stream = nc @ Sign demo_token labelClient [nc, ns] @ conn_content c')"
proof -
  obtain c' where run: "run_io net_ops (Inr (\<lambda>_. 2)) (ServerHandshake demo_token) demo_client_stream =
      Some (Inr (transcript demo_nc demo_ns), c')"
    using demo_server_accepts by blast
  with server_handshake_sound [OF run] show ?thesis by blast
qed

text \<open>
  The server accepts exactly the right proof. On a connection that delivers a nonce and a
  32-byte tag and on which nothing fails, \<^verbatim>\<open>ServerHandshake\<close> returns, with the transcript if the tag is
  the client tag for this run's nonces and with \<^verbatim>\<open>ErrAuthFailed\<close> otherwise, leaving the bytes after
  the tag unread.
\<close>

theorem server_handshake_decides:
  assumes "conn_reliable c" and "conn_content c = nc @ tag @ rest"
    and "length nc = NonceSize" and "length tag = TagSize" and "rand_Read g NonceSize = Inr ns"
  shows "\<exists>c'. run_io net_ops g (ServerHandshake token) c =
      Some (if tag = Sign token labelClient [nc, ns] then Inr (transcript nc ns) else Inl ErrAuthFailed, c')
    \<and> conn_content c' = rest"
  using assms by (rule server_run_reliable)

theorem server_handshake_decides_witness:
  "\<exists>c'. run_io net_ops (Inr (\<lambda>_. 2)) (ServerHandshake demo_token) demo_client_stream =
     Some (Inr (transcript demo_nc demo_ns), c') \<and> conn_content c' = []"
  using server_handshake_decides [of demo_client_stream demo_nc
      "Sign demo_token labelClient [demo_nc, demo_ns]" "[]" "Inr (\<lambda>_. 2)" demo_ns demo_token]
  by (simp add: demo_client_stream_def)

text \<open>
  C2. The client authenticates the server before it proves anything. If \<^verbatim>\<open>ClientHandshake\<close> returns a
  channel, the server's reply was its nonce with the server tag over both nonces, and the client
  wrote its nonce and then the client tag; if it returns \<^verbatim>\<open>ErrAuthFailed\<close>, the reply was no such
  thing and the client has written its nonce only, never its proof.
\<close>

theorem client_handshake_sound:
  assumes "run_io net_ops g (ClientHandshake token) c = Some (r, c')"
  shows "(\<forall>ch. r = Inr ch \<longrightarrow> (\<exists>nc ns. length ns = NonceSize \<and> rand_Read g NonceSize = Inr nc
            \<and> ch = transcript nc ns
            \<and> conn_content c = ns @ Sign token labelServer [nc, ns] @ conn_content c'
            \<and> tx c' = tx c @ [nc, Sign token labelClient [nc, ns]]))
       \<and> (r = Inl ErrAuthFailed \<longrightarrow> (\<exists>nc. rand_Read g NonceSize = Inr nc \<and> tx c' = tx c @ [nc]
            \<and> \<not> (\<exists>ns rest. length ns = NonceSize
                 \<and> conn_content c = ns @ Sign token labelServer [nc, ns] @ rest)))"
proof -
  obtain ws where ws: "tx c' = tx c @ ws"
    and run: "io_run g True (ClientHandshake token) (conn_content c) (conn_final c) r
      (conn_content c') (conn_final c') ws"
    using netc.run_io_io_run [OF assms, of True] by blast
  show ?thesis
  proof (intro conjI allI impI)
    fix ch assume "r = Inr ch"
    with run ws show "\<exists>nc ns. length ns = NonceSize \<and> rand_Read g NonceSize = Inr nc
            \<and> ch = transcript nc ns
            \<and> conn_content c = ns @ Sign token labelServer [nc, ns] @ conn_content c'
            \<and> tx c' = tx c @ [nc, Sign token labelClient [nc, ns]]"
      using ClientHandshake_run_iff by auto
  next
    assume "r = Inl ErrAuthFailed"
    with run ws show "\<exists>nc. rand_Read g NonceSize = Inr nc \<and> tx c' = tx c @ [nc]
            \<and> \<not> (\<exists>ns rest. length ns = NonceSize
                 \<and> conn_content c = ns @ Sign token labelServer [nc, ns] @ rest)"
      using ClientHandshake_run_refused by blast
  qed
qed

theorem client_handshake_sound_witness:
  "\<exists>ch c'. run_io net_ops (Inr (\<lambda>_. 1)) (ClientHandshake demo_token)
      (conn_of [demo_ns @ Sign demo_token labelServer [demo_nc, demo_ns]]) = Some (Inr ch, c')
    \<and> tx c' = [demo_nc, Sign demo_token labelClient [demo_nc, demo_ns]]"
proof -
  let ?c = "conn_of [demo_ns @ Sign demo_token labelServer [demo_nc, demo_ns]]"
  obtain c' where run: "run_io net_ops (Inr (\<lambda>_. 1)) (ClientHandshake demo_token) ?c =
      Some (Inr (transcript demo_nc demo_ns), c')"
    using client_run_reliable [of ?c demo_ns demo_token demo_nc "[]" "Inr (\<lambda>_. 1)"] by auto
  from client_handshake_sound [OF run] obtain nc ns where "length ns = NonceSize" "nc = demo_nc"
      "concat [demo_ns @ Sign demo_token labelServer [demo_nc, demo_ns]] =
        ns @ Sign demo_token labelServer [nc, ns] @ conn_content c'"
      "tx c' = [nc, Sign demo_token labelClient [nc, ns]]"
    by auto
  moreover from this have "ns = demo_ns"
    by (simp add: append_same_length_cancel)
  ultimately show ?thesis using run by blast
qed

text \<open>
  C13. Two honest peers with the same token always finish. Under every schedule of the two sides, the
  exchange cannot get stuck or run for ever: from every state it can reach, it still reaches the
  state in which both sides have returned the same channel, the transcript of the two nonces, with
  both queues empty; and there is no infinite run.
\<close>

theorem handshake_completes:
  "((duplex_step (Inr fc) (Inr fs))\<^sup>*\<^sup>* (handshake_start token token) s \<longrightarrow>
          (duplex_step (Inr fc) (Inr fs))\<^sup>*\<^sup>* s (handshake_done (map fc [0..<NonceSize]) (map fs [0..<NonceSize])))
       \<and> \<not> (\<exists>run. run 0 = handshake_start token token \<and> (\<forall>i. duplex_step (Inr fc) (Inr fs) (run i) (run (Suc i))))"
  by (rule dx.confluent_end [OF handshake_done_stuck handshake_runs])

theorem handshake_completes_witness:
  "(duplex_step (Inr (\<lambda>_. 1)) (Inr (\<lambda>_. 2)))\<^sup>*\<^sup>* (handshake_start demo_token demo_token)
     (handshake_done (map (\<lambda>_. 1) [0..<NonceSize]) (map (\<lambda>_. 2) [0..<NonceSize]))"
  using handshake_completes [where fc = "\<lambda>_. 1" and fs = "\<lambda>_. 2" and token = demo_token
      and s = "handshake_start demo_token demo_token"]
  by blast

text \<open>
  C17. Replay. If the bytes a server accepted in one run are presented to it again in another run, in
  which it draws the nonce \<open>ns2\<close> instead of \<open>ns1\<close>, then the second run accepts exactly when the client
  tags over the replayed nonce and the two server nonces collide, and fails with \<^verbatim>\<open>ErrAuthFailed\<close>
  otherwise.
\<close>

theorem replay_rejected:
  assumes first: "run_io net_ops g1 (ServerHandshake token) c1 = Some (Inr ch, c1')"
    and again: "conn_reliable c2" "conn_content c2 = conn_content c1"
    and draws: "rand_Read g1 NonceSize = Inr ns1" "rand_Read g2 NonceSize = Inr ns2"
    and nc: "nc = take NonceSize (conn_content c1)"
  shows "\<exists>c2'. run_io net_ops g2 (ServerHandshake token) c2 =
     Some (if Sign token labelClient [nc, ns1] = Sign token labelClient [nc, ns2]
           then Inr (transcript nc ns2) else Inl ErrAuthFailed, c2')"
proof -
  from server_handshake_run_ex [OF first] draws(1) nc have len: "length nc = NonceSize"
      and c1: "conn_content c1 = nc @ Sign token labelClient [nc, ns1] @ conn_content c1'"
    by auto
  from server_run_reliable [OF again(1) _ len _ draws(2)] again(2) c1 show ?thesis
    by (metis length_Sign)
qed

theorem replay_rejected_witness:
  "\<exists>c2'. run_io net_ops (Inr (\<lambda>_. 3)) (ServerHandshake demo_token) demo_client_stream =
     Some (if Sign demo_token labelClient [demo_nc, demo_ns] =
              Sign demo_token labelClient [demo_nc, replicate NonceSize 3]
           then Inr (transcript demo_nc (replicate NonceSize 3)) else Inl ErrAuthFailed, c2')"
proof -
  obtain c' where run: "run_io net_ops (Inr (\<lambda>_. 2)) (ServerHandshake demo_token) demo_client_stream =
      Some (Inr (transcript demo_nc demo_ns), c')"
    using demo_server_accepts by blast
  show ?thesis
    by (rule replay_rejected [OF run]) (simp_all add: demo_client_stream_def)
qed

end
