(* ===== verification/Proto.thy ===== *)
theory Proto
  imports Gtun_Prelude
begin

text \<open>
  Package \<^verbatim>\<open>proto\<close>, file \<^verbatim>\<open>internal/proto/proto.go\<close>: the transport protocols. A protocol name is a
  string type in the source, so that any string can occur in a configuration; \<open>Parse\<close> admits the
  supported ones.
\<close>

type_synonym name = string

definition TCP :: name where "TCP = ''tcp''"
definition UDP :: name where "UDP = ''udp''"
definition WS :: name where "WS = ''ws''"
definition WSS :: name where "WSS = ''wss''"
definition TCPMux :: name where "TCPMux = ''tcpmux''"
definition WSMux :: name where "WSMux = ''wsmux''"
definition WSSMux :: name where "WSSMux = ''wssmux''"
definition UTCPMux :: name where "UTCPMux = ''utcpmux''"
definition QUIC :: name where "QUIC = ''quic''"
definition Stealth :: name where "Stealth = ''stealth''"

lemmas proto_names = TCP_def UDP_def WS_def WSS_def TCPMux_def WSMux_def WSSMux_def UTCPMux_def
  QUIC_def Stealth_def

definition supported :: "name list" where
  "supported = [TCP, UDP, WS, WSS, TCPMux, WSMux, WSSMux, UTCPMux, QUIC, Stealth]"

datatype proto_error = UnknownProtocol string

fun parse_in :: "name list \<Rightarrow> string \<Rightarrow> proto_error + name" where
  "parse_in [] s = Inl (UnknownProtocol s)"
| "parse_in (n # ns) s = (if n = s then Inr n else parse_in ns s)"

definition Parse :: "string \<Rightarrow> proto_error + name" where
  "Parse s = parse_in supported s"

definition Mux :: "name \<Rightarrow> bool" where
  "Mux n = (n \<in> set [TCPMux, WSMux, WSSMux, UTCPMux, Stealth])"

definition WebSocket :: "name \<Rightarrow> bool" where
  "WebSocket n = (n \<in> set [WS, WSS, WSMux, WSSMux])"

definition TLS :: "name \<Rightarrow> bool" where
  "TLS n = (n \<in> set [WSS, WSSMux, QUIC])"

definition UDPBased :: "name \<Rightarrow> bool" where
  "UDPBased n = (n \<in> set [UDP, UTCPMux, QUIC])"

lemma parse_in_Inr: "parse_in ns s = Inr n \<longleftrightarrow> n = s \<and> s \<in> set ns"
  by (induction ns) auto

lemma parse_in_Inl: "parse_in ns s = Inl e \<longleftrightarrow> e = UnknownProtocol s \<and> s \<notin> set ns"
  by (induction ns) auto

lemma Parse_Inr_iff [simp]: "Parse s = Inr n \<longleftrightarrow> n = s \<and> s \<in> set supported"
  by (simp add: Parse_def parse_in_Inr)

lemma Parse_Inl_iff [simp]: "Parse s = Inl e \<longleftrightarrow> e = UnknownProtocol s \<and> s \<notin> set supported"
  by (simp add: Parse_def parse_in_Inl)

lemma Parse_supported: "s \<in> set supported \<Longrightarrow> Parse s = Inr s"
  by simp

lemma distinct_supported: "distinct supported"
  by (simp add: supported_def proto_names)

lemma supported_cases:
  assumes "n \<in> set supported"
  obtains "n = TCP" | "n = UDP" | "n = WS" | "n = WSS" | "n = TCPMux" | "n = WSMux" | "n = WSSMux"
    | "n = UTCPMux" | "n = QUIC" | "n = Stealth"
  using assms by (auto simp: supported_def)

lemmas proto_classes = Mux_def WebSocket_def TLS_def UDPBased_def

end
