(* ===== verification/Go_Strings.thy ===== *)
theory Go_Strings
  imports Gtun_Prelude
begin

text \<open>
  The string functions of Go's standard library that the program calls: decimal integers of
  \<^verbatim>\<open>strconv\<close>, \<^verbatim>\<open>net.SplitHostPort\<close> and \<^verbatim>\<open>net.JoinHostPort\<close>, and the Unix paths of
  \<^verbatim>\<open>path/filepath\<close>.
\<close>

section \<open>Decimal integers\<close>

definition is_digit :: "char \<Rightarrow> bool" where
  "is_digit c = (48 \<le> (of_char c :: nat) \<and> (of_char c :: nat) \<le> 57)"

definition digit_val :: "char \<Rightarrow> nat" where
  "digit_val c = of_char c - 48"

definition digit_char :: "nat \<Rightarrow> char" where
  "digit_char d = char_of (48 + d)"

definition digits_val :: "string \<Rightarrow> nat" where
  "digits_val s = foldl (\<lambda>n c. 10 * n + digit_val c) 0 s"

text \<open>
  \<^verbatim>\<open>strconv.Atoi\<close> and \<^verbatim>\<open>strconv.ParseInt(s, 10, 64)\<close>: an optional sign, at least one digit, nothing
  else, and a value that fits 64 bits. The callers look only at whether there was an error.
\<close>

definition split_sign :: "string \<Rightarrow> bool \<times> string" where
  "split_sign s =
     (case s of
        [] \<Rightarrow> (False, [])
      | c # r \<Rightarrow> if c = CHR ''-'' then (True, r) else if c = CHR ''+'' then (False, r) else (False, s))"

definition Atoi :: "string \<Rightarrow> int option" where
  "Atoi s =
     (case split_sign s of (neg, ds) \<Rightarrow>
        if ds = [] \<or> \<not> list_all is_digit ds then None
        else let n = (if neg then - int (digits_val ds) else int (digits_val ds)) in
             if - (2 ^ 63) \<le> n \<and> n < 2 ^ 63 then Some n else None)"

text \<open>\<^verbatim>\<open>strconv.Itoa\<close>, the decimal form \<^verbatim>\<open>json.Marshal\<close> writes.\<close>

fun nat_digits :: "nat \<Rightarrow> string" where
  "nat_digits n = (if n < 10 then [digit_char n] else nat_digits (n div 10) @ [digit_char (n mod 10)])"

declare nat_digits.simps [simp del]

definition Itoa :: "int \<Rightarrow> string" where
  "Itoa n = (if n < 0 then CHR ''-'' # nat_digits (nat (- n)) else nat_digits (nat n))"

lemma of_char_digit_char: "d < 10 \<Longrightarrow> (of_char (digit_char d) :: nat) = 48 + d"
  by (simp add: digit_char_def)

lemma digit_char_simps [simp]:
  "d < 10 \<Longrightarrow> is_digit (digit_char d)" "d < 10 \<Longrightarrow> digit_val (digit_char d) = d"
  by (simp_all add: is_digit_def digit_val_def of_char_digit_char)

lemma digits_val_append: "digits_val (s @ [c]) = 10 * digits_val s + digit_val c"
  by (simp add: digits_val_def)

lemma nat_digits_ok:
  "nat_digits n \<noteq> [] \<and> list_all is_digit (nat_digits n) \<and> digits_val (nat_digits n) = n"
proof (induction n rule: nat_digits.induct)
  case (1 n)
  show ?case
  proof (cases "n < 10")
    case True
    then show ?thesis
      by (subst (1 2 3) nat_digits.simps) (simp add: digits_val_def)
  next
    case False
    with 1 show ?thesis
      by (subst (1 2 3) nat_digits.simps) (simp add: digits_val_append)
  qed
qed

lemma is_digit_not_sign: "is_digit c \<Longrightarrow> c \<noteq> CHR ''-'' \<and> c \<noteq> CHR ''+''"
  by (auto simp: is_digit_def)

lemma split_sign_digits:
  "list_all is_digit ds \<Longrightarrow> ds \<noteq> [] \<Longrightarrow> split_sign ds = (False, ds)"
  by (cases ds) (auto simp: split_sign_def dest: is_digit_not_sign)

lemma Atoi_Itoa: "- (2 ^ 63) \<le> n \<Longrightarrow> n < 2 ^ 63 \<Longrightarrow> Atoi (Itoa n) = Some n"
  using nat_digits_ok [of "nat n"] nat_digits_ok [of "nat (- n)"]
  by (auto simp: Atoi_def Itoa_def split_sign_digits) (auto simp: split_sign_def)

text \<open>A string that parses consists of digits and at most a leading sign.\<close>

lemma Atoi_chars: "Atoi s = Some n \<Longrightarrow> c \<in> set s \<Longrightarrow> is_digit c \<or> c = CHR ''+'' \<or> c = CHR ''-''"
  by (cases s) (auto simp: Atoi_def split_sign_def list_all_iff Let_def split: if_splits)

section \<open>Host and port\<close>

fun IndexByte :: "string \<Rightarrow> char \<Rightarrow> nat option" where
  "IndexByte [] c = None"
| "IndexByte (x # xs) c = (if x = c then Some 0 else map_option Suc (IndexByte xs c))"

definition LastIndexByte :: "string \<Rightarrow> char \<Rightarrow> nat option" where
  "LastIndexByte s c = map_option (\<lambda>i. length s - 1 - i) (IndexByte (rev s) c)"

datatype addr_error =
  MissingPort | TooManyColons | MissingBracket | UnexpectedOpenBracket | UnexpectedCloseBracket

text \<open>
  \<^verbatim>\<open>net.SplitHostPort\<close>: the port starts after the last colon; a bracketed host must be closed right
  before it; a plain host holds no colon; brackets occur nowhere else.
\<close>

definition split_finish :: "string \<Rightarrow> nat \<Rightarrow> string \<Rightarrow> nat \<Rightarrow> nat \<Rightarrow> addr_error + (string \<times> string)" where
  "split_finish hostport i host j k =
     (if IndexByte (drop j hostport) (CHR ''['') \<noteq> None then Inl UnexpectedOpenBracket
      else if IndexByte (drop k hostport) (CHR '']'') \<noteq> None then Inl UnexpectedCloseBracket
      else Inr (host, drop (i + 1) hostport))"

definition SplitHostPort :: "string \<Rightarrow> addr_error + (string \<times> string)" where
  "SplitHostPort hostport =
     (case LastIndexByte hostport (CHR '':'') of
        None \<Rightarrow> Inl MissingPort
      | Some i \<Rightarrow>
          if hostport ! 0 = CHR ''['' then
            (case IndexByte hostport (CHR '']'') of
               None \<Rightarrow> Inl MissingBracket
             | Some end_ \<Rightarrow>
                 if end_ + 1 = length hostport then Inl MissingPort
                 else if end_ + 1 = i then
                   split_finish hostport i (take (end_ - 1) (drop 1 hostport)) 1 (end_ + 1)
                 else if hostport ! (end_ + 1) = CHR '':'' then Inl TooManyColons
                 else Inl MissingPort)
          else if IndexByte (take i hostport) (CHR '':'') \<noteq> None then Inl TooManyColons
          else split_finish hostport i (take i hostport) 0 0)"

definition JoinHostPort :: "string \<Rightarrow> string \<Rightarrow> string" where
  "JoinHostPort host port =
     (if IndexByte host (CHR '':'') \<noteq> None then ''['' @ host @ '']:'' @ port else host @ '':'' @ port)"

lemma IndexByte_None_iff: "IndexByte s c = None \<longleftrightarrow> c \<notin> set s"
  by (induction s) auto

lemma IndexByte_append_first: "c \<notin> set a \<Longrightarrow> IndexByte (a @ c # b) c = Some (length a)"
  by (induction a) auto

lemma LastIndexByte_append_last: "c \<notin> set b \<Longrightarrow> LastIndexByte (a @ c # b) c = Some (length a)"
  using IndexByte_append_first [of c "rev b" "rev a"] by (simp add: LastIndexByte_def)

text \<open>
  Joining then splitting returns the host and the port: also for hosts with colons (IPv6), as long as
  the host has no brackets and the port no colon or bracket.
\<close>

lemma SplitHostPort_JoinHostPort:
  assumes host: "CHR ''['' \<notin> set host" "CHR '']'' \<notin> set host"
    and port: "CHR '':'' \<notin> set port" "CHR ''['' \<notin> set port" "CHR '']'' \<notin> set port"
  shows "SplitHostPort (JoinHostPort host port) = Inr (host, port)"
proof (cases "CHR '':'' \<in> set host")
  case True
  let ?s = "CHR ''['' # host @ CHR '']'' # CHR '':'' # port"
  have "LastIndexByte ?s (CHR '':'') = Some (length host + 2)"
    using LastIndexByte_append_last [OF port(1), of "CHR ''['' # host @ '']''"] by simp
  moreover have "IndexByte ?s (CHR '']'') = Some (length host + 1)"
    using IndexByte_append_first [of "CHR '']''" "CHR ''['' # host" "CHR '':'' # port"] host by simp
  ultimately show ?thesis
    using True host port
    by (simp add: SplitHostPort_def JoinHostPort_def split_finish_def IndexByte_None_iff)
next
  case False
  let ?s = "host @ CHR '':'' # port"
  have "LastIndexByte ?s (CHR '':'') = Some (length host)"
    by (rule LastIndexByte_append_last [OF port(1)])
  moreover have "?s ! 0 \<noteq> CHR ''[''"
    using host by (cases host) auto
  ultimately show ?thesis
    using False host port
    by (simp add: SplitHostPort_def JoinHostPort_def split_finish_def IndexByte_None_iff)
qed

section \<open>Unix paths\<close>

fun split_on :: "char \<Rightarrow> string \<Rightarrow> string list" where
  "split_on c [] = [[]]"
| "split_on c (x # xs) =
     (if x = c then [] # split_on c xs
      else case split_on c xs of [] \<Rightarrow> [[x]] | w # ws \<Rightarrow> (x # w) # ws)"

fun join_with :: "string \<Rightarrow> string list \<Rightarrow> string" where
  "join_with sep [] = []"
| "join_with sep [w] = w"
| "join_with sep (w # ws) = w @ sep @ join_with sep ws"

text \<open>
  The element loop of \<^verbatim>\<open>filepath.Clean\<close>, with the output kept as a stack of elements: empty elements and
  dots are dropped; a double dot removes the previous element, is dropped at a root and kept at the start of a relative
  path.
\<close>

fun clean_elems :: "bool \<Rightarrow> string list \<Rightarrow> string list \<Rightarrow> string list" where
  "clean_elems rooted [] out = rev out"
| "clean_elems rooted (e # es) out =
     (if e = '''' \<or> e = ''.'' then clean_elems rooted es out
      else if e = ''..'' then
        (case out of
           t # ts \<Rightarrow> if t \<noteq> ''..'' then clean_elems rooted es ts else clean_elems rooted es (e # out)
         | [] \<Rightarrow> if rooted then clean_elems rooted es [] else clean_elems rooted es [e])
      else clean_elems rooted es (e # out))"

definition Clean :: "string \<Rightarrow> string" where
  "Clean path =
     (if path = [] then ''.''
      else let rooted = (hd path = CHR ''/'');
               out = join_with ''/'' (clean_elems rooted (split_on (CHR ''/'') path) [])
           in if rooted then ''/'' @ out else if out = [] then ''.'' else out)"

definition Dir :: "string \<Rightarrow> string" where
  "Dir path = Clean (case LastIndexByte path (CHR ''/'') of None \<Rightarrow> [] | Some i \<Rightarrow> take (i + 1) path)"

definition Join2 :: "string \<Rightarrow> string \<Rightarrow> string" where
  "Join2 a b = (if a \<noteq> [] then Clean (a @ ''/'' @ b) else if b \<noteq> [] then Clean b else [])"

lemma Join_Dir_example: "Join2 (Dir ''/etc/g-tun/client_config.json'') ''cert.pem'' = ''/etc/g-tun/cert.pem''"
  by code_simp

end
