(* ===== verification/Go_Json.thy ===== *)
theory Go_Json
  imports Go_Strings
begin

text \<open>
  The parts of Go's \<^verbatim>\<open>encoding/json\<close> that the program uses: the text grammar with its nesting limit,
  string quoting and unquoting with UTF-8 and surrogate handling, and the decoding of an object into a
  struct (case-insensitive field names, unknown fields skipped, \<^verbatim>\<open>null\<close> ignored, type mismatches
  reported after the whole value). The main result is that what the encoder prints, the parser reads
  back.
\<close>

section \<open>Values\<close>

text \<open>A number keeps its literal, as the decoder converts it only for its target.\<close>

datatype json =
    JNull
  | JBool bool
  | JNum string
  | JStr string
  | JArr "json list"
  | JObj "(string \<times> json) list"

section \<open>UTF-8\<close>

definition ord :: "char \<Rightarrow> nat" where "ord c = of_char c"

lemma ord_less: "ord c < 256"
  by (simp add: ord_def of_char_less_256)

definition cont_byte :: "char \<Rightarrow> bool" where
  "cont_byte c = (0x80 \<le> ord c \<and> ord c \<le> 0xBF)"

definition RuneError :: nat where "RuneError = 0xFFFD"

text \<open>\<^verbatim>\<open>utf8.DecodeRune\<close>: the rune and its width; ill-formed input is \<^verbatim>\<open>RuneError\<close> of width one.\<close>

fun DecodeRune :: "string \<Rightarrow> nat \<times> nat" where
  "DecodeRune [] = (RuneError, 0)"
| "DecodeRune (c # cs) =
     (let b = ord c in
      if b < 0x80 then (b, 1)
      else case cs of
        [] \<Rightarrow> (RuneError, 1)
      | c1 # cs1 \<Rightarrow>
          let b1 = ord c1 in
          if 0xC2 \<le> b \<and> b \<le> 0xDF then
            (if cont_byte c1 then ((b - 0xC0) * 64 + (b1 - 0x80), 2) else (RuneError, 1))
          else case cs1 of
            [] \<Rightarrow> (RuneError, 1)
          | c2 # cs2 \<Rightarrow>
              let b2 = ord c2 in
              if 0xE0 \<le> b \<and> b \<le> 0xEF then
                (if (if b = 0xE0 then 0xA0 else 0x80) \<le> b1 \<and> b1 \<le> (if b = 0xED then 0x9F else 0xBF)
                    \<and> cont_byte c2
                 then ((b - 0xE0) * 4096 + (b1 - 0x80) * 64 + (b2 - 0x80), 3) else (RuneError, 1))
              else case cs2 of
                [] \<Rightarrow> (RuneError, 1)
              | c3 # _ \<Rightarrow>
                  if 0xF0 \<le> b \<and> b \<le> 0xF4 \<and> (if b = 0xF0 then 0x90 else 0x80) \<le> b1
                     \<and> b1 \<le> (if b = 0xF4 then 0x8F else 0xBF) \<and> cont_byte c2 \<and> cont_byte c3
                  then ((b - 0xF0) * 262144 + (b1 - 0x80) * 4096 + (b2 - 0x80) * 64 + (ord c3 - 0x80), 4)
                  else (RuneError, 1))"

definition EncodeRune :: "nat \<Rightarrow> string" where
  "EncodeRune r =
     map char_of
       (if r < 0x80 then [r]
        else if r < 0x800 then [0xC0 + r div 64, 0x80 + r mod 64]
        else if r < 0x10000 then [0xE0 + r div 4096, 0x80 + r div 64 mod 64, 0x80 + r mod 64]
        else [0xF0 + r div 262144, 0x80 + r div 4096 mod 64, 0x80 + r div 64 mod 64, 0x80 + r mod 64])"

section \<open>Strings\<close>

definition hex_char :: "nat \<Rightarrow> char" where
  "hex_char d = char_of (if d < 10 then 48 + d else 87 + d)"

definition hex_val :: "char \<Rightarrow> nat option" where
  "hex_val c =
     (let b = ord c in
      if 48 \<le> b \<and> b \<le> 57 then Some (b - 48)
      else if 97 \<le> b \<and> b \<le> 102 then Some (b - 87)
      else if 65 \<le> b \<and> b \<le> 70 then Some (b - 55)
      else None)"

text \<open>The encoder's escapes for a byte below 128, with HTML escaping on as in \<^verbatim>\<open>json.Marshal\<close>.\<close>

definition quote_ascii :: "char \<Rightarrow> string" where
  "quote_ascii c =
     (let b = ord c in
      if b = 0x22 \<or> b = 0x5C then [CHR 0x5C, c]
      else if b = 8 then [CHR 0x5C, CHR ''b'']
      else if b = 12 then [CHR 0x5C, CHR ''f'']
      else if b = 10 then [CHR 0x5C, CHR ''n'']
      else if b = 13 then [CHR 0x5C, CHR ''r'']
      else if b = 9 then [CHR 0x5C, CHR ''t'']
      else if b < 0x20 \<or> c = CHR ''<'' \<or> c = CHR ''>'' \<or> c = CHR ''&''
      then [CHR 0x5C, CHR ''u'', CHR ''0'', CHR ''0'', hex_char (b div 16), hex_char (b mod 16)]
      else [c])"

function quote_body :: "string \<Rightarrow> string" where
  "quote_body s =
     (case s of
        [] \<Rightarrow> []
      | c # cs \<Rightarrow>
          if ord c < 0x80 then quote_ascii c @ quote_body cs
          else case DecodeRune s of (r, w) \<Rightarrow>
            if r = RuneError \<and> w = 1 then CHR 0x5C # ''ufffd'' @ quote_body cs
            else if r = 0x2028 \<or> r = 0x2029 then CHR 0x5C # ''u202'' @ hex_char (r mod 16) # quote_body (drop (w - 1) cs)
            else take w s @ quote_body (drop (w - 1) cs))"
  by pat_completeness auto
termination
  by (relation "measure length") auto

declare quote_body.simps [simp del]

definition quote :: "string \<Rightarrow> string" where
  "quote s = CHR 0x22 # quote_body s @ [CHR 0x22]"

definition hex4 :: "string \<Rightarrow> (nat \<times> string) option" where
  "hex4 s =
     (case s of
        a # b # c # d # r \<Rightarrow>
          (case (hex_val a, hex_val b, hex_val c, hex_val d) of
             (Some w, Some x, Some y, Some z) \<Rightarrow> Some (4096 * w + 256 * x + 16 * y + z, r)
           | _ \<Rightarrow> None)
      | _ \<Rightarrow> None)"

text \<open>A \<^verbatim>\<open>\u\<close> escape, with the second half of a surrogate pair when there is one.\<close>

definition unquote_u :: "string \<Rightarrow> (string \<times> string) option" where
  "unquote_u s =
     (case hex4 s of
        None \<Rightarrow> None
      | Some (h, r) \<Rightarrow>
          if \<not> (0xD800 \<le> h \<and> h < 0xE000) then Some (EncodeRune h, r)
          else if h < 0xDC00 \<and> take 2 r = [CHR 0x5C, CHR ''u''] then
            (case hex4 (drop 2 r) of
               Some (l, r') \<Rightarrow>
                 if 0xDC00 \<le> l \<and> l < 0xE000
                 then Some (EncodeRune ((h - 0xD800) * 1024 + (l - 0xDC00) + 0x10000), r')
                 else Some (EncodeRune RuneError, r)
             | None \<Rightarrow> Some (EncodeRune RuneError, r))
          else Some (EncodeRune RuneError, r))"

definition simple_escape :: "char \<Rightarrow> char option" where
  "simple_escape e =
     (if e = CHR 0x22 \<or> e = CHR 0x5C \<or> e = CHR ''/'' then Some e
      else if e = CHR ''b'' then Some (CHR 8)
      else if e = CHR ''f'' then Some (CHR 12)
      else if e = CHR ''n'' then Some (CHR 10)
      else if e = CHR ''r'' then Some (CHR 13)
      else if e = CHR ''t'' then Some (CHR 9)
      else None)"

lemma hex4_length: "hex4 s = Some (h, r) \<Longrightarrow> length r < length s"
  by (auto simp: hex4_def split: list.splits option.splits)

lemma unquote_u_length: "unquote_u s = Some (x, r) \<Longrightarrow> length r < length s"
  by (auto simp: unquote_u_def split: option.splits if_splits dest!: hex4_length)

text \<open>The body of a string literal after its opening quote, and the input after the closing one.\<close>

function unquote_body :: "string \<Rightarrow> (string \<times> string) option" where
  "unquote_body s =
     (case s of
        [] \<Rightarrow> None
      | c # cs \<Rightarrow>
          if c = CHR 0x22 then Some ([], cs)
          else if c = CHR 0x5C then
            (case cs of
               [] \<Rightarrow> None
             | e # es \<Rightarrow>
                 if e = CHR ''u'' then
                   (case unquote_u es of
                      None \<Rightarrow> None
                    | Some (x, r) \<Rightarrow> map_option (\<lambda>(y, r'). (x @ y, r')) (unquote_body r))
                 else
                   (case simple_escape e of
                      None \<Rightarrow> None
                    | Some x \<Rightarrow> map_option (\<lambda>(y, r'). (x # y, r')) (unquote_body es)))
          else if ord c < 0x20 then None
          else if ord c < 0x80 then map_option (\<lambda>(y, r'). (c # y, r')) (unquote_body cs)
          else
            (case DecodeRune s of (r, w) \<Rightarrow>
               map_option (\<lambda>(y, r'). (EncodeRune r @ y, r')) (unquote_body (drop (w - 1) cs))))"
  by pat_completeness auto
termination
  by (relation "measure length") (auto dest!: unquote_u_length)

declare unquote_body.simps [simp del]

lemma unquote_body_length: "unquote_body s = Some (x, r) \<Longrightarrow> length r < length s"
proof (induction s arbitrary: x r rule: unquote_body.induct)
  case (1 s)
  show ?case
  proof (cases s)
    case Nil
    with "1.prems" show ?thesis by (subst (asm) unquote_body.simps) simp
  next
    case (Cons c cs)
    with "1.prems" "1.IH" show ?thesis
      by (subst (asm) unquote_body.simps)
        (fastforce split: if_splits list.splits option.splits prod.splits dest!: unquote_u_length)
  qed
qed

section \<open>The grammar\<close>

definition is_ws :: "char \<Rightarrow> bool" where
  "is_ws c = (c = CHR '' '' \<or> c = CHR 9 \<or> c = CHR 10 \<or> c = CHR 13)"

definition skip_ws :: "string \<Rightarrow> string" where
  "skip_ws s = dropWhile is_ws s"

definition scan_int :: "string \<Rightarrow> (string \<times> string) option" where
  "scan_int s =
     (case s of
        [] \<Rightarrow> None
      | c # cs \<Rightarrow>
          if c = CHR ''0'' then Some ([c], cs)
          else if is_digit c then Some (takeWhile is_digit s, dropWhile is_digit s)
          else None)"

definition scan_frac :: "string \<Rightarrow> (string \<times> string) option" where
  "scan_frac s =
     (case s of
        [] \<Rightarrow> Some ([], s)
      | c # cs \<Rightarrow>
          if c \<noteq> CHR ''.'' then Some ([], s)
          else if takeWhile is_digit cs = [] then None
          else Some (c # takeWhile is_digit cs, dropWhile is_digit cs))"

definition scan_exp :: "string \<Rightarrow> (string \<times> string) option" where
  "scan_exp s =
     (case s of
        [] \<Rightarrow> Some ([], s)
      | c # cs \<Rightarrow>
          if c \<noteq> CHR ''e'' \<and> c \<noteq> CHR ''E'' then Some ([], s)
          else
            (let (sg, ds) = (case cs of
                 x # xs \<Rightarrow> if x = CHR ''+'' \<or> x = CHR ''-'' then ([x], xs) else ([], cs)
               | [] \<Rightarrow> ([], []))
             in if takeWhile is_digit ds = [] then None
                else Some (c # sg @ takeWhile is_digit ds, dropWhile is_digit ds)))"

definition scan_number :: "string \<Rightarrow> (string \<times> string) option" where
  "scan_number s =
     (let (sg, s0) = (case s of c # cs \<Rightarrow> if c = CHR ''-'' then ([c], cs) else ([], s) | [] \<Rightarrow> ([], []))
      in case scan_int s0 of
           None \<Rightarrow> None
         | Some (a, r1) \<Rightarrow>
             (case scan_frac r1 of
                None \<Rightarrow> None
              | Some (b, r2) \<Rightarrow>
                  (case scan_exp r2 of None \<Rightarrow> None | Some (c, r3) \<Rightarrow> Some (sg @ a @ b @ c, r3))))"

definition scan_literal :: "string \<Rightarrow> (json \<times> string) option" where
  "scan_literal s =
     (if take 4 s = ''null'' then Some (JNull, drop 4 s)
      else if take 4 s = ''true'' then Some (JBool True, drop 4 s)
      else if take 5 s = ''false'' then Some (JBool False, drop 5 s)
      else None)"

lemma skip_ws_length: "skip_ws s = c # r \<Longrightarrow> length r < length s"
  using length_dropWhile_le [of is_ws s] by (simp add: skip_ws_def)

text \<open>
  Values, array elements and object members. The first argument is how many more levels of nesting
  are allowed; the scanner allows 10000. The test that the rest has become shorter always succeeds and
  only serves the termination proof.
\<close>

function (sequential)
  json_value :: "nat \<Rightarrow> string \<Rightarrow> (json \<times> string) option"
  and json_elems :: "nat \<Rightarrow> string \<Rightarrow> (json list \<times> string) option"
  and json_members :: "nat \<Rightarrow> string \<Rightarrow> ((string \<times> json) list \<times> string) option"
where
  "json_value d s =
     (case skip_ws s of
        [] \<Rightarrow> None
      | c # r \<Rightarrow>
          if c = CHR 0x22 then map_option (\<lambda>(x, r'). (JStr x, r')) (unquote_body r)
          else if c = CHR 0x7B then
            (if d = 0 then None
             else case skip_ws r of
               [] \<Rightarrow> None
             | c' # r' \<Rightarrow>
                 if c' = CHR 0x7D then Some (JObj [], r')
                 else map_option (\<lambda>(ms, r''). (JObj ms, r'')) (json_members (d - 1) r))
          else if c = CHR 0x5B then
            (if d = 0 then None
             else case skip_ws r of
               [] \<Rightarrow> None
             | c' # r' \<Rightarrow>
                 if c' = CHR 0x5D then Some (JArr [], r')
                 else map_option (\<lambda>(vs, r''). (JArr vs, r'')) (json_elems (d - 1) r))
          else if c = CHR ''-'' \<or> is_digit c then map_option (\<lambda>(x, r'). (JNum x, r')) (scan_number (c # r))
          else scan_literal (c # r))"
| "json_elems d s =
     (case json_value d s of
        None \<Rightarrow> None
      | Some (v, r) \<Rightarrow>
          (case skip_ws r of
             [] \<Rightarrow> None
           | c # r' \<Rightarrow>
               if c = CHR 0x5D then Some ([v], r')
               else if c = CHR '','' \<and> length r' < length s then
                 map_option (\<lambda>(vs, r''). (v # vs, r'')) (json_elems d r')
               else None))"
| "json_members d s =
     (case skip_ws s of
        [] \<Rightarrow> None
      | c # r \<Rightarrow>
          if c \<noteq> CHR 0x22 then None
          else case unquote_body r of
            None \<Rightarrow> None
          | Some (k, r1) \<Rightarrow>
              (case skip_ws r1 of
                 [] \<Rightarrow> None
               | c2 # r2 \<Rightarrow>
                   if c2 \<noteq> CHR '':'' then None
                   else case json_value d r2 of
                     None \<Rightarrow> None
                   | Some (v, r3) \<Rightarrow>
                       (case skip_ws r3 of
                          [] \<Rightarrow> None
                        | c4 # r4 \<Rightarrow>
                            if c4 = CHR 0x7D then Some ([(k, v)], r4)
                            else if c4 = CHR '','' \<and> length r4 < length s then
                              map_option (\<lambda>(ms, r''). ((k, v) # ms, r'')) (json_members d r4)
                            else None)))"
  by pat_completeness auto
termination
  by (relation "measure (\<lambda>x. case x of Inl (d, s) \<Rightarrow> 2 * length s
        | Inr (Inl (d, s)) \<Rightarrow> 2 * length s + 1 | Inr (Inr (d, s)) \<Rightarrow> 2 * length s + 1)")
    (auto dest!: skip_ws_length unquote_body_length)

declare json_value.simps [simp del] json_elems.simps [simp del] json_members.simps [simp del]

definition maxNestingDepth :: nat where "maxNestingDepth = 10000"

section \<open>Printing\<close>

text \<open>The encoder's compact form.\<close>

fun print_json :: "json \<Rightarrow> string" and print_elems :: "json list \<Rightarrow> string"
  and print_members :: "(string \<times> json) list \<Rightarrow> string" where
  "print_json JNull = ''null''"
| "print_json (JBool b) = (if b then ''true'' else ''false'')"
| "print_json (JNum x) = x"
| "print_json (JStr x) = quote x"
| "print_json (JArr vs) = CHR 0x5B # print_elems vs @ [CHR 0x5D]"
| "print_json (JObj ms) = CHR 0x7B # print_members ms @ [CHR 0x7D]"
| "print_elems [] = []"
| "print_elems [v] = print_json v"
| "print_elems (v # vs) = print_json v @ '','' @ print_elems vs"
| "print_members [] = []"
| "print_members [(k, v)] = quote k @ '':'' @ print_json v"
| "print_members ((k, v) # ms) = quote k @ '':'' @ print_json v @ '','' @ print_members ms"

section \<open>Reading back what was printed\<close>

definition ascii :: "string \<Rightarrow> bool" where
  "ascii s = list_all (\<lambda>c. ord c < 0x80) s"

lemma ascii_simps [simp]: "ascii []" "ascii (c # s) \<longleftrightarrow> ord c < 0x80 \<and> ascii s"
  by (simp_all add: ascii_def)

lemma char_of_ord [simp]: "char_of (ord c) = c"
  by (simp add: ord_def)

lemma hex_val_hex_char: "d < 16 \<Longrightarrow> hex_val (hex_char d) = Some d"
  by (auto simp: hex_val_def hex_char_def ord_def Let_def)

lemma unquote_u_control:
  assumes "ord c < 0x80"
  shows "unquote_u (CHR ''0'' # CHR ''0'' # hex_char (ord c div 16) # hex_char (ord c mod 16) # r) = Some ([c], r)"
proof -
  have "ord c div 16 < 16" "ord c mod 16 < 16" using assms by auto
  moreover have "hex_val (CHR ''0'') = Some 0" by code_simp
  ultimately show ?thesis
    using assms by (simp add: unquote_u_def hex4_def hex_val_hex_char EncodeRune_def)
qed

lemma unquote_escape:
  "simple_escape e = Some x \<Longrightarrow>
   unquote_body (CHR 0x5C # e # r) = map_option (\<lambda>(y, r'). (x # y, r')) (unquote_body r)"
  by (auto simp: unquote_body.simps [of "CHR 0x5C # _"] simple_escape_def)

lemma quote_escapes:
  "quote_ascii (CHR 0x22) = [CHR 0x5C, CHR 0x22]" "quote_ascii (CHR 0x5C) = [CHR 0x5C, CHR 0x5C]"
  "quote_ascii (CHR 8) = [CHR 0x5C, CHR ''b'']" "quote_ascii (CHR 12) = [CHR 0x5C, CHR ''f'']"
  "quote_ascii (CHR 10) = [CHR 0x5C, CHR ''n'']" "quote_ascii (CHR 13) = [CHR 0x5C, CHR ''r'']"
  "quote_ascii (CHR 9) = [CHR 0x5C, CHR ''t'']"
  by code_simp+

lemma simple_escapes:
  "simple_escape (CHR 0x22) = Some (CHR 0x22)" "simple_escape (CHR 0x5C) = Some (CHR 0x5C)"
  "simple_escape (CHR ''b'') = Some (CHR 8)" "simple_escape (CHR ''f'') = Some (CHR 12)"
  "simple_escape (CHR ''n'') = Some (CHR 10)" "simple_escape (CHR ''r'') = Some (CHR 13)"
  "simple_escape (CHR ''t'') = Some (CHR 9)"
  by code_simp+

lemma quote_ascii_escape:
  assumes "ord c \<in> {0x22, 0x5C, 8, 12, 10, 13, 9}"
  obtains e where "quote_ascii c = [CHR 0x5C, e]" "simple_escape e = Some c"
proof -
  have "char_of (ord c) \<in> {CHR 0x22, CHR 0x5C, CHR 8, CHR 12, CHR 10, CHR 13, CHR 9}"
    using assms by (elim insertE emptyE) (simp_all del: char_of_ord add: char_of_def bit_0)
  then have "c \<in> {CHR 0x22, CHR 0x5C, CHR 8, CHR 12, CHR 10, CHR 13, CHR 9}"
    by (simp only: char_of_ord)
  then have "\<exists>e. quote_ascii c = [CHR 0x5C, e] \<and> simple_escape e = Some c"
    by (elim insertE emptyE) (simp_all add: quote_escapes simple_escapes)
  then show ?thesis using that by blast
qed

lemma unquote_quote_ascii:
  assumes "ord c < 0x80"
  shows "unquote_body (quote_ascii c @ r) = map_option (\<lambda>(y, r'). (c # y, r')) (unquote_body r)"
proof (cases "ord c \<in> {0x22, 0x5C, 8, 12, 10, 13, 9}")
  case True
  then obtain e where "quote_ascii c = [CHR 0x5C, e]" "simple_escape e = Some c"
    by (rule quote_ascii_escape)
  then show ?thesis by (simp add: unquote_escape)
next
  case False
  show ?thesis
  proof (cases "ord c < 0x20 \<or> c = CHR ''<'' \<or> c = CHR ''>'' \<or> c = CHR ''&''")
    case True
    with False have q: "quote_ascii c =
        [CHR 0x5C, CHR ''u'', CHR ''0'', CHR ''0'', hex_char (ord c div 16), hex_char (ord c mod 16)]"
      by (simp add: quote_ascii_def Let_def)
    show ?thesis
      unfolding q using assms
      by (simp add: unquote_body.simps [of "CHR 0x5C # _"] unquote_u_control)
  next
    case no_escape: False
    with False have q: "quote_ascii c = [c]" and "c \<noteq> CHR 0x22" "c \<noteq> CHR 0x5C"
      by (auto simp: quote_ascii_def Let_def ord_def)
    with no_escape assms show ?thesis
      by (simp add: unquote_body.simps [of "c # _"])
  qed
qed

lemma quote_body_simps [simp]:
  "quote_body [] = []" "ord c < 0x80 \<Longrightarrow> quote_body (c # s) = quote_ascii c @ quote_body s"
  by (simp_all add: quote_body.simps)

lemma unquote_quote: "ascii x \<Longrightarrow> unquote_body (quote_body x @ CHR 0x22 # r) = Some (x, r)"
  by (induction x) (simp_all add: unquote_quote_ascii unquote_body.simps [of "CHR 0x22 # _"])

text \<open>After a value the printed form continues with a comma, a closing bracket or the end.\<close>

fun delim :: "string \<Rightarrow> bool" where
  "delim [] = True"
| "delim (c # _) = (c = CHR '','' \<or> c = CHR 0x7D \<or> c = CHR 0x5D)"

lemma nat_digits_head: "\<exists>c cs. nat_digits n = c # cs \<and> is_digit c \<and> list_all is_digit cs \<and> (c = CHR ''0'' \<longrightarrow> cs = [])"
proof (induction n rule: nat_digits.induct)
  case (1 n)
  show ?case
  proof (cases "n < 10")
    case True
    then show ?thesis by (subst nat_digits.simps) simp
  next
    case False
    then obtain c cs where IH: "nat_digits (n div 10) = c # cs" "is_digit c" "list_all is_digit cs"
        "c = CHR ''0'' \<longrightarrow> cs = []"
      using 1 by blast
    have "c \<noteq> CHR ''0''"
    proof
      assume "c = CHR ''0''"
      with IH have "nat_digits (n div 10) = [CHR ''0'']" by simp
      with nat_digits_ok [of "n div 10"] have "n div 10 = 0"
        by (simp add: digits_val_def digit_val_def)
      with False show False by simp
    qed
    with IH False show ?thesis
      by (subst nat_digits.simps) simp
  qed
qed

lemma scan_int_digits:
  assumes "delim r"
  shows "scan_int (nat_digits n @ r) = Some (nat_digits n, r)"
proof -
  obtain c cs where c: "nat_digits n = c # cs" "is_digit c" "list_all is_digit cs" "c = CHR ''0'' \<longrightarrow> cs = []"
    using nat_digits_head by blast
  have r: "takeWhile is_digit r = []" "dropWhile is_digit r = r"
    using assms by (cases r; auto simp: is_digit_def)+
  have cs: "\<forall>x\<in>set cs. is_digit x" using c(3) by (simp add: list_all_iff)
  show ?thesis
    using c r cs by (auto simp: scan_int_def takeWhile_append2 dropWhile_append2)
qed

lemma scan_number_Itoa: "delim r \<Longrightarrow> scan_number (Itoa n @ r) = Some (Itoa n, r)"
proof -
  assume r: "delim r"
  have fe: "scan_frac r = Some ([], r)" "scan_exp r = Some ([], r)"
    using r by (cases r; auto simp: scan_frac_def scan_exp_def)+
  obtain c cs where c: "nat_digits (nat n) = c # cs" "is_digit c"
    using nat_digits_head by blast
  then have "c \<noteq> CHR ''-''" by (auto dest: is_digit_not_sign)
  moreover have "scan_int (c # cs @ r) = Some (c # cs, r)"
    using scan_int_digits [OF r, of "nat n"] c by simp
  ultimately show ?thesis
    using c fe scan_int_digits [OF r] by (auto simp: scan_number_def Itoa_def)
qed

text \<open>The values the program prints: ASCII strings, integers, and nesting within the limit.\<close>

fun plain :: "nat \<Rightarrow> json \<Rightarrow> bool" where
  "plain d JNull = True"
| "plain d (JBool b) = True"
| "plain d (JNum x) = (\<exists>n. x = Itoa n)"
| "plain d (JStr x) = ascii x"
| "plain d (JArr vs) = (0 < d \<and> (\<forall>v \<in> set vs. plain (d - 1) v))"
| "plain d (JObj ms) = (0 < d \<and> (\<forall>m \<in> set ms. ascii (fst m) \<and> plain (d - 1) (snd m)))"

lemma Itoa_head: "\<exists>c cs. Itoa n = c # cs \<and> (c = CHR ''-'' \<or> is_digit c)"
proof -
  obtain c cs where "nat_digits (nat n) = c # cs" "is_digit c" using nat_digits_head by blast
  then show ?thesis by (auto simp: Itoa_def)
qed

lemma is_digit_not_special:
  "is_digit c \<Longrightarrow> \<not> is_ws c \<and> c \<noteq> CHR 0x22 \<and> c \<noteq> CHR 0x7B \<and> c \<noteq> CHR 0x5B \<and> c \<noteq> CHR 0x5D \<and> c \<noteq> CHR 0x7D"
  by (auto simp: is_digit_def is_ws_def)

lemma skip_ws_cons [simp]: "\<not> is_ws c \<Longrightarrow> skip_ws (c # s) = c # s"
  by (simp add: skip_ws_def)

lemma not_ws [simp]:
  "\<not> is_ws (CHR 0x22)" "\<not> is_ws (CHR 0x7B)" "\<not> is_ws (CHR 0x7D)" "\<not> is_ws (CHR 0x5B)" "\<not> is_ws (CHR 0x5D)"
  "\<not> is_ws (CHR '','')" "\<not> is_ws (CHR '':'')" "\<not> is_ws (CHR ''-'')" "\<not> is_ws (CHR ''n'')"
  "\<not> is_ws (CHR ''t'')" "\<not> is_ws (CHR ''f'')"
  by (simp_all add: is_ws_def)

text \<open>The first character of a printed value is no space and closes nothing.\<close>

lemma print_json_head:
  "plain d v \<Longrightarrow> \<exists>c cs. print_json v = c # cs \<and> \<not> is_ws c \<and> c \<noteq> CHR 0x5D \<and> c \<noteq> CHR 0x7D"
proof (cases v)
  case (JNum x)
  moreover assume "plain d v"
  ultimately obtain n where "x = Itoa n" by auto
  with JNum Itoa_head [of n] show ?thesis
    by (auto dest: is_digit_not_special)
qed (auto simp: quote_def)

lemma print_elems_cons:
  "print_elems (v # vs) = print_json v @ (if vs = [] then [] else CHR '','' # print_elems vs)"
  by (cases vs) simp_all

lemma print_members_cons:
  "print_members ((k, v) # ms) =
     quote k @ CHR '':'' # print_json v @ (if ms = [] then [] else CHR '','' # print_members ms)"
  by (cases ms) simp_all

lemma json_value_num:
  assumes "delim r"
  shows "json_value d (Itoa n @ r) = Some (JNum (Itoa n), r)"
proof -
  obtain c cs where c: "Itoa n = c # cs" "c = CHR ''-'' \<or> is_digit c"
    using Itoa_head by blast
  then have "\<not> is_ws c \<and> c \<noteq> CHR 0x22 \<and> c \<noteq> CHR 0x7B \<and> c \<noteq> CHR 0x5B"
    by (auto dest: is_digit_not_special)
  with c scan_number_Itoa [OF assms, of n] show ?thesis
    by (simp add: json_value.simps [of d "c # cs @ r"])
qed

lemma json_value_str: "ascii x \<Longrightarrow> json_value d (quote x @ r) = Some (JStr x, r)"
  by (simp add: quote_def json_value.simps [of d "CHR 0x22 # _"] unquote_quote)

text \<open>Lists of elements and members, given that their values read back.\<close>

lemma json_elems_print:
  assumes "\<And>v r. v \<in> set vs \<Longrightarrow> delim r \<Longrightarrow> json_value d (print_json v @ r) = Some (v, r)"
    and "vs \<noteq> []"
  shows "json_elems d (print_elems vs @ CHR 0x5D # r) = Some (vs, r)"
  using assms
proof (induction vs)
  case (Cons v vs)
  show ?case
  proof (cases "vs = []")
    case True
    with Cons.prems(1) [of v "CHR 0x5D # r"] show ?thesis
      by (simp add: json_elems.simps [of d "print_json v @ _"])
  next
    case False
    with Cons have "json_elems d (print_elems vs @ CHR 0x5D # r) = Some (vs, r)" by simp
    with Cons.prems(1) [of v "CHR '','' # print_elems vs @ CHR 0x5D # r"] False show ?thesis
      by (simp add: json_elems.simps [of d "print_json v @ _"] print_elems_cons)
  qed
qed simp

lemma json_members_print:
  assumes "\<And>k v r. (k, v) \<in> set ms \<Longrightarrow> delim r \<Longrightarrow> json_value d (print_json v @ r) = Some (v, r)"
    and "\<And>k v. (k, v) \<in> set ms \<Longrightarrow> ascii k" and "ms \<noteq> []"
  shows "json_members d (print_members ms @ CHR 0x7D # r) = Some (ms, r)"
  using assms
proof (induction ms)
  case (Cons m ms)
  obtain k v where m: "m = (k, v)" by fastforce
  have k: "unquote_body (quote_body k @ CHR 0x22 # r') = Some (k, r')" for r'
    using Cons.prems(2) [of k v] m by (intro unquote_quote) simp
  have v: "json_value d (print_json v @ r') = Some (v, r')" if "delim r'" for r'
    using Cons.prems(1) [of k v] m that by simp
  show ?case
  proof (cases "ms = []")
    case True
    with k v [of "CHR 0x7D # r"] m show ?thesis
      by (simp add: json_members.simps [of d "CHR 0x22 # _"] quote_def)
  next
    case False
    then have "json_members d (print_members ms @ CHR 0x7D # r) = Some (ms, r)"
      using Cons.prems(1,2) by (intro Cons.IH) (meson list.set_intros(2))+
    with k v [of "CHR '','' # print_members ms @ CHR 0x7D # r"] m False show ?thesis
      by (simp add: json_members.simps [of d "CHR 0x22 # _"] print_members_cons quote_def)
  qed
qed simp

theorem json_value_print:
  "plain d v \<Longrightarrow> delim r \<Longrightarrow> json_value d (print_json v @ r) = Some (v, r)"
proof (induction d v arbitrary: r rule: plain.induct)
  case (1 d)
  then show ?case by (simp add: json_value.simps [of d "CHR ''n'' # _"] scan_literal_def is_digit_def)
next
  case (2 d b)
  then show ?case
    by (simp add: json_value.simps [of d "CHR ''t'' # _"] json_value.simps [of d "CHR ''f'' # _"]
        scan_literal_def is_digit_def)
next
  case (3 d x)
  then show ?case by (auto simp: json_value_num)
next
  case (4 d x)
  then show ?case by (simp add: json_value_str)
next
  case (5 d vs)
  show ?case
  proof (cases vs)
    case Nil
    with 5 show ?thesis by (simp add: json_value.simps [of d "CHR 0x5B # _"])
  next
    case (Cons v vs')
    with "5.prems" obtain c cs where "print_json v = c # cs" "\<not> is_ws c" "c \<noteq> CHR 0x5D"
      using print_json_head [of "d - 1" v] by auto
    moreover have "json_elems (d - 1) (print_elems vs @ CHR 0x5D # r) = Some (vs, r)"
      using 5 Cons by (intro json_elems_print) auto
    ultimately show ?thesis
      using "5.prems" Cons by (simp add: json_value.simps [of d "CHR 0x5B # _"] print_elems_cons)
  qed
next
  case (6 d ms)
  show ?case
  proof (cases ms)
    case Nil
    with 6 show ?thesis by (simp add: json_value.simps [of d "CHR 0x7B # _"])
  next
    case (Cons m ms')
    obtain k v where m: "m = (k, v)" by fastforce
    have "json_members (d - 1) (print_members ms @ CHR 0x7D # r) = Some (ms, r)"
      using 6 Cons by (intro json_members_print) fastforce+
    then show ?thesis
      using "6.prems" Cons m
      by (simp add: json_value.simps [of d "CHR 0x7B # _"] print_members_cons quote_def)
  qed
qed

section \<open>Decoding into structs\<close>

text \<open>
  Field names match exactly or after folding: ASCII letters to upper case and the two runes whose
  simple case folding is an ASCII letter, the long s and the Kelvin sign. No other rune folds to an
  ASCII character, and every field name of the program is ASCII.
\<close>

fun fold_name :: "string \<Rightarrow> string" where
  "fold_name [] = []"
| "fold_name (c # cs) =
     (if 97 \<le> ord c \<and> ord c \<le> 122 then char_of (ord c - 32) # fold_name cs
      else if ord c = 0xC5 \<and> cs \<noteq> [] \<and> ord (hd cs) = 0xBF then CHR ''S'' # fold_name (tl cs)
      else if ord c = 0xE2 \<and> 2 \<le> length cs \<and> ord (cs ! 0) = 0x84 \<and> ord (cs ! 1) = 0xAA
           then CHR ''K'' # fold_name (drop 2 cs)
      else c # fold_name cs)"

text \<open>
  A struct type is a list of fields, each with the function that stores a value into it; the flag
  reports a value of the wrong type.
\<close>

type_synonym 's field = "string \<times> (json \<Rightarrow> 's \<Rightarrow> 's \<times> bool)"

definition find_field :: "'s field list \<Rightarrow> string \<Rightarrow> (json \<Rightarrow> 's \<Rightarrow> 's \<times> bool) option" where
  "find_field fs k =
     (case map_of fs k of
        Some f \<Rightarrow> Some f
      | None \<Rightarrow> map_of (map (\<lambda>(n, f). (fold_name n, f)) fs) (fold_name k))"

definition store_member :: "'s field list \<Rightarrow> 's \<times> bool \<Rightarrow> string \<times> json \<Rightarrow> 's \<times> bool" where
  "store_member fs st m =
     (case find_field fs (fst m) of
        None \<Rightarrow> st
      | Some f \<Rightarrow> (case f (snd m) (fst st) of (s', bad) \<Rightarrow> (s', snd st \<or> bad)))"

fun decode_struct :: "'s field list \<Rightarrow> json \<Rightarrow> 's \<Rightarrow> 's \<times> bool" where
  "decode_struct fs (JObj ms) s = foldl (store_member fs) (s, False) ms"
| "decode_struct fs JNull s = (s, False)"
| "decode_struct fs _ s = (s, True)"

fun store_string :: "(string \<Rightarrow> 's \<Rightarrow> 's) \<Rightarrow> json \<Rightarrow> 's \<Rightarrow> 's \<times> bool" where
  "store_string upd (JStr x) s = (upd x s, False)"
| "store_string upd JNull s = (s, False)"
| "store_string upd _ s = (s, True)"

fun store_int :: "(int \<Rightarrow> 's \<Rightarrow> 's) \<Rightarrow> json \<Rightarrow> 's \<Rightarrow> 's \<times> bool" where
  "store_int upd (JNum x) s = (case Atoi x of Some n \<Rightarrow> (upd n s, False) | None \<Rightarrow> (s, True))"
| "store_int upd JNull s = (s, False)"
| "store_int upd _ s = (s, True)"

text \<open>A pointer to a struct: \<^verbatim>\<open>null\<close> clears it, an object is decoded into the struct it points to.\<close>

definition store_pointer ::
  "'p field list \<Rightarrow> 'p \<Rightarrow> ('s \<Rightarrow> 'p option) \<Rightarrow> ('p option \<Rightarrow> 's \<Rightarrow> 's) \<Rightarrow> json \<Rightarrow> 's \<Rightarrow> 's \<times> bool" where
  "store_pointer fs zero get upd v s =
     (if v = JNull then (upd None s, False)
      else case decode_struct fs v (case get s of Some p \<Rightarrow> p | None \<Rightarrow> zero) of
        (p, bad) \<Rightarrow> (upd (Some p) s, bad))"

datatype json_error = SyntaxError | UnmarshalTypeError

text \<open>\<^verbatim>\<open>json.Unmarshal\<close> wants one value and nothing after it; \<^verbatim>\<open>Decoder.Decode\<close> reads the first value.\<close>

definition Decode :: "'s field list \<Rightarrow> 's \<Rightarrow> string \<Rightarrow> json_error + 's" where
  "Decode fs zero text =
     (case json_value maxNestingDepth text of
        None \<Rightarrow> Inl SyntaxError
      | Some (v, r) \<Rightarrow>
          (case decode_struct fs v zero of (s, bad) \<Rightarrow> if bad then Inl UnmarshalTypeError else Inr s))"

definition Unmarshal :: "'s field list \<Rightarrow> 's \<Rightarrow> string \<Rightarrow> json_error + 's" where
  "Unmarshal fs zero text =
     (case json_value maxNestingDepth text of
        None \<Rightarrow> Inl SyntaxError
      | Some (v, r) \<Rightarrow>
          if skip_ws r \<noteq> [] then Inl SyntaxError
          else (case decode_struct fs v zero of (s, bad) \<Rightarrow> if bad then Inl UnmarshalTypeError else Inr s))"

lemma Unmarshal_print:
  assumes "plain maxNestingDepth v" and "decode_struct fs v zero = (s, False)"
  shows "Unmarshal fs zero (print_json v) = Inr s"
  using json_value_print [OF assms(1), of "[]"] assms(2) by (simp add: Unmarshal_def skip_ws_def)

lemma Decode_print:
  assumes "plain maxNestingDepth v" and "decode_struct fs v zero = (s, False)"
  shows "Decode fs zero (print_json v) = Inr s"
  using json_value_print [OF assms(1), of "[]"] assms(2) by (simp add: Decode_def)

section \<open>Types of decoded values\<close>

text \<open>
  Decoding respects a type: if the zero value of a struct belongs to it and every field stores only values of it,
  then so does every decoded struct, whatever the document.
\<close>

locale typed_struct =
  fixes fs :: "'s field list" and typed :: "'s \<Rightarrow> bool" and zero :: 's
  assumes zero_typed: "typed zero"
    and field_typed: "(k, f) \<in> set fs \<Longrightarrow> typed s \<Longrightarrow> typed (fst (f v s))"
begin

lemma find_field_typed: "find_field fs k = Some f \<Longrightarrow> typed s \<Longrightarrow> typed (fst (f v s))"
  by (auto simp: find_field_def field_typed dest!: map_of_SomeD split: option.splits)

lemma store_member_typed: "typed (fst st) \<Longrightarrow> typed (fst (store_member fs st m))"
  using find_field_typed [of "fst m" _ "fst st" "snd m"]
  by (auto simp: store_member_def split: option.splits prod.splits)

lemma decode_struct_typed: "typed s \<Longrightarrow> typed (fst (decode_struct fs v s))"
proof (cases v)
  case (JObj ms)
  have "typed (fst st) \<Longrightarrow> typed (fst (foldl (store_member fs) st ms))" for st
    by (induction ms arbitrary: st) (simp_all add: store_member_typed)
  then show "typed s \<Longrightarrow> ?thesis" by (simp add: JObj)
qed simp_all

lemma Decode_typed: "Decode fs zero bs = Inr s \<Longrightarrow> typed s"
proof -
  assume "Decode fs zero bs = Inr s"
  then obtain v where "decode_struct fs v zero = (s, False)"
    by (auto simp: Decode_def split: option.splits prod.splits if_splits)
  with decode_struct_typed [OF zero_typed, of v] show ?thesis by simp
qed

lemma Unmarshal_typed: "Unmarshal fs zero bs = Inr s \<Longrightarrow> typed s"
proof -
  assume "Unmarshal fs zero bs = Inr s"
  then obtain v where "decode_struct fs v zero = (s, False)"
    by (auto simp: Unmarshal_def split: option.splits prod.splits if_splits)
  with decode_struct_typed [OF zero_typed, of v] show ?thesis by simp
qed

lemma store_pointer_typed:
  assumes "\<forall>p. get s = Some p \<longrightarrow> typed p"
  shows "\<exists>p bad. store_pointer fs zero get upd v s = (upd p s, bad) \<and> (\<forall>q. p = Some q \<longrightarrow> typed q)"
proof -
  have "typed (case get s of Some p \<Rightarrow> p | None \<Rightarrow> zero)" using assms zero_typed by (simp split: option.splits)
  from decode_struct_typed [OF this, of v] show ?thesis
    by (auto simp: store_pointer_def split: prod.splits)
qed

end

text \<open>A Go \<^verbatim>\<open>int\<close> has 64 bits.\<close>

definition int64 :: "int \<Rightarrow> bool" where
  "int64 n \<longleftrightarrow> - (2 ^ 63) \<le> n \<and> n < 2 ^ 63"

lemma Atoi_int64: "Atoi x = Some n \<Longrightarrow> int64 n"
  by (auto simp: Atoi_def int64_def Let_def split: prod.splits if_splits)

lemma store_int_keeps: "P s \<Longrightarrow> (\<And>n. int64 n \<Longrightarrow> P (upd n s)) \<Longrightarrow> P (fst (store_int upd v s))"
  by (cases v) (auto simp: Atoi_int64 split: option.splits)

lemma store_string_keeps: "P s \<Longrightarrow> (\<And>x. P (upd x s)) \<Longrightarrow> P (fst (store_string upd v s))"
  by (cases v) auto

end
