(* ===== verification/Config.thy ===== *)
theory Config
  imports Proto Go_Json
begin

text \<open>
  Package \<^verbatim>\<open>config\<close>, file \<^verbatim>\<open>internal/config/config.go\<close>: the configuration structs, their JSON decoding,
  defaults and validation. Validation functions return the error, or \<open>None\<close> for \<^verbatim>\<open>nil\<close>.
\<close>

section \<open>KCP parameters\<close>

definition minTokenLength :: nat where "minTokenLength = 16"

record KCP =
  NoDelay :: int
  Interval :: int
  Resend :: int
  NoCongestion :: int
  SndWnd :: int
  RcvWnd :: int
  DataShards :: int
  ParityShards :: int

definition DefaultKCP :: KCP where
  "DefaultKCP = \<lparr>NoDelay = 1, Interval = 20, Resend = 2, NoCongestion = 1,
                 SndWnd = 4096, RcvWnd = 4096, DataShards = 10, ParityShards = 3\<rparr>"

text \<open>One constructor per error message of the package.\<close>

datatype config_error =
    OpenConfig io_error
  | ParseConfig json_error
  | UnsupportedProtocol proto_error
  | BadPort string string
  | NotHostPort string string addr_error
  | MissingHost string string
  | PortsMustDiffer name
  | TokenTooShort
  | TLSPathsRequired name
  | SNIRequired name
  | EmptyRemoteHost
  | KCPInterval int
  | KCPWindows int int
  | KCPShards
  | NilDereference
  | InvalidServerConfig string config_error
  | InvalidClientConfig string config_error

definition KCP_Validate :: "KCP \<Rightarrow> config_error option" where
  "KCP_Validate k =
     (if Interval k \<le> 0 then Some (KCPInterval (Interval k))
      else if SndWnd k \<le> 0 \<or> RcvWnd k \<le> 0 then Some (KCPWindows (SndWnd k) (RcvWnd k))
      else if DataShards k < 0 \<or> ParityShards k < 0 then Some KCPShards
      else None)"

section \<open>The configuration structs\<close>

record Server =
  srv_ControlPort :: string
  srv_DataPort :: string
  srv_Protocol :: name
  srv_TargetAddress :: string
  srv_Token :: string
  srv_TLSCertPath :: string
  srv_TLSKeyPath :: string
  srv_StealthHandshakeServer :: string
  srv_KCP :: "KCP option"

record Client =
  cli_ControlAddress :: string
  cli_RemoteHost :: string
  cli_ListenAddress :: string
  cli_Token :: string
  cli_Protocol :: name
  cli_DataPort :: string
  cli_StealthSNI :: string
  cli_StealthCAFile :: string
  cli_TLSCertPath :: string

text \<open>The JSON keys of the struct tags, and the zero values \<^verbatim>\<open>var cfg T\<close>.\<close>

definition KCP_zero :: KCP where
  "KCP_zero = \<lparr>NoDelay = 0, Interval = 0, Resend = 0, NoCongestion = 0,
               SndWnd = 0, RcvWnd = 0, DataShards = 0, ParityShards = 0\<rparr>"

definition KCPFields :: "KCP field list" where
  "KCPFields =
    [(''NoDelay'', store_int (\<lambda>n k. k\<lparr>NoDelay := n\<rparr>)),
     (''Interval'', store_int (\<lambda>n k. k\<lparr>Interval := n\<rparr>)),
     (''Resend'', store_int (\<lambda>n k. k\<lparr>Resend := n\<rparr>)),
     (''NoCongestion'', store_int (\<lambda>n k. k\<lparr>NoCongestion := n\<rparr>)),
     (''SndWnd'', store_int (\<lambda>n k. k\<lparr>SndWnd := n\<rparr>)),
     (''RcvWnd'', store_int (\<lambda>n k. k\<lparr>RcvWnd := n\<rparr>)),
     (''DataShards'', store_int (\<lambda>n k. k\<lparr>DataShards := n\<rparr>)),
     (''ParityShards'', store_int (\<lambda>n k. k\<lparr>ParityShards := n\<rparr>))]"

definition Server_zero :: Server where
  "Server_zero = \<lparr>srv_ControlPort = [], srv_DataPort = [], srv_Protocol = [], srv_TargetAddress = [],
     srv_Token = [], srv_TLSCertPath = [], srv_TLSKeyPath = [], srv_StealthHandshakeServer = [],
     srv_KCP = None\<rparr>"

definition ServerFields :: "Server field list" where
  "ServerFields =
    [(''control_port'', store_string (\<lambda>x s. s\<lparr>srv_ControlPort := x\<rparr>)),
     (''data_port'', store_string (\<lambda>x s. s\<lparr>srv_DataPort := x\<rparr>)),
     (''protocol'', store_string (\<lambda>x s. s\<lparr>srv_Protocol := x\<rparr>)),
     (''xray_inbound_address'', store_string (\<lambda>x s. s\<lparr>srv_TargetAddress := x\<rparr>)),
     (''token'', store_string (\<lambda>x s. s\<lparr>srv_Token := x\<rparr>)),
     (''tls_cert_path'', store_string (\<lambda>x s. s\<lparr>srv_TLSCertPath := x\<rparr>)),
     (''tls_key_path'', store_string (\<lambda>x s. s\<lparr>srv_TLSKeyPath := x\<rparr>)),
     (''stealth_handshake_server'', store_string (\<lambda>x s. s\<lparr>srv_StealthHandshakeServer := x\<rparr>)),
     (''kcp_config'', store_pointer KCPFields KCP_zero srv_KCP (\<lambda>p s. s\<lparr>srv_KCP := p\<rparr>))]"

definition Client_zero :: Client where
  "Client_zero = \<lparr>cli_ControlAddress = [], cli_RemoteHost = [], cli_ListenAddress = [], cli_Token = [],
     cli_Protocol = [], cli_DataPort = [], cli_StealthSNI = [], cli_StealthCAFile = [],
     cli_TLSCertPath = []\<rparr>"

definition ClientFields :: "Client field list" where
  "ClientFields =
    [(''control_server_address'', store_string (\<lambda>x s. s\<lparr>cli_ControlAddress := x\<rparr>)),
     (''remote_server_ip'', store_string (\<lambda>x s. s\<lparr>cli_RemoteHost := x\<rparr>)),
     (''local_listen_port'', store_string (\<lambda>x s. s\<lparr>cli_ListenAddress := x\<rparr>)),
     (''token'', store_string (\<lambda>x s. s\<lparr>cli_Token := x\<rparr>)),
     (''protocol'', store_string (\<lambda>x s. s\<lparr>cli_Protocol := x\<rparr>)),
     (''data_port'', store_string (\<lambda>x s. s\<lparr>cli_DataPort := x\<rparr>)),
     (''stealth_sni'', store_string (\<lambda>x s. s\<lparr>cli_StealthSNI := x\<rparr>)),
     (''stealth_ca_file'', store_string (\<lambda>x s. s\<lparr>cli_StealthCAFile := x\<rparr>)),
     (''tls_cert_path'', store_string (\<lambda>x s. s\<lparr>cli_TLSCertPath := x\<rparr>))]"

section \<open>Validation\<close>

definition validateToken :: "string \<Rightarrow> config_error option" where
  "validateToken token = (if length token < minTokenLength then Some TokenTooShort else None)"

definition validatePort :: "string \<Rightarrow> string \<Rightarrow> config_error option" where
  "validatePort field port =
     (case Atoi port of
        None \<Rightarrow> Some (BadPort field port)
      | Some n \<Rightarrow> if n < 1 \<or> n > 65535 then Some (BadPort field port) else None)"

definition validateHostPort :: "string \<Rightarrow> string \<Rightarrow> config_error option" where
  "validateHostPort field addr =
     (case SplitHostPort addr of
        Inl e \<Rightarrow> Some (NotHostPort field addr e)
      | Inr (host, port) \<Rightarrow>
          if host = [] \<and> field \<noteq> ''local_listen_port'' then Some (MissingHost field addr)
          else validatePort field port)"

text \<open>The first error of a sequence of checks, as the early returns of the code give it.\<close>

fun first_error :: "'e option list \<Rightarrow> 'e option" where
  "first_error [] = None"
| "first_error (None # r) = first_error r"
| "first_error (Some e # r) = Some e"

definition check_protocol :: "name \<Rightarrow> config_error option" where
  "check_protocol p = (case Parse p of Inl e \<Rightarrow> Some (UnsupportedProtocol e) | Inr n \<Rightarrow> None)"

definition Server_validate :: "Server \<Rightarrow> config_error option" where
  "Server_validate c =
     first_error
      [check_protocol (srv_Protocol c),
       validatePort ''data_port'' (srv_DataPort c),
       (if srv_Protocol c = Stealth
        then validateHostPort ''stealth_handshake_server'' (srv_StealthHandshakeServer c)
        else validatePort ''control_port'' (srv_ControlPort c)),
       (if srv_ControlPort c = srv_DataPort c \<and> \<not> UDPBased (srv_Protocol c)
        then Some (PortsMustDiffer (srv_Protocol c)) else None),
       validateHostPort ''xray_inbound_address'' (srv_TargetAddress c),
       validateToken (srv_Token c),
       (if TLS (srv_Protocol c) \<and> (srv_TLSCertPath c = [] \<or> srv_TLSKeyPath c = [])
        then Some (TLSPathsRequired (srv_Protocol c)) else None),
       (case srv_KCP c of None \<Rightarrow> Some NilDereference | Some k \<Rightarrow> KCP_Validate k)]"

definition Client_validate :: "Client \<Rightarrow> config_error option" where
  "Client_validate c =
     first_error
      [(if cli_Protocol c \<noteq> [] then
          first_error
           [check_protocol (cli_Protocol c),
            validatePort ''data_port'' (cli_DataPort c),
            (if cli_Protocol c = Stealth \<and> cli_StealthSNI c = []
             then Some (SNIRequired (cli_Protocol c)) else None)]
        else validateHostPort ''control_server_address'' (cli_ControlAddress c)),
       (if cli_RemoteHost c = [] then Some EmptyRemoteHost else None),
       validateHostPort ''local_listen_port'' (cli_ListenAddress c),
       validateToken (cli_Token c)]"

section \<open>Loading\<close>

text \<open>The file system is what \<^verbatim>\<open>os.Open\<close> finds at a path: an error, or the bytes of a file.\<close>

type_synonym files = "string \<Rightarrow> io_error + bytes"

definition load :: "files \<Rightarrow> string \<Rightarrow> 's field list \<Rightarrow> 's \<Rightarrow> config_error + 's" where
  "load fs path flds zero =
     (case fs path of
        Inl e \<Rightarrow> Inl (OpenConfig e)
      | Inr bs \<Rightarrow>
          (case Decode flds zero (string_of bs) of
             Inl e \<Rightarrow> Inl (ParseConfig e)
           | Inr v \<Rightarrow> Inr v))"

definition LoadServer :: "files \<Rightarrow> string \<Rightarrow> config_error + Server" where
  "LoadServer fs path =
     (case load fs path ServerFields Server_zero of
        Inl e \<Rightarrow> Inl e
      | Inr cfg0 \<Rightarrow>
          let cfg = (if srv_KCP cfg0 = None then cfg0\<lparr>srv_KCP := Some DefaultKCP\<rparr> else cfg0) in
          (case Server_validate cfg of
             Some e \<Rightarrow> Inl (InvalidServerConfig path e)
           | None \<Rightarrow> Inr cfg))"

definition LoadClient :: "files \<Rightarrow> string \<Rightarrow> config_error + Client" where
  "LoadClient fs path =
     (case load fs path ClientFields Client_zero of
        Inl e \<Rightarrow> Inl e
      | Inr cfg0 \<Rightarrow>
          let cfg = (if cli_TLSCertPath cfg0 = []
                     then cfg0\<lparr>cli_TLSCertPath := Join2 (Dir path) ''cert.pem''\<rparr> else cfg0) in
          (case Client_validate cfg of
             Some e \<Rightarrow> Inl (InvalidClientConfig path e)
           | None \<Rightarrow> Inr cfg))"

section \<open>What validation promises\<close>

text \<open>The declarative meaning of a valid configuration, free of the order of the checks.\<close>

definition port_ok :: "string \<Rightarrow> bool" where
  "port_ok p = (case Atoi p of None \<Rightarrow> False | Some n \<Rightarrow> 1 \<le> n \<and> n \<le> 65535)"

definition hostport_ok :: "bool \<Rightarrow> string \<Rightarrow> bool" where
  "hostport_ok host_required a =
     (case SplitHostPort a of Inl e \<Rightarrow> False | Inr (h, p) \<Rightarrow> (host_required \<longrightarrow> h \<noteq> []) \<and> port_ok p)"

definition kcp_ok :: "KCP \<Rightarrow> bool" where
  "kcp_ok k \<longleftrightarrow> 0 < Interval k \<and> 0 < SndWnd k \<and> 0 < RcvWnd k \<and> 0 \<le> DataShards k \<and> 0 \<le> ParityShards k"

definition server_ok :: "Server \<Rightarrow> bool" where
  "server_ok c \<longleftrightarrow>
     srv_Protocol c \<in> set supported \<and> port_ok (srv_DataPort c)
     \<and> (if srv_Protocol c = Stealth then hostport_ok True (srv_StealthHandshakeServer c)
        else port_ok (srv_ControlPort c))
     \<and> (srv_ControlPort c \<noteq> srv_DataPort c \<or> UDPBased (srv_Protocol c))
     \<and> hostport_ok True (srv_TargetAddress c) \<and> minTokenLength \<le> length (srv_Token c)
     \<and> (TLS (srv_Protocol c) \<longrightarrow> srv_TLSCertPath c \<noteq> [] \<and> srv_TLSKeyPath c \<noteq> [])
     \<and> (case srv_KCP c of None \<Rightarrow> False | Some k \<Rightarrow> kcp_ok k)"

definition client_ok :: "Client \<Rightarrow> bool" where
  "client_ok c \<longleftrightarrow>
     (if cli_Protocol c = [] then hostport_ok True (cli_ControlAddress c)
      else cli_Protocol c \<in> set supported \<and> port_ok (cli_DataPort c)
           \<and> (cli_Protocol c = Stealth \<longrightarrow> cli_StealthSNI c \<noteq> []))
     \<and> cli_RemoteHost c \<noteq> [] \<and> hostport_ok False (cli_ListenAddress c)
     \<and> minTokenLength \<le> length (cli_Token c)"

lemma first_error_None [simp]: "first_error (x # xs) = None \<longleftrightarrow> x = None \<and> first_error xs = None"
  by (cases x) simp_all

lemma check_None_iff [simp]:
  "check_protocol p = None \<longleftrightarrow> p \<in> set supported"
  "validateToken t = None \<longleftrightarrow> minTokenLength \<le> length t"
  "validatePort f p = None \<longleftrightarrow> port_ok p"
  "validateHostPort f a = None \<longleftrightarrow> hostport_ok (f \<noteq> ''local_listen_port'') a"
  "KCP_Validate k = None \<longleftrightarrow> kcp_ok k"
  by (auto simp: check_protocol_def validateToken_def validatePort_def validateHostPort_def
      KCP_Validate_def port_ok_def hostport_ok_def kcp_ok_def split: sum.splits option.splits)

lemma KCP_Validate_ok [simp]: "kcp_ok k \<Longrightarrow> KCP_Validate k = None"
  by simp

lemma Server_validate_None: "Server_validate c = None \<longleftrightarrow> server_ok c"
  by (auto simp: Server_validate_def server_ok_def split: option.splits)

lemma Client_validate_None: "Client_validate c = None \<longleftrightarrow> client_ok c"
  by (auto simp: Client_validate_def client_ok_def)

lemma DefaultKCP_ok: "kcp_ok DefaultKCP"
  by (simp add: kcp_ok_def DefaultKCP_def)

text \<open>The last step of the loaders, and a configuration that comes out of them is well formed.\<close>

lemma validated_Inr:
  "(case Server_validate c of Some e \<Rightarrow> Inl (f e) | None \<Rightarrow> Inr c) = Inr cfg \<longleftrightarrow> cfg = c \<and> server_ok c"
  "(case Client_validate d of Some e \<Rightarrow> Inl (g e) | None \<Rightarrow> Inr d) = Inr cfg' \<longleftrightarrow> cfg' = d \<and> client_ok d"
  by (auto simp: Server_validate_None [symmetric] Client_validate_None [symmetric] split: option.splits)

lemma fill_KCP:
  "(if srv_KCP raw = None then raw\<lparr>srv_KCP := Some DefaultKCP\<rparr> else raw) =
     raw\<lparr>srv_KCP := Some (case srv_KCP raw of None \<Rightarrow> DefaultKCP | Some k \<Rightarrow> k)\<rparr>"
  by (auto split: option.splits)

lemma LoadServer_Inr:
  "LoadServer fs path = Inr cfg \<longleftrightarrow>
     (\<exists>raw. load fs path ServerFields Server_zero = Inr raw
        \<and> cfg = raw\<lparr>srv_KCP := Some (case srv_KCP raw of None \<Rightarrow> DefaultKCP | Some k \<Rightarrow> k)\<rparr>
        \<and> server_ok cfg)"
  by (cases "load fs path ServerFields Server_zero")
    (auto simp only: LoadServer_def Let_def fill_KCP validated_Inr sum.case sum.distinct sum.inject)

lemma LoadClient_Inr:
  "LoadClient fs path = Inr cfg \<longleftrightarrow>
     (\<exists>raw. load fs path ClientFields Client_zero = Inr raw
        \<and> cfg = (if cli_TLSCertPath raw = [] then raw\<lparr>cli_TLSCertPath := Join2 (Dir path) ''cert.pem''\<rparr> else raw)
        \<and> client_ok cfg)"
  by (cases "load fs path ClientFields Client_zero")
    (auto simp only: LoadClient_def Let_def validated_Inr sum.case sum.distinct sum.inject)

lemma load_Inr:
  "load fs path flds zero = Inr raw \<longleftrightarrow> (\<exists>bs. fs path = Inr bs \<and> Decode flds zero (string_of bs) = Inr raw)"
  by (auto simp: load_def split: sum.splits)

lemma LoadServer_ok: "LoadServer fs path = Inr cfg \<Longrightarrow> server_ok cfg"
  by (auto simp only: LoadServer_Inr)

lemma LoadClient_ok: "LoadClient fs path = Inr cfg \<Longrightarrow> client_ok cfg"
  by (auto simp only: LoadClient_Inr)

section \<open>Types of configurations\<close>

definition KCP_int64 :: "KCP \<Rightarrow> bool" where
  "KCP_int64 k \<longleftrightarrow> int64 (NoDelay k) \<and> int64 (Interval k) \<and> int64 (Resend k) \<and> int64 (NoCongestion k)
     \<and> int64 (SndWnd k) \<and> int64 (RcvWnd k) \<and> int64 (DataShards k) \<and> int64 (ParityShards k)"

definition KCP_typed :: "KCP option \<Rightarrow> bool" where
  "KCP_typed p \<longleftrightarrow> (\<forall>k. p = Some k \<longrightarrow> KCP_int64 k)"

interpretation kcp_fields: typed_struct KCPFields KCP_int64 KCP_zero
proof
  show "KCP_int64 KCP_zero" by (simp add: KCP_int64_def KCP_zero_def int64_def)
  show "KCP_int64 (fst (f v s))" if "(k, f) \<in> set KCPFields" and "KCP_int64 s" for k f s v
    using that(1) unfolding KCPFields_def
    by (auto intro!: store_int_keeps [where P = KCP_int64] that(2)) (use that(2) in \<open>simp_all add: KCP_int64_def\<close>)
qed

interpretation server_fields: typed_struct ServerFields "\<lambda>c. KCP_typed (srv_KCP c)" Server_zero
proof
  show "KCP_typed (srv_KCP Server_zero)" by (simp add: KCP_typed_def Server_zero_def)
  show "KCP_typed (srv_KCP (fst (f v s)))" if f: "(k, f) \<in> set ServerFields" and s: "KCP_typed (srv_KCP s)" for k f s v
  proof -
    obtain p bad where p: "store_pointer KCPFields KCP_zero srv_KCP (\<lambda>p s. s\<lparr>srv_KCP := p\<rparr>) v s = (s\<lparr>srv_KCP := p\<rparr>, bad)"
        "KCP_typed p"
      using kcp_fields.store_pointer_typed [of srv_KCP s "\<lambda>p s. s\<lparr>srv_KCP := p\<rparr>" v] s unfolding KCP_typed_def by blast
    from f show ?thesis unfolding ServerFields_def
      by (auto intro!: store_string_keeps [where P = "\<lambda>c. KCP_typed (srv_KCP c)"] s simp: p)
  qed
qed

lemma DefaultKCP_int64: "KCP_int64 DefaultKCP"
  by (simp add: KCP_int64_def DefaultKCP_def int64_def)

lemma LoadServer_typed:
  assumes "LoadServer fs path = Inr cfg"
  shows "\<exists>k. srv_KCP cfg = Some k \<and> KCP_int64 k"
proof -
  from assms obtain bs raw where "Decode ServerFields Server_zero (string_of bs) = Inr raw"
      and cfg: "srv_KCP cfg = Some (case srv_KCP raw of None \<Rightarrow> DefaultKCP | Some k \<Rightarrow> k)"
    by (auto simp: LoadServer_Inr load_Inr)
  from server_fields.Decode_typed [OF this(1)] cfg DefaultKCP_int64 show ?thesis
    by (auto simp: KCP_typed_def split: option.splits)
qed

section \<open>Properties\<close>

text \<open>
  C38. \<^verbatim>\<open>LoadServer\<close> succeeds exactly on the files that decode to a struct which, with the default KCP
  parameters filled in, is valid: supported protocol, port numbers between 1 and 65535, control and
  data port spelled differently unless the data port is a UDP port, a target with a host, a token of at
  least 16 bytes, certificate paths for the TLS protocols, a handshake site for stealth, usable KCP
  parameters. The result always has KCP parameters.
\<close>

theorem load_server_iff:
  "LoadServer fs path = Inr cfg \<longleftrightarrow>
     (\<exists>bs raw. fs path = Inr bs \<and> Decode ServerFields Server_zero (string_of bs) = Inr raw
        \<and> cfg = raw\<lparr>srv_KCP := Some (case srv_KCP raw of None \<Rightarrow> DefaultKCP | Some k \<Rightarrow> k)\<rparr>
        \<and> server_ok cfg)"
  unfolding LoadServer_Inr load_Inr by blast

text \<open>
  \<^verbatim>\<open>LoadClient\<close> succeeds exactly on the files that decode to a valid struct: either a fixed
  protocol with its port (and a server name for stealth) or a control address with a host, a remote
  host, a listen address whose host may be empty, and a token of at least 16 bytes. An absent
  certificate path becomes \<^verbatim>\<open>cert.pem\<close> next to the configuration file.
\<close>

theorem load_client_iff:
  "LoadClient fs path = Inr cfg \<longleftrightarrow>
     (\<exists>bs raw. fs path = Inr bs \<and> Decode ClientFields Client_zero (string_of bs) = Inr raw
        \<and> cfg = (if cli_TLSCertPath raw = [] then raw\<lparr>cli_TLSCertPath := Join2 (Dir path) ''cert.pem''\<rparr> else raw)
        \<and> client_ok cfg)"
  unfolding LoadClient_Inr load_Inr by blast

text \<open>Two configurations for the properties below.\<close>

definition same_port_config :: Server where
  "same_port_config = \<lparr>srv_ControlPort = ''8080'', srv_DataPort = ''08080'', srv_Protocol = ''tcp'',
     srv_TargetAddress = ''127.0.0.1:1'', srv_Token = ''0123456789abcdef'', srv_TLSCertPath = [],
     srv_TLSKeyPath = [], srv_StealthHandshakeServer = [], srv_KCP = Some DefaultKCP\<rparr>"

definition stealth_config :: "string \<Rightarrow> Server" where
  "stealth_config control_port = \<lparr>srv_ControlPort = control_port, srv_DataPort = ''443'',
     srv_Protocol = ''stealth'', srv_TargetAddress = ''127.0.0.1:1'', srv_Token = ''0123456789abcdef'',
     srv_TLSCertPath = [], srv_TLSKeyPath = [],
     srv_StealthHandshakeServer = ''www.example.com:443'', srv_KCP = Some DefaultKCP\<rparr>"

lemma stealth_443: "Server_validate (stealth_config ''443'') = Some (PortsMustDiffer Stealth)"
  by code_simp

text \<open>
  The check that the control port and the data port differ compares their spellings, not their
  numbers: a configuration for the TCP protocol passes validation in which both name port 8080.
\<close>

theorem same_port_accepted:
  "Server_validate same_port_config = None \<and> srv_Protocol same_port_config = TCP
   \<and> Atoi (srv_ControlPort same_port_config) = Some 8080 \<and> Atoi (srv_DataPort same_port_config) = Some 8080"
  by code_simp

text \<open>
  A stealth server does not use its control port, and needs none; yet one that is spelled like the
  data port makes the configuration invalid, while any other string there, even one that is no port
  number, is accepted.
\<close>

theorem stealth_control_port:
  "Server_validate (stealth_config cp) = (if cp = ''443'' then Some (PortsMustDiffer Stealth) else None)"
proof -
  have "server_ok (stealth_config ''8'')" by code_simp
  then have "server_ok (stealth_config cp)" if "cp \<noteq> ''443''"
    using that by (simp add: server_ok_def stealth_config_def Stealth_def)
  then show ?thesis
    using Server_validate_None [of "stealth_config cp"]
    by (auto simp: stealth_443)
qed

end
