(* ===== verification/Control.thy ===== *)
theory Control
  imports Auth Config
begin

text \<open>
  Package \<^verbatim>\<open>control\<close>, file \<^verbatim>\<open>internal/control/control.go\<close>: the message in which the server tells an
  authenticated client which transport to run. \<open>Send\<close> and \<open>Receive\<close> are programs over a connection;
  the wire format is a 16-bit length, the JSON body, and the tag over the channel and the body.
\<close>

section \<open>The message\<close>

definition maxBodySize :: nat where "maxBodySize = 4096"
definition labelConfig :: string where "labelConfig = ''gtun/v1/config''"

record control_config =
  ctl_Protocol :: name
  ctl_Port :: string
  ctl_KCP :: "KCP option"

definition Equal :: "control_config \<Rightarrow> control_config \<Rightarrow> bool" where
  "Equal c o' =
     (if ctl_Protocol c \<noteq> ctl_Protocol o' \<or> ctl_Port c \<noteq> ctl_Port o' then False
      else if (ctl_KCP c = None) \<noteq> (ctl_KCP o' = None) then False
      else ctl_KCP c = None \<or> the (ctl_KCP c) = the (ctl_KCP o'))"

lemma Equal_iff [simp]: "Equal c o' \<longleftrightarrow> c = o'"
  by (cases c, cases o') (auto simp: Equal_def)

section \<open>JSON form\<close>

definition KCP_json :: "KCP \<Rightarrow> json" where
  "KCP_json k = JObj
     [(''NoDelay'', JNum (Itoa (NoDelay k))), (''Interval'', JNum (Itoa (Interval k))),
      (''Resend'', JNum (Itoa (Resend k))), (''NoCongestion'', JNum (Itoa (NoCongestion k))),
      (''SndWnd'', JNum (Itoa (SndWnd k))), (''RcvWnd'', JNum (Itoa (RcvWnd k))),
      (''DataShards'', JNum (Itoa (DataShards k))), (''ParityShards'', JNum (Itoa (ParityShards k)))]"

definition control_json :: "control_config \<Rightarrow> json" where
  "control_json c = JObj
     ([(''protocol'', JStr (ctl_Protocol c)), (''port'', JStr (ctl_Port c))]
      @ (case ctl_KCP c of None \<Rightarrow> [] | Some k \<Rightarrow> [(''kcp'', KCP_json k)]))"

definition control_fields :: "control_config field list" where
  "control_fields =
    [(''protocol'', store_string (\<lambda>x c. c\<lparr>ctl_Protocol := x\<rparr>)),
     (''port'', store_string (\<lambda>x c. c\<lparr>ctl_Port := x\<rparr>)),
     (''kcp'', store_pointer KCPFields KCP_zero ctl_KCP (\<lambda>p c. c\<lparr>ctl_KCP := p\<rparr>))]"

definition control_zero :: control_config where
  "control_zero = \<lparr>ctl_Protocol = [], ctl_Port = [], ctl_KCP = None\<rparr>"

definition Marshal :: "control_config \<Rightarrow> bytes" where
  "Marshal c = bytes_of (print_json (control_json c))"

section \<open>Sending and receiving\<close>

datatype control_error =
    ConfigTooLarge nat
  | SendConfig io_error
  | ReadHeader io_error
  | MessageTooLarge nat
  | ReadMessage io_error
  | ControlAuthFailed
  | DecodeConfig json_error
  | ControlProtocol proto_error
  | ControlKCP config_error

text \<open>\<^verbatim>\<open>binary.BigEndian.PutUint16\<close> and \<^verbatim>\<open>Uint16\<close>.\<close>

definition PutUint16 :: "16 word \<Rightarrow> bytes" where
  "PutUint16 v = [ucast (drop_bit 8 v), ucast v]"

definition Uint16 :: "bytes \<Rightarrow> 16 word" where
  "Uint16 b = or (ucast (b ! 1)) (push_bit 8 (ucast (b ! 0)))"

definition control_frame :: "string \<Rightarrow> bytes \<Rightarrow> bytes \<Rightarrow> bytes" where
  "control_frame token channel body =
     PutUint16 (of_nat (length body)) @ body @ Sign token labelConfig [channel, body]"

definition Send :: "string \<Rightarrow> bytes \<Rightarrow> control_config \<Rightarrow> control_error option io" where
  "Send token channel cfg =
     (let body = Marshal cfg in
      if length body > maxBodySize then Ret (Some (ConfigTooLarge (length body)))
      else DoWrite (control_frame token channel body) (\<lambda>w. case w of
             Some e \<Rightarrow> Ret (Some (SendConfig e))
           | None \<Rightarrow> Ret None))"

definition decode_control :: "bytes \<Rightarrow> control_error + control_config" where
  "decode_control body =
     (case Unmarshal control_fields control_zero (string_of body) of
        Inl e \<Rightarrow> Inl (DecodeConfig e)
      | Inr cfg \<Rightarrow>
          (case Parse (ctl_Protocol cfg) of
             Inl e \<Rightarrow> Inl (ControlProtocol e)
           | Inr _ \<Rightarrow>
               (case ctl_KCP cfg of
                  None \<Rightarrow> Inr cfg
                | Some k \<Rightarrow> (case KCP_Validate k of Some e \<Rightarrow> Inl (ControlKCP e) | None \<Rightarrow> Inr cfg))))"

definition Receive :: "string \<Rightarrow> bytes \<Rightarrow> (control_error + control_config) io" where
  "Receive token channel =
     DoReadFull 2 (\<lambda>r. case r of
       Inl e \<Rightarrow> Ret (Inl (ReadHeader e))
     | Inr header \<Rightarrow>
         (let size = unat (Uint16 header) in
          if size > maxBodySize then Ret (Inl (MessageTooLarge size))
          else DoReadFull (size + TagSize) (\<lambda>r. case r of
            Inl e \<Rightarrow> Ret (Inl (ReadMessage e))
          | Inr buf \<Rightarrow>
              (let body = take size buf; tag = drop size buf in
               if \<not> Verify token labelConfig tag [channel, body] then Ret (Inl ControlAuthFailed)
               else Ret (decode_control body)))))"

section \<open>Encoding and decoding\<close>

definition control_ok :: "control_config \<Rightarrow> bool" where
  "control_ok c \<longleftrightarrow> ctl_Protocol c \<in> set supported \<and> ascii (ctl_Port c)
     \<and> (case ctl_KCP c of None \<Rightarrow> True | Some k \<Rightarrow> kcp_ok k \<and> KCP_int64 k)"

lemma Atoi_Itoa_int64: "int64 n \<Longrightarrow> Atoi (Itoa n) = Some n"
  by (simp add: int64_def Atoi_Itoa)

lemma KCP_json_not_null [simp]: "KCP_json k \<noteq> JNull"
  by (simp add: KCP_json_def)

lemma decode_KCP_json: "KCP_int64 k \<Longrightarrow> decode_struct KCPFields (KCP_json k) KCP_zero = (k, False)"
  by (cases k) (simp add: KCP_json_def KCPFields_def KCP_int64_def store_member_def find_field_def
      Atoi_Itoa_int64 KCP_zero_def)

lemma decode_control_json:
  "control_ok c \<Longrightarrow> decode_struct control_fields (control_json c) control_zero = (c, False)"
  by (cases c) (auto simp: control_json_def control_fields_def control_ok_def store_member_def find_field_def
      control_zero_def store_pointer_def decode_KCP_json split: option.splits)

lemma ascii_supported: "n \<in> set supported \<Longrightarrow> ascii n"
proof -
  have "list_all ascii supported"
    by (simp add: supported_def proto_names ord_def)
  then show "n \<in> set supported \<Longrightarrow> ascii n" by (simp add: list_all_iff)
qed

lemma plain_KCP_json: "0 < d \<Longrightarrow> plain d (KCP_json k)"
proof -
  have "list_all ascii (map fst KCPFields)"
    by (simp add: KCPFields_def ord_def)
  moreover assume "0 < d"
  ultimately show ?thesis by (auto simp: KCP_json_def KCPFields_def)
qed

lemma plain_control_json: "control_ok c \<Longrightarrow> 1 < d \<Longrightarrow> plain d (control_json c)"
proof -
  have "list_all ascii (map fst control_fields)"
    by (simp add: control_fields_def ord_def)
  moreover assume "control_ok c" "1 < d"
  ultimately show ?thesis
    by (auto simp: control_json_def control_fields_def control_ok_def ascii_supported plain_KCP_json
        split: option.splits)
qed

lemma decode_control_Marshal: "control_ok c \<Longrightarrow> decode_control (Marshal c) = Inr c"
proof -
  assume ok: "control_ok c"
  then have "Unmarshal control_fields control_zero (print_json (control_json c)) = Inr c"
    by (intro Unmarshal_print plain_control_json decode_control_json) (simp_all add: maxNestingDepth_def)
  with ok show ?thesis
    by (cases "ctl_KCP c") (simp_all add: decode_control_def Marshal_def control_ok_def Parse_supported)
qed

lemma decode_control_valid:
  "decode_control body = Inr c \<Longrightarrow> ctl_Protocol c \<in> set supported
     \<and> (case ctl_KCP c of None \<Rightarrow> True | Some k \<Rightarrow> kcp_ok k)"
  by (auto simp: decode_control_def split: sum.splits option.splits)

section \<open>Frames\<close>

lemma length_PutUint16 [simp]: "length (PutUint16 v) = 2"
  by (simp add: PutUint16_def)

lemma Uint16_PutUint16 [simp]: "Uint16 (PutUint16 v) = v"
proof (rule bit_word_eqI)
  fix n assume "n < LENGTH(16)"
  then show "bit (Uint16 (PutUint16 v)) n = bit v n"
    unfolding Uint16_def PutUint16_def
    by (cases "n < 8") (simp_all add: bit_or_iff bit_push_bit_iff bit_ucast_iff bit_drop_bit_eq, linarith)
qed

lemma Uint16_high: "(ucast (drop_bit 8 (Uint16 [x, y])) :: byte) = x"
proof (rule bit_word_eqI)
  fix n assume "n < LENGTH(8)"
  moreover have "\<not> bit y (8 + n)" using bit_imp_le_length [of y "8 + n"] by auto
  ultimately show "bit (ucast (drop_bit 8 (Uint16 [x, y])) :: byte) n = bit x n"
    by (simp add: Uint16_def bit_or_iff bit_push_bit_iff bit_ucast_iff bit_drop_bit_eq)
qed

lemma Uint16_low: "(ucast (Uint16 [x, y]) :: byte) = y"
  by (rule bit_word_eqI) (simp add: Uint16_def bit_or_iff bit_push_bit_iff bit_ucast_iff bit_drop_bit_eq)

lemma PutUint16_Uint16: "length b = 2 \<Longrightarrow> PutUint16 (Uint16 b) = b"
proof -
  assume "length b = 2"
  then have b: "b = [b ! 0, b ! 1]"
    by (simp add: list_eq_iff_nth_eq less_2_cases_iff)
  show ?thesis
    unfolding PutUint16_def by (subst (1 2 3) b) (simp only: Uint16_high Uint16_low)
qed

lemma unat_length_16: "n \<le> maxBodySize \<Longrightarrow> unat (of_nat n :: 16 word) = n"
  by (simp add: maxBodySize_def unat_of_nat)

lemma length_control_frame: "length (control_frame token ch body) = 2 + length body + TagSize"
  by (simp add: control_frame_def)

text \<open>A received announcement respects the types of its fields.\<close>

interpretation control_typed: typed_struct control_fields "\<lambda>c. KCP_typed (ctl_KCP c)" control_zero
proof
  show "KCP_typed (ctl_KCP control_zero)" by (simp add: KCP_typed_def control_zero_def)
  show "KCP_typed (ctl_KCP (fst (f v s)))" if f: "(k, f) \<in> set control_fields" and s: "KCP_typed (ctl_KCP s)" for k f s v
  proof -
    obtain p bad where p: "store_pointer KCPFields KCP_zero ctl_KCP (\<lambda>p c. c\<lparr>ctl_KCP := p\<rparr>) v s = (s\<lparr>ctl_KCP := p\<rparr>, bad)"
        "KCP_typed p"
      using kcp_fields.store_pointer_typed [of ctl_KCP s "\<lambda>p c. c\<lparr>ctl_KCP := p\<rparr>" v] s unfolding KCP_typed_def by blast
    from f show ?thesis unfolding control_fields_def
      by (auto intro!: store_string_keeps [where P = "\<lambda>c. KCP_typed (ctl_KCP c)"] s simp: p)
  qed
qed

lemma decode_control_typed: "decode_control body = Inr cfg \<Longrightarrow> KCP_typed (ctl_KCP cfg)"
  by (auto simp: decode_control_def dest!: control_typed.Unmarshal_typed split: sum.splits option.splits)

section \<open>Runs of the receiver\<close>

text \<open>On a complete frame the outcome is decided by the tag and the body.\<close>

lemma Receive_run_frame:
  assumes "length body \<le> maxBodySize" and "length tag = TagSize"
  shows "io_run g flt (Receive token ch) (PutUint16 (of_nat (length body)) @ body @ tag @ rest) e r c' e' ws
    \<longleftrightarrow> r = (if tag = Sign token labelConfig [ch, body] then decode_control body else Inl ControlAuthFailed)
      \<and> c' = rest \<and> e' = e \<and> ws = []"
proof -
  let ?h = "PutUint16 (of_nat (length body))"
  have "read_result 2 (?h @ body @ tag @ rest) e = Inr ?h" "drop 2 (?h @ body @ tag @ rest) = body @ tag @ rest"
      "read_result (length body + TagSize) (body @ tag @ rest) e = Inr (body @ tag)"
    using assms by (auto simp: read_result_Inr_iff)
  moreover have "unat (Uint16 ?h) = length body"
    using assms by (simp add: unat_length_16)
  ultimately show ?thesis
    using assms unfolding Receive_def by (auto simp: Let_def)
qed

lemma Receive_run_sound:
  assumes run: "io_run g flt (Receive token ch) c e (Inr cfg) c' e' ws"
  shows "\<exists>body. length body \<le> maxBodySize \<and> c = control_frame token ch body @ c' \<and> decode_control body = Inr cfg"
proof -
  from run obtain h where h: "read_result 2 c e = Inr h"
    unfolding Receive_def by (auto split: sum.splits)
  let ?size = "unat (Uint16 h)"
  from run h obtain buf where size: "?size \<le> maxBodySize"
    and buf: "read_result (?size + TagSize) (drop 2 c) e = Inr buf"
    and tag: "drop ?size buf = Sign token labelConfig [ch, take ?size buf]"
    and cfg: "decode_control (take ?size buf) = Inr cfg"
    and c': "c' = drop (?size + TagSize) (drop 2 c)"
    unfolding Receive_def by (auto simp: Let_def split: sum.splits if_splits)
  from read_result_Inr_split [OF h] read_result_Inr_split [OF buf] c'
  have len: "length h = 2" "length buf = ?size + TagSize" and c: "c = h @ buf @ c'" by auto
  have "PutUint16 (of_nat ?size) = h"
    using PutUint16_Uint16 [OF len(1)] by simp
  moreover have "length (take ?size buf) = ?size"
    using len(2) by simp
  moreover have "buf = take ?size buf @ Sign token labelConfig [ch, take ?size buf]"
    using tag by (metis append_take_drop_id)
  ultimately have "control_frame token ch (take ?size buf) @ c' = c"
    unfolding control_frame_def c by simp
  with size cfg len(2) show ?thesis
    by (intro exI [of _ "take ?size buf"]) simp
qed

text \<open>However it ends, the receiver has consumed at most one frame of the largest size.\<close>

lemma Receive_run_bounded:
  assumes run: "io_run g flt (Receive token ch) c e r c' e' ws"
  shows "\<exists>n \<le> 2 + maxBodySize + TagSize. c' = drop n c"
proof (cases "read_result 2 c e")
  case (Inl err)
  with run have "c' = drop 2 c" unfolding Receive_def by simp
  then show ?thesis by (intro exI [of _ 2]) simp
next
  case (Inr h)
  let ?size = "unat (Uint16 h)"
  show ?thesis
  proof (cases "?size \<le> maxBodySize")
    case True
    with run Inr have "c' = drop (?size + TagSize) (drop 2 c)"
      unfolding Receive_def by (auto simp: Let_def split: sum.splits if_splits)
    with True show ?thesis
      by (intro exI [of _ "?size + TagSize + 2"]) simp
  next
    case False
    with run Inr have "c' = drop 2 c" unfolding Receive_def by (simp add: Let_def)
    then show ?thesis by (intro exI [of _ 2]) simp
  qed
qed

section \<open>Properties\<close>

text \<open>A concrete announcement for the witnesses.\<close>

definition demo_announcement :: control_config where
  "demo_announcement = \<lparr>ctl_Protocol = TCPMux, ctl_Port = ''9000'', ctl_KCP = None\<rparr>"

lemma demo_announcement_ok: "control_ok demo_announcement"
  by (simp add: demo_announcement_def control_ok_def supported_def ord_def)

lemma demo_announcement_small: "length (Marshal demo_announcement) \<le> maxBodySize"
  by (simp add: demo_announcement_def Marshal_def control_json_def maxBodySize_def proto_names) code_simp

lemma Send_reliable:
  "length (Marshal cfg) \<le> maxBodySize \<Longrightarrow>
     \<exists>s'. run_io net_ops g (Send token ch cfg) (conn_of []) = Some (None, s')
       \<and> tx s' = [control_frame token ch (Marshal cfg)]"
  by (simp add: Send_def Let_def net_ops_def conn_Write_def conn_of_def)

text \<open>
  The control message survives the trip. For every announcement with a supported protocol, an ASCII
  port and usable KCP parameters, if \<^verbatim>\<open>Send\<close> succeeds on the server's connection, it has written one
  frame, and \<^verbatim>\<open>Receive\<close> on a client's connection that delivers that frame, however segmented and
  whatever follows, returns the same announcement and leaves what follows unread.
\<close>

theorem control_round_trip:
  assumes ok: "control_ok cfg"
    and sent: "run_io net_ops g (Send token ch cfg) s = Some (None, s')" "conn_reliable s"
    and arrives: "conn_content c = concat (drop (length (tx s)) (tx s')) @ rest"
  shows "\<exists>c'. run_io net_ops g' (Receive token ch) c = Some (Inr cfg, c') \<and> conn_content c' = rest"
proof -
  have small: "length (Marshal cfg) \<le> maxBodySize" and tx: "tx s' = tx s @ [control_frame token ch (Marshal cfg)]"
    using netc.run_io_io_run [OF sent(1), of False] sent(2)
    by (auto simp: Send_def Let_def split: if_splits)
  obtain r c' ws where run: "run_io net_ops g' (Receive token ch) c = Some (r, c')"
    and io: "io_run g' True (Receive token ch) (conn_content c) (conn_final c) r (conn_content c') (conn_final c') ws"
    using netc.run_io_refines [of True c g' "Receive token ch"] by blast
  have "conn_content c = PutUint16 (of_nat (length (Marshal cfg))) @ Marshal cfg
      @ Sign token labelConfig [ch, Marshal cfg] @ rest"
    using arrives tx by (simp add: control_frame_def)
  with io have "r = Inr cfg" "conn_content c' = rest"
    using small ok by (auto simp: Receive_run_frame decode_control_Marshal)
  with run show ?thesis by blast
qed

theorem control_round_trip_witness:
  "\<exists>c'. run_io net_ops (Inr (\<lambda>_. 0)) (Receive demo_token (transcript demo_nc demo_ns))
      (conn_of [control_frame demo_token (transcript demo_nc demo_ns) (Marshal demo_announcement), [7]]) =
        Some (Inr demo_announcement, c') \<and> conn_content c' = [7]"
proof -
  obtain s' where sent: "run_io net_ops (Inr (\<lambda>_. 0))
      (Send demo_token (transcript demo_nc demo_ns) demo_announcement) (conn_of []) = Some (None, s')"
    and "tx s' = [control_frame demo_token (transcript demo_nc demo_ns) (Marshal demo_announcement)]"
    using Send_reliable [OF demo_announcement_small] by blast
  then show ?thesis
    by (intro control_round_trip [OF demo_announcement_ok sent]) simp_all
qed

text \<open>
  C19. A received announcement is authentic and bound to its session. If \<^verbatim>\<open>Receive\<close> returns a
  configuration, the stream began with a frame whose tag is the one for this token, this channel and
  that body; the body decodes to the configuration; its protocol is supported and its KCP parameters,
  if any, are usable. A complete frame with any other tag gives an authentication error.
\<close>

theorem control_receive_authentic:
  assumes "run_io net_ops g (Receive token ch) c = Some (r, c')"
  shows "(\<forall>cfg. r = Inr cfg \<longrightarrow>
            (\<exists>body. conn_content c = control_frame token ch body @ conn_content c'
                \<and> decode_control body = Inr cfg)
            \<and> ctl_Protocol cfg \<in> set supported
            \<and> (case ctl_KCP cfg of None \<Rightarrow> True | Some k \<Rightarrow> kcp_ok k))
       \<and> (\<forall>body tag rest. conn_content c = PutUint16 (of_nat (length body)) @ body @ tag @ rest
            \<and> length body \<le> maxBodySize \<and> length tag = TagSize
            \<and> tag \<noteq> Sign token labelConfig [ch, body] \<longrightarrow> r = Inl ControlAuthFailed)"
proof -
  obtain ws where io: "io_run g True (Receive token ch) (conn_content c) (conn_final c) r
      (conn_content c') (conn_final c') ws"
    using netc.run_io_io_run [OF assms, of True] by blast
  show ?thesis
  proof (rule conjI; intro allI impI)
    fix cfg assume "r = Inr cfg"
    with io obtain body where "conn_content c = control_frame token ch body @ conn_content c'"
        and "decode_control body = Inr cfg"
      using Receive_run_sound by blast
    then show "(\<exists>body. conn_content c = control_frame token ch body @ conn_content c'
          \<and> decode_control body = Inr cfg) \<and> ctl_Protocol cfg \<in> set supported
        \<and> (case ctl_KCP cfg of None \<Rightarrow> True | Some k \<Rightarrow> kcp_ok k)"
      using decode_control_valid by blast
  next
    fix body tag rest
    assume "conn_content c = PutUint16 (of_nat (length body)) @ body @ tag @ rest
      \<and> length body \<le> maxBodySize \<and> length tag = TagSize \<and> tag \<noteq> Sign token labelConfig [ch, body]"
    with io show "r = Inl ControlAuthFailed"
      by (simp add: Receive_run_frame)
  qed
qed

theorem control_receive_authentic_witness:
  "\<exists>r c'. run_io net_ops (Inr (\<lambda>_. 0)) (Receive demo_token (transcript demo_nc demo_ns))
      (conn_of [control_frame demo_token (transcript demo_nc demo_ns) (Marshal demo_announcement)]) = Some (r, c')
    \<and> r = Inr demo_announcement
    \<and> (\<exists>body. concat [control_frame demo_token (transcript demo_nc demo_ns) (Marshal demo_announcement)] =
          control_frame demo_token (transcript demo_nc demo_ns) body @ conn_content c'
        \<and> decode_control body = Inr demo_announcement)"
proof -
  let ?ch = "transcript demo_nc demo_ns"
  let ?c = "conn_of [control_frame demo_token ?ch (Marshal demo_announcement)]"
  obtain r c' where run: "run_io net_ops (Inr (\<lambda>_. 0)) (Receive demo_token ?ch) ?c = Some (r, c')"
    using netc.run_io_returns [of "Inr (\<lambda>_. 0)" "Receive demo_token ?ch" ?c] by blast
  have r: "r = Inr demo_announcement"
    using netc.run_io_io_run [OF run, of True] demo_announcement_small
    by (auto simp: control_frame_def Receive_run_frame [where rest = "[]", simplified]
        decode_control_Marshal demo_announcement_ok)
  with run control_receive_authentic [OF run] show ?thesis by simp
qed

text \<open>
  The receiver's memory is bounded: whatever the peer sends, \<^verbatim>\<open>Receive\<close> returns after consuming at
  most 2 + 4096 + 32 bytes of the stream, and never writes.
\<close>

theorem control_receive_bounded:
  "\<exists>r c' n. run_io net_ops g (Receive token ch) c = Some (r, c') \<and> n \<le> 4130
     \<and> conn_content c' = drop n (conn_content c)"
proof -
  obtain r c' ws where run: "run_io net_ops g (Receive token ch) c = Some (r, c')"
    and io: "io_run g True (Receive token ch) (conn_content c) (conn_final c) r (conn_content c') (conn_final c') ws"
    using netc.run_io_refines [of True c g "Receive token ch"] by blast
  from Receive_run_bounded [OF io] obtain n where "n \<le> 2 + maxBodySize + TagSize"
      "conn_content c' = drop n (conn_content c)" by blast
  with run show ?thesis by (auto simp: maxBodySize_def TagSize_def)
qed

end
