(* ===== verification/Netutil.thy ===== *)
theory Netutil
  imports Gtun_Prelude "HOL-Library.Sublist"
begin

text \<open>
  Package \<^verbatim>\<open>netutil\<close>: the accept loop (\<^verbatim>\<open>internal/netutil/accept.go\<close>) and the two-way copy
  (\<^verbatim>\<open>internal/netutil/pipe.go\<close>), together with the exponential backoff that the accept loop and the
  client share. Durations are nanoseconds, as in \<^verbatim>\<open>time.Duration\<close>; none of the sums below comes near
  the 64-bit bound.
\<close>

section \<open>Exponential backoff\<close>

text \<open>
  The contract of a backoff: from a delay between \<open>lo\<close> and \<open>hi\<close> the next one is twice as long, capped
  at \<open>hi\<close>. Starting at \<open>lo\<close>, the delays then grow geometrically, stay within the bounds, and reach
  the cap.
\<close>

locale backoff =
  fixes nxt :: "int \<Rightarrow> int" and lo hi :: int
  assumes lo_pos: "0 < lo" and lo_hi: "lo \<le> hi"
    and nxt_double: "lo \<le> d \<Longrightarrow> d \<le> hi \<Longrightarrow> nxt d = min (2 * d) hi"
begin

lemma nxt_bounds: "lo \<le> d \<Longrightarrow> d \<le> hi \<Longrightarrow> lo \<le> nxt d \<and> nxt d \<le> hi"
  using nxt_double lo_hi lo_pos by auto

lemma nxt_iterate: "(nxt ^^ n) lo = min (lo * 2 ^ n) hi"
proof (induction n)
  case 0
  show ?case using lo_hi by simp
next
  case (Suc n)
  have "lo \<le> min (lo * 2 ^ n) hi" using lo_hi lo_pos by (simp add: mult_le_cancel_left1)
  then have "nxt (min (lo * 2 ^ n) hi) = min (2 * min (lo * 2 ^ n) hi) hi"
    by (intro nxt_double) auto
  also have "\<dots> = min (lo * 2 ^ Suc n) hi" using lo_pos lo_hi by (auto simp: min_def)
  finally show ?case using Suc by simp
qed

lemma nxt_iterate_bounds: "lo \<le> (nxt ^^ n) lo \<and> (nxt ^^ n) lo \<le> hi"
  using lo_hi lo_pos by (simp add: nxt_iterate mult_le_cancel_left1)

lemma nxt_saturates: "hi \<le> lo * 2 ^ n \<Longrightarrow> (nxt ^^ n) lo = hi"
  by (simp add: nxt_iterate)

end

section \<open>AcceptLoop\<close>

definition minAcceptDelay :: int where "minAcceptDelay = 5 * 10 ^ 6"
definition maxAcceptDelay :: int where "maxAcceptDelay = 10 ^ 9"

definition accept_delay :: "int \<Rightarrow> int" where
  "accept_delay delay = min (max (2 * delay) minAcceptDelay) maxAcceptDelay"

interpretation accept: backoff accept_delay minAcceptDelay maxAcceptDelay
  by unfold_locales (auto simp: accept_delay_def minAcceptDelay_def maxAcceptDelay_def)

text \<open>
  What the environment does in one iteration: the outcome of \<^verbatim>\<open>Accept\<close>, whether \<^verbatim>\<open>ctx.Err()\<close> is set when
  it is looked at, and whether the wait ends by the timer.
\<close>

record 'c accept_event =
  ae_accept :: "io_error + 'c"
  ae_ctx_done :: bool
  ae_timer :: bool

text \<open>What the loop does: hand a connection to a new goroutine, or wait.\<close>

datatype 'c accept_act = Handle 'c | Wait int

text \<open>
  The loop over a sequence of events, with the current delay: its actions, and whether it has returned
  (it always returns \<^verbatim>\<open>nil\<close>) or is still running when the events are used up.
\<close>

fun AcceptLoop_from :: "int \<Rightarrow> 'c accept_event list \<Rightarrow> 'c accept_act list \<times> bool" where
  "AcceptLoop_from delay [] = ([], False)"
| "AcceptLoop_from delay (ev # evs) =
     (case ae_accept ev of
        Inl e \<Rightarrow>
          if ae_ctx_done ev \<or> e = ErrClosed then ([], True)
          else (let delay = accept_delay delay in
                if ae_timer ev
                then (case AcceptLoop_from delay evs of (acts, returned) \<Rightarrow> (Wait delay # acts, returned))
                else ([Wait delay], True))
      | Inr conn \<Rightarrow>
          (case AcceptLoop_from 0 evs of (acts, returned) \<Rightarrow> (Handle conn # acts, returned)))"

definition AcceptLoop :: "'c accept_event list \<Rightarrow> 'c accept_act list \<times> bool" where
  "AcceptLoop evs = AcceptLoop_from 0 evs"

text \<open>Whether an event makes the loop return.\<close>

definition stops :: "'c accept_event \<Rightarrow> bool" where
  "stops ev \<longleftrightarrow> (\<exists>e. ae_accept ev = Inl e \<and> (ae_ctx_done ev \<or> e = ErrClosed \<or> \<not> ae_timer ev))"

definition accepted_conns :: "'c accept_event list \<Rightarrow> 'c list" where
  "accepted_conns evs = concat (map (\<lambda>ev. case ae_accept ev of Inl _ \<Rightarrow> [] | Inr c \<Rightarrow> [c]) evs)"

definition handled :: "'c accept_act list \<Rightarrow> 'c list" where
  "handled acts = concat (map (\<lambda>a. case a of Handle c \<Rightarrow> [c] | Wait _ \<Rightarrow> []) acts)"

lemma AcceptLoop_from_handled:
  "handled (fst (AcceptLoop_from d evs)) = accepted_conns (takeWhile (Not \<circ> stops) evs)"
  by (induction d evs rule: AcceptLoop_from.induct)
    (auto simp: handled_def accepted_conns_def stops_def Let_def split: sum.splits prod.splits)

lemma AcceptLoop_from_returns: "snd (AcceptLoop_from d evs) \<longleftrightarrow> list_ex stops evs"
  by (induction d evs rule: AcceptLoop_from.induct)
    (auto simp: stops_def Let_def split: sum.splits prod.splits)

lemma AcceptLoop_from_waits:
  "0 \<le> d \<Longrightarrow> d \<le> maxAcceptDelay \<Longrightarrow> Wait w \<in> set (fst (AcceptLoop_from d evs)) \<Longrightarrow>
     minAcceptDelay \<le> w \<and> w \<le> maxAcceptDelay"
proof (induction d evs rule: AcceptLoop_from.induct)
  case (2 d ev evs)
  have b: "minAcceptDelay \<le> accept_delay d" "accept_delay d \<le> maxAcceptDelay" "0 \<le> accept_delay d"
      "0 \<le> maxAcceptDelay"
    by (auto simp: accept_delay_def minAcceptDelay_def maxAcceptDelay_def)
  show ?case
  proof (cases "ae_accept ev")
    case (Inl e)
    with 2 b show ?thesis by (auto simp: Let_def split: if_splits prod.splits)
  next
    case (Inr c)
    with 2 b show ?thesis by (auto split: prod.splits)
  qed
qed simp

text \<open>A run of \<open>n\<close> transient failures, each waited out.\<close>

lemma AcceptLoop_from_failures:
  assumes "\<And>ev. ev \<in> set evs \<Longrightarrow> \<not> stops ev \<and> isl (ae_accept ev)"
  shows "AcceptLoop_from d evs = (map (\<lambda>n. Wait ((accept_delay ^^ Suc n) d)) [0..<length evs], False)"
  using assms
proof (induction evs arbitrary: d)
  case (Cons ev evs)
  have "\<not> stops ev \<and> isl (ae_accept ev)" by (rule Cons.prems) simp
  then obtain e where ev: "ae_accept ev = Inl e" "\<not> ae_ctx_done ev" "e \<noteq> ErrClosed" "ae_timer ev"
    by (auto simp: stops_def isl_def)
  have eq: "map (\<lambda>n. Wait ((accept_delay ^^ Suc n) d)) [0..<Suc (length evs)] =
      Wait (accept_delay d) # map (\<lambda>n. Wait ((accept_delay ^^ Suc n) (accept_delay d))) [0..<length evs]"
    by (simp add: upt_conv_Cons map_Suc_upt [symmetric] funpow_swap1 del: upt_Suc)
  from ev Cons.IH [of "accept_delay d"] Cons.prems show ?case
    unfolding length_Cons eq by (simp add: Let_def del: upt_Suc funpow.simps)
qed simp

section \<open>Pipe\<close>

text \<open>
  One end of a pipe: the bytes its peer has yet to deliver, those read so far, those written to it,
  whether it offers \<^verbatim>\<open>CloseWrite\<close>, whether its write side was shut down, and whether it was closed.
\<close>

record endpoint =
  ep_in :: bytes
  ep_read :: bytes
  ep_out :: bytes
  ep_closeWriter :: bool
  ep_wclosed :: bool
  ep_closed :: bool

definition new_endpoint :: "bool \<Rightarrow> bytes \<Rightarrow> endpoint" where
  "new_endpoint cw stream = \<lparr>ep_in = stream, ep_read = [], ep_out = [], ep_closeWriter = cw,
     ep_wclosed = False, ep_closed = False\<rparr>"

text \<open>Where a \<^verbatim>\<open>copyHalf\<close> is: about to read, holding a full buffer, done copying, or returned.\<close>

datatype copy_pc = Copying | Holding bytes | Finishing | CopyDone

definition copyBufferSize :: nat where "copyBufferSize = 32 * 1024"

definition write_open :: "endpoint \<Rightarrow> bool" where
  "write_open ep \<longleftrightarrow> \<not> ep_wclosed ep \<and> \<not> ep_closed ep"

text \<open>The end of \<^verbatim>\<open>copyHalf\<close>: \<^verbatim>\<open>CloseWrite\<close> if there is one, \<^verbatim>\<open>Close\<close> otherwise.\<close>

definition finish_dst :: "endpoint \<Rightarrow> endpoint" where
  "finish_dst dst = (if ep_closeWriter dst then dst\<lparr>ep_wclosed := True\<rparr> else dst\<lparr>ep_closed := True\<rparr>)"

text \<open>
  The steps of \<^verbatim>\<open>copyHalf(dst, src)\<close>. A read delivers any non-empty part of what is there, at most a buffer
  full; it fails at the end of the stream or when the endpoint has been closed. A write delivers the
  whole buffer, or fails after a part of it: only if the environment makes it fail (\<open>flt\<close>) or if the
  write side is closed.
\<close>

inductive copy_step ::
  "bool \<Rightarrow> endpoint \<times> endpoint \<times> copy_pc \<Rightarrow> endpoint \<times> endpoint \<times> copy_pc \<Rightarrow> bool" for flt :: bool where
  copy_read: "\<not> ep_closed src \<Longrightarrow> ep_in src = bs @ rest \<Longrightarrow> bs \<noteq> [] \<Longrightarrow> length bs \<le> copyBufferSize \<Longrightarrow>
    copy_step flt (src, dst, Copying) (src\<lparr>ep_in := rest, ep_read := ep_read src @ bs\<rparr>, dst, Holding bs)"
| copy_end: "ep_in src = [] \<or> ep_closed src \<Longrightarrow> copy_step flt (src, dst, Copying) (src, dst, Finishing)"
| copy_write: "write_open dst \<Longrightarrow>
    copy_step flt (src, dst, Holding bs) (src, dst\<lparr>ep_out := ep_out dst @ bs\<rparr>, Copying)"
| copy_write_err: "flt \<or> (\<not> write_open dst \<and> n = 0) \<Longrightarrow>
    copy_step flt (src, dst, Holding bs) (src, dst\<lparr>ep_out := ep_out dst @ take n bs\<rparr>, Finishing)"
| copy_finish: "copy_step flt (src, dst, Finishing) (src, finish_dst dst, CopyDone)"

text \<open>\<^verbatim>\<open>Pipe(a, b)\<close>: the two copies run concurrently; when both are done both ends are closed.\<close>

record pipe =
  end_a :: endpoint
  end_b :: endpoint
  a_to_b :: copy_pc
  b_to_a :: copy_pc
  pipe_done :: bool

inductive pipe_step :: "bool \<Rightarrow> pipe \<Rightarrow> pipe \<Rightarrow> bool" for flt :: bool where
  step_ab: "\<not> pipe_done p \<Longrightarrow> copy_step flt (end_a p, end_b p, a_to_b p) (a, b, pc) \<Longrightarrow>
    pipe_step flt p (p\<lparr>end_a := a, end_b := b, a_to_b := pc\<rparr>)"
| step_ba: "\<not> pipe_done p \<Longrightarrow> copy_step flt (end_b p, end_a p, b_to_a p) (b, a, pc) \<Longrightarrow>
    pipe_step flt p (p\<lparr>end_a := a, end_b := b, b_to_a := pc\<rparr>)"
| step_done: "\<not> pipe_done p \<Longrightarrow> a_to_b p = CopyDone \<Longrightarrow> b_to_a p = CopyDone \<Longrightarrow>
    pipe_step flt p (p\<lparr>end_a := (end_a p)\<lparr>ep_closed := True\<rparr>, end_b := (end_b p)\<lparr>ep_closed := True\<rparr>,
      pipe_done := True\<rparr>)"

definition Pipe :: "endpoint \<Rightarrow> endpoint \<Rightarrow> pipe" where
  "Pipe a b = \<lparr>end_a = a, end_b = b, a_to_b = Copying, b_to_a = Copying, pipe_done = False\<rparr>"

definition pipe_init :: "bool \<Rightarrow> bool \<Rightarrow> bytes \<Rightarrow> bytes \<Rightarrow> pipe \<Rightarrow> bool" where
  "pipe_init cwa cwb from_a from_b p \<longleftrightarrow> p = Pipe (new_endpoint cwa from_a) (new_endpoint cwb from_b)"

section \<open>One direction\<close>

text \<open>
  What holds of a direction: nothing is lost, duplicated or reordered before a failure; after an
  orderly end everything has been delivered. \<open>stream\<close> is all that the source's peer sends.
\<close>

fun held :: "copy_pc \<Rightarrow> bytes" where
  "held (Holding bs) = bs"
| "held _ = []"

definition half_ok :: "bytes \<Rightarrow> endpoint \<Rightarrow> endpoint \<Rightarrow> copy_pc \<Rightarrow> bool" where
  "half_ok stream src dst pc \<longleftrightarrow> stream = ep_read src @ ep_in src
     \<and> prefix (ep_out dst @ held pc) (ep_read src)
     \<and> (pc \<in> {Copying, Holding (held pc)} \<longrightarrow> ep_read src = ep_out dst @ held pc)"

text \<open>The same with delivery: without faults, and as long as both ends are open.\<close>

definition half_full :: "endpoint \<Rightarrow> endpoint \<Rightarrow> copy_pc \<Rightarrow> bool" where
  "half_full src dst pc \<longleftrightarrow>
     (pc \<in> {Finishing, CopyDone} \<longrightarrow> ep_in src = [] \<and> ep_out dst = ep_read src)
     \<and> (ep_wclosed dst \<longleftrightarrow> pc = CopyDone)"

inductive_cases copy_stepE: "copy_step flt (src, dst, pc) (src', dst', pc')"

lemma copy_step_ok:
  "copy_step flt (src, dst, pc) (src', dst', pc') \<Longrightarrow> half_ok stream src dst pc \<Longrightarrow> half_ok stream src' dst' pc'"
  by (erule copy_stepE) (auto simp: half_ok_def finish_dst_def take_is_prefix)

text \<open>A copy in one direction leaves what the other one depends on alone.\<close>

lemma copy_step_frame:
  "copy_step flt (src, dst, pc) (src', dst', pc') \<Longrightarrow>
     ep_out src' = ep_out src \<and> ep_wclosed src' = ep_wclosed src \<and> ep_closed src' = ep_closed src
     \<and> ep_in dst' = ep_in dst \<and> ep_read dst' = ep_read dst
     \<and> ep_closeWriter src' = ep_closeWriter src \<and> ep_closeWriter dst' = ep_closeWriter dst
     \<and> (ep_closeWriter dst \<longrightarrow> ep_closed dst' = ep_closed dst)"
  by (erule copy_stepE) (auto simp: finish_dst_def)

lemma copy_step_full:
  "copy_step False (src, dst, pc) (src', dst', pc') \<Longrightarrow> half_ok stream src dst pc \<Longrightarrow> half_full src dst pc \<Longrightarrow>
     ep_closeWriter dst \<Longrightarrow> \<not> ep_closed src \<Longrightarrow> \<not> ep_closed dst \<Longrightarrow> half_full src' dst' pc'"
  by (erule copy_stepE) (auto simp: half_ok_def half_full_def finish_dst_def write_open_def)

text \<open>Every step brings a copy closer to its end, and until then there is one.\<close>

fun copy_rank :: "copy_pc \<Rightarrow> nat" where
  "copy_rank Copying = 2"
| "copy_rank (Holding _) = 3"
| "copy_rank Finishing = 1"
| "copy_rank CopyDone = 0"

lemma copy_step_decreases:
  "copy_step flt (src, dst, pc) (src', dst', pc') \<Longrightarrow>
     2 * length (ep_in src') + copy_rank pc' < 2 * length (ep_in src) + copy_rank pc"
  by (erule copy_stepE) (auto simp: neq_Nil_conv)

lemma copy_step_enabled:
  assumes "pc \<noteq> CopyDone"
  shows "\<exists>x. copy_step flt (src, dst, pc) x"
proof (cases pc)
  case Copying
  show ?thesis
  proof (cases "ep_in src = [] \<or> ep_closed src")
    case True
    with Copying show ?thesis by (auto intro: copy_end)
  next
    case False
    then have "copy_step flt (src, dst, Copying)
        (src\<lparr>ep_in := tl (ep_in src), ep_read := ep_read src @ [hd (ep_in src)]\<rparr>, dst, Holding [hd (ep_in src)])"
      by (intro copy_read) (auto simp: copyBufferSize_def)
    with Copying show ?thesis by blast
  qed
next
  case (Holding bs)
  then show ?thesis
    using copy_write [of dst flt src bs] copy_write_err [of flt dst 0 src bs] by blast
next
  case Finishing
  then show ?thesis by (auto intro: copy_finish)
qed (use assms in simp)

section \<open>Both directions\<close>

definition pipe_inv :: "bytes \<Rightarrow> bytes \<Rightarrow> pipe \<Rightarrow> bool" where
  "pipe_inv from_a from_b p \<longleftrightarrow>
     half_ok from_a (end_a p) (end_b p) (a_to_b p) \<and> half_ok from_b (end_b p) (end_a p) (b_to_a p)
     \<and> (pipe_done p \<longrightarrow> ep_closed (end_a p) \<and> ep_closed (end_b p) \<and> a_to_b p = CopyDone \<and> b_to_a p = CopyDone)"

definition pipe_full :: "bytes \<Rightarrow> bytes \<Rightarrow> pipe \<Rightarrow> bool" where
  "pipe_full from_a from_b p \<longleftrightarrow> pipe_inv from_a from_b p
     \<and> half_full (end_a p) (end_b p) (a_to_b p) \<and> half_full (end_b p) (end_a p) (b_to_a p)
     \<and> ep_closeWriter (end_a p) \<and> ep_closeWriter (end_b p)
     \<and> (\<not> pipe_done p \<longrightarrow> \<not> ep_closed (end_a p) \<and> \<not> ep_closed (end_b p))"

lemma half_ok_cong:
  "ep_in src' = ep_in src \<Longrightarrow> ep_read src' = ep_read src \<Longrightarrow> ep_out dst' = ep_out dst \<Longrightarrow>
     half_ok stream src' dst' pc = half_ok stream src dst pc"
  by (simp add: half_ok_def)

lemma half_full_cong:
  "ep_in src' = ep_in src \<Longrightarrow> ep_read src' = ep_read src \<Longrightarrow> ep_out dst' = ep_out dst \<Longrightarrow>
     ep_wclosed dst' = ep_wclosed dst \<Longrightarrow> half_full src' dst' pc = half_full src dst pc"
  by (simp add: half_full_def)

lemma pipe_inv_step: "pipe_step flt p p' \<Longrightarrow> pipe_inv from_a from_b p \<Longrightarrow> pipe_inv from_a from_b p'"
proof (induction rule: pipe_step.induct)
  case (step_ab p a b pc)
  with copy_step_ok [OF step_ab.hyps(2)] copy_step_frame [OF step_ab.hyps(2)] show ?case
    by (simp add: pipe_inv_def half_ok_cong [of b "end_b p" a "end_a p"])
next
  case (step_ba p b a pc)
  with copy_step_ok [OF step_ba.hyps(2)] copy_step_frame [OF step_ba.hyps(2)] show ?case
    by (simp add: pipe_inv_def half_ok_cong [of a "end_a p" b "end_b p"])
next
  case (step_done p)
  then show ?case by (simp add: pipe_inv_def half_ok_def)
qed

lemma pipe_full_step: "pipe_step False p p' \<Longrightarrow> pipe_full from_a from_b p \<Longrightarrow> pipe_full from_a from_b p'"
proof (induction rule: pipe_step.induct)
  case (step_ab p a b pc)
  have inv: "pipe_inv from_a from_b (p\<lparr>end_a := a, end_b := b, a_to_b := pc\<rparr>)"
    using pipe_inv_step [OF pipe_step.step_ab [OF step_ab.hyps]] step_ab.prems by (simp add: pipe_full_def)
  with step_ab copy_step_full [OF step_ab.hyps(2), of from_a] copy_step_frame [OF step_ab.hyps(2)] show ?case
    by (simp add: pipe_full_def pipe_inv_def half_full_cong [of b "end_b p" a "end_a p"])
next
  case (step_ba p b a pc)
  have inv: "pipe_inv from_a from_b (p\<lparr>end_a := a, end_b := b, b_to_a := pc\<rparr>)"
    using pipe_inv_step [OF pipe_step.step_ba [OF step_ba.hyps]] step_ba.prems by (simp add: pipe_full_def)
  with step_ba copy_step_full [OF step_ba.hyps(2), of from_b] copy_step_frame [OF step_ba.hyps(2)] show ?case
    by (simp add: pipe_full_def pipe_inv_def half_full_cong [of a "end_a p" b "end_b p"])
next
  case (step_done p)
  then show ?case by (simp add: pipe_full_def pipe_inv_def half_ok_def half_full_def)
qed

interpretation pipes: invariant_system "pipe_init cwa cwb from_a from_b" "pipe_step flt" "pipe_inv from_a from_b"
  for cwa cwb from_a from_b flt
proof
  show "pipe_init cwa cwb from_a from_b p \<Longrightarrow> pipe_inv from_a from_b p" for p
    by (simp add: pipe_init_def Pipe_def new_endpoint_def pipe_inv_def half_ok_def)
  show "pipe_inv from_a from_b p \<Longrightarrow> pipe_step flt p p' \<Longrightarrow> pipe_inv from_a from_b p'" for p p'
    by (rule pipe_inv_step)
qed

interpretation clean_pipes: invariant_system "pipe_init True True from_a from_b" "pipe_step False"
  "pipe_full from_a from_b" for from_a from_b
proof
  show "pipe_init True True from_a from_b p \<Longrightarrow> pipe_full from_a from_b p" for p
    by (simp add: pipe_init_def Pipe_def new_endpoint_def pipe_full_def pipe_inv_def half_ok_def half_full_def)
  show "pipe_full from_a from_b p \<Longrightarrow> pipe_step False p p' \<Longrightarrow> pipe_full from_a from_b p'" for p p'
    by (rule pipe_full_step)
qed

text \<open>How far a pipe is from its end.\<close>

definition pipe_rank :: "pipe \<Rightarrow> nat" where
  "pipe_rank p = 2 * length (ep_in (end_a p)) + copy_rank (a_to_b p)
     + 2 * length (ep_in (end_b p)) + copy_rank (b_to_a p) + (if pipe_done p then 0 else 1)"

lemma pipe_step_decreases: "pipe_step flt p p' \<Longrightarrow> pipe_rank p' < pipe_rank p"
proof (induction rule: pipe_step.induct)
  case (step_ab p a b pc)
  with copy_step_decreases [OF step_ab.hyps(2)] copy_step_frame [OF step_ab.hyps(2)] show ?case
    by (simp add: pipe_rank_def)
next
  case (step_ba p b a pc)
  with copy_step_decreases [OF step_ba.hyps(2)] copy_step_frame [OF step_ba.hyps(2)] show ?case
    by (simp add: pipe_rank_def)
qed (simp add: pipe_rank_def)

lemma pipe_step_enabled:
  assumes "\<not> pipe_done p"
  shows "\<exists>p'. pipe_step flt p p'"
proof (cases "a_to_b p = CopyDone \<and> b_to_a p = CopyDone")
  case True
  then show ?thesis using step_done [OF assms] by blast
next
  case False
  then show ?thesis
    using copy_step_enabled [of "a_to_b p" flt "end_a p" "end_b p"]
      copy_step_enabled [of "b_to_a p" flt "end_b p" "end_a p"] step_ab [OF assms] step_ba [OF assms]
    by (metis prod_cases3)
qed

interpretation ending_pipes: terminating_system "pipe_init cwa cwb from_a from_b" "pipe_step flt" "pipe_inv from_a from_b"
  pipe_rank pipe_done for cwa cwb from_a from_b flt
proof
  show "pipe_inv from_a from_b p \<Longrightarrow> pipe_step flt p p' \<Longrightarrow> pipe_rank p' < pipe_rank p" for p p'
    by (rule pipe_step_decreases)
  show "pipe_inv from_a from_b p \<Longrightarrow> \<not> pipe_done p \<Longrightarrow> \<exists>p'. pipe_step flt p p'" for p by (rule pipe_step_enabled)
qed

lemma pipe_start_reach:
  "reach (pipe_init cwa cwb from_a from_b) step (Pipe (new_endpoint cwa from_a) (new_endpoint cwb from_b))"
  by (rule reach_init) (simp add: pipe_init_def)

text \<open>Between two ends that support half-close an orderly pipe delivers everything.\<close>

lemma clean_pipe_delivers:
  assumes "reach (pipe_init True True from_a from_b) (pipe_step False) p" and "pipe_done p"
  shows "ep_out (end_b p) = from_a \<and> ep_out (end_a p) = from_b"
  using clean_pipes.inv_reach [OF assms(1)] assms(2)
  by (auto simp: pipe_full_def pipe_inv_def half_full_def half_ok_def)

text \<open>
  Without half-close on one end: its peer's end of sending closes it before the reply is read. The pipe may be a part
  of a larger system \<open>R\<close>, in which its steps are possible unless they end a copy out of an end that is still open.
\<close>

lemma truncating_chain:
  assumes a: "ep_in a = []" and b: "\<not> ep_closeWriter b"
    and lift: "\<And>q q'. pipe_step False q q' \<Longrightarrow> b_to_a q = Copying \<and> b_to_a q' = Finishing \<longrightarrow> ep_closed (end_b q) \<Longrightarrow>
      R (part q) (part q')"
  shows "\<exists>q. R\<^sup>*\<^sup>* (part (Pipe a b)) (part q) \<and> pipe_done q \<and> ep_out (end_a q) = ep_out a"
proof -
  define p1 where "p1 = (Pipe a b)\<lparr>a_to_b := Finishing\<rparr>"
  define p2 where "p2 = p1\<lparr>end_b := finish_dst b, a_to_b := CopyDone\<rparr>"
  define p3 where "p3 = p2\<lparr>b_to_a := Finishing\<rparr>"
  define p4 where "p4 = p3\<lparr>end_a := finish_dst a, b_to_a := CopyDone\<rparr>"
  define p5 where "p5 = p4\<lparr>end_a := (end_a p4)\<lparr>ep_closed := True\<rparr>, end_b := (end_b p4)\<lparr>ep_closed := True\<rparr>,
      pipe_done := True\<rparr>"
  note defs = p1_def p2_def p3_def p4_def Pipe_def
  have "R (part (Pipe a b)) (part p1)"
    using step_ab [of "Pipe a b" False a b Finishing] copy_end [of a False b] a by (intro lift) (simp_all add: defs)
  moreover have "R (part p1) (part p2)"
    using step_ab [of p1 False a "finish_dst b" CopyDone] copy_finish [of False a b] by (intro lift) (simp_all add: defs)
  moreover have "R (part p2) (part p3)"
    using step_ba [of p2 False "finish_dst b" a Finishing] copy_end [of "finish_dst b" False a] b
    by (intro lift) (simp_all add: defs finish_dst_def)
  moreover have "R (part p3) (part p4)"
    using step_ba [of p3 False "finish_dst b" "finish_dst a" CopyDone] copy_finish [of False "finish_dst b" a]
    by (intro lift) (simp_all add: defs)
  moreover have "R (part p4) (part p5)"
    unfolding p5_def by (intro lift step_done) (simp_all add: defs)
  ultimately have "R\<^sup>*\<^sup>* (part (Pipe a b)) (part p5)"
    by (meson rtranclp.rtrancl_into_rtrancl rtranclp.rtrancl_refl)
  moreover have "pipe_done p5" "ep_out (end_a p5) = ep_out a" by (simp_all add: p5_def defs finish_dst_def)
  ultimately show ?thesis by blast
qed

lemma truncating_run:
  "\<exists>p. reach (pipe_init True False [] reply) (pipe_step False) p \<and> pipe_done p \<and> ep_out (end_a p) = []"
proof -
  from truncating_chain [of "new_endpoint True []" "new_endpoint False reply" "pipe_step False" "\<lambda>q. q"]
  obtain q where "(pipe_step False)\<^sup>*\<^sup>* (Pipe (new_endpoint True []) (new_endpoint False reply)) q" "pipe_done q"
      "ep_out (end_a q) = []" by (auto simp: new_endpoint_def)
  then show ?thesis using reach_rtranclp [OF _ pipe_start_reach] by blast
qed

lemma pipe_inv_prefix:
  "pipe_inv from_a from_b p \<Longrightarrow> prefix (ep_out (end_b p)) from_a \<and> prefix (ep_out (end_a p)) from_b"
  by (auto simp: pipe_inv_def half_ok_def dest: append_prefixD)

section \<open>Properties\<close>

text \<open>
  The accept loop serves what it accepts. For every sequence of events, the connections handed to
  goroutines are exactly those accepted before the first event that ends the loop, in order; the loop
  returns exactly when such an event occurs (the context is done, or the listener is closed); every
  wait is between 5 ms and 1 s.
\<close>

theorem accept_loop_serves:
  "handled (fst (AcceptLoop evs)) = accepted_conns (takeWhile (Not \<circ> stops) evs)
   \<and> (snd (AcceptLoop evs) \<longleftrightarrow> list_ex stops evs)
   \<and> (\<forall>w. Wait w \<in> set (fst (AcceptLoop evs)) \<longrightarrow> 5000000 \<le> w \<and> w \<le> 1000000000)"
  using AcceptLoop_from_handled [of 0 evs] AcceptLoop_from_returns [of 0 evs] AcceptLoop_from_waits [of 0 _ evs]
  by (auto simp: AcceptLoop_def minAcceptDelay_def maxAcceptDelay_def)

theorem accept_loop_serves_witness:
  "handled (fst (AcceptLoop [\<lparr>ae_accept = Inr (7::nat), ae_ctx_done = False, ae_timer = True\<rparr>,
      \<lparr>ae_accept = Inl (OtherIO 0), ae_ctx_done = False, ae_timer = True\<rparr>])) = [7]
   \<and> 5000000 \<le> (5000000 :: int)"
proof -
  let ?evs = "[\<lparr>ae_accept = Inr (7::nat), ae_ctx_done = False, ae_timer = True\<rparr>,
      \<lparr>ae_accept = Inl (OtherIO 0), ae_ctx_done = False, ae_timer = True\<rparr>]"
  have "Wait 5000000 \<in> set (fst (AcceptLoop ?evs))"
    by (simp add: AcceptLoop_def accept_delay_def minAcceptDelay_def maxAcceptDelay_def)
  with accept_loop_serves [of ?evs] show ?thesis
    by (simp add: stops_def accepted_conns_def)
qed

text \<open>
  Transient accept failures back off exponentially: the \<open>n\<close>-th consecutive wait is 5 ms doubled
  \<open>n - 1\<close> times, capped at one second, and the loop keeps running.
\<close>

theorem accept_loop_backoff:
  assumes "\<And>ev. ev \<in> set evs \<Longrightarrow> \<not> stops ev \<and> isl (ae_accept ev)"
  shows "AcceptLoop evs = (map (\<lambda>n. Wait (min (5000000 * 2 ^ n) 1000000000)) [0..<length evs], False)"
proof -
  have "(accept_delay ^^ Suc n) 0 = (accept_delay ^^ n) minAcceptDelay" for n
    by (simp add: funpow_swap1 accept_delay_def minAcceptDelay_def maxAcceptDelay_def)
  then have "(accept_delay ^^ Suc n) 0 = min (5000000 * 2 ^ n) 1000000000" for n
    by (simp only: accept.nxt_iterate) (simp add: minAcceptDelay_def maxAcceptDelay_def)
  then show ?thesis
    using AcceptLoop_from_failures [OF assms, of evs 0] by (simp only: AcceptLoop_def)
qed

theorem accept_loop_backoff_witness:
  "AcceptLoop (replicate 2 \<lparr>ae_accept = Inl (OtherIO 0) :: io_error + nat, ae_ctx_done = False, ae_timer = True\<rparr>) =
     ([Wait 5000000, Wait 10000000], False)"
proof -
  let ?evs = "replicate 2 \<lparr>ae_accept = Inl (OtherIO 0) :: io_error + nat, ae_ctx_done = False, ae_timer = True\<rparr>"
  have "AcceptLoop ?evs = (map (\<lambda>n. Wait (min (5000000 * 2 ^ n) 1000000000)) [0..<length ?evs], False)"
    by (rule accept_loop_backoff) (auto simp: stops_def)
  then show ?thesis by (simp add: upt_rec)
qed

text \<open>
  A pipe never corrupts a stream. Whatever fails, whenever: what has been written to each end is at
  every moment a prefix of what the other end's peer sent, and when \<^verbatim>\<open>Pipe\<close> returns both ends are
  closed.
\<close>

theorem pipe_prefix:
  assumes "reach (pipe_init cwa cwb from_a from_b) (pipe_step flt) p"
  shows "prefix (ep_out (end_b p)) from_a \<and> prefix (ep_out (end_a p)) from_b
       \<and> (pipe_done p \<longrightarrow> ep_closed (end_a p) \<and> ep_closed (end_b p))"
  using pipe_inv_prefix [OF pipes.inv_reach [OF assms]] pipes.inv_reach [OF assms] by (auto simp: pipe_inv_def)

theorem pipe_prefix_witness:
  "\<exists>p. reach (pipe_init True False [1, 2] [3]) (pipe_step True) p \<and> pipe_done p
     \<and> prefix (ep_out (end_b p)) [1, 2] \<and> ep_closed (end_a p)"
proof -
  obtain p where "(pipe_step True)\<^sup>*\<^sup>* (Pipe (new_endpoint True [1, 2]) (new_endpoint False [3])) p" "pipe_done p"
    using ending_pipes.runs_to_end [OF pipes.inv_reach [OF pipe_start_reach]] by blast
  moreover from this(1) have r: "reach (pipe_init True False [1, 2] [3]) (pipe_step True) p"
    by (rule reach_rtranclp [OF _ pipe_start_reach])
  ultimately show ?thesis using pipe_prefix [OF r] by blast
qed

text \<open>
  A pipe always comes to an end. In every state of a pipe that has not returned a step is possible,
  and every step decreases a rank, so each pipe over finite streams returns after at most
  \<open>2 (m + n) + 5\<close> steps, whatever fails.
\<close>

theorem pipe_terminates:
  "(\<not> pipe_done p \<longrightarrow> (\<exists>p'. pipe_step flt p p')) \<and> (\<forall>p'. pipe_step flt p p' \<longrightarrow> pipe_rank p' < pipe_rank p)
   \<and> pipe_rank (Pipe (new_endpoint cwa from_a) (new_endpoint cwb from_b)) = 2 * (length from_a + length from_b) + 5"
  using pipe_step_enabled pipe_step_decreases by (auto simp: pipe_rank_def Pipe_def new_endpoint_def)

theorem pipe_terminates_witness:
  "\<exists>p'. pipe_step True (Pipe (new_endpoint True [1]) (new_endpoint True [])) p'"
  using pipe_terminates [of "Pipe (new_endpoint True [1]) (new_endpoint True [])" True]
  by (simp add: Pipe_def)

text \<open>
  Between two ends that support half-close, and when no write fails, nothing is lost: \<^verbatim>\<open>Pipe\<close> can
  always run to its end, and once it has returned each side has received exactly what the other sent.
\<close>

theorem pipe_delivers:
  assumes "reach (pipe_init True True from_a from_b) (pipe_step False) p"
  shows "(\<exists>p'. (pipe_step False)\<^sup>*\<^sup>* p p' \<and> pipe_done p')
       \<and> (pipe_done p \<longrightarrow> ep_out (end_b p) = from_a \<and> ep_out (end_a p) = from_b)"
  using clean_pipe_delivers [OF assms] ending_pipes.runs_to_end [OF pipes.inv_reach [OF assms]] by blast

theorem pipe_delivers_witness:
  "\<exists>p :: pipe. pipe_done p \<and> ep_out (end_b p) = [1, 2] \<and> ep_out (end_a p) = [3]"
proof -
  let ?p = "Pipe (new_endpoint True [1, 2]) (new_endpoint True [3])"
  obtain p where run: "(pipe_step False)\<^sup>*\<^sup>* ?p p" "pipe_done p"
    using pipe_delivers [OF pipe_start_reach, of "[1, 2]" "[3]"] by blast
  from pipe_delivers [OF reach_rtranclp [OF run(1) pipe_start_reach]] run(2) show ?thesis by blast
qed

text \<open>
  Without half-close a reply can be lost. If one end does not offer \<^verbatim>\<open>CloseWrite\<close>, as the streams of
  the multiplexed transports do not, then a peer that finishes sending first ends the whole pipe: there is a
  run without any failure in which a reply that was sent in full is not delivered at all.
\<close>

theorem pipe_half_close_truncates:
  "\<exists>p. reach (pipe_init True False [] reply) (pipe_step False) p \<and> pipe_done p \<and> ep_out (end_a p) = []"
  by (rule truncating_run)

end
