(* ===== verification/Tlsutil.thy ===== *)
theory Tlsutil
  imports Gtun_Prelude
begin

text \<open>
  Package \<^verbatim>\<open>tlsutil\<close>, file \<^verbatim>\<open>internal/tlsutil/tlsutil.go\<close>: generation of the self-signed certificate,
  the server's TLS configuration, and the client's configuration that pins the server's certificate.
  Key generation, X.509 and the PEM encoding are parameters; files and their permissions are modelled.
\<close>

unbundle bit_operations_syntax

section \<open>Files with permissions\<close>

type_synonym mode = "16 word"

record os_file =
  file_mode :: mode
  file_data :: bytes

type_synonym filesystem = "string \<rightharpoonup> os_file"

text \<open>
  \<^verbatim>\<open>os.WriteFile\<close>: a new file gets the given permissions less the process's umask; an existing one is
  truncated and keeps its permissions. A path stands for the file it names. What the operating system has in
  store is an argument: the file cannot be opened, or writing fails after some of the data, or all goes well.
\<close>

datatype write_outcome = Written | OpenFails io_error | WriteFails io_error nat

definition put_file :: "mode \<Rightarrow> string \<Rightarrow> bytes \<Rightarrow> mode \<Rightarrow> filesystem \<Rightarrow> filesystem" where
  "put_file umask path data perm fs = fs(path \<mapsto>
     (case fs path of
        None \<Rightarrow> \<lparr>file_mode = perm AND NOT umask, file_data = data\<rparr>
      | Some f \<Rightarrow> f\<lparr>file_data := data\<rparr>))"

definition WriteFile ::
  "mode \<Rightarrow> write_outcome \<Rightarrow> string \<Rightarrow> bytes \<Rightarrow> mode \<Rightarrow> filesystem \<Rightarrow> io_error option \<times> filesystem" where
  "WriteFile umask out path data perm fs =
     (case out of
        OpenFails e \<Rightarrow> (Some e, fs)
      | WriteFails e n \<Rightarrow> (Some e, put_file umask path (take n data) perm fs)
      | Written \<Rightarrow> (None, put_file umask path data perm fs))"

lemma WriteFile_None:
  "WriteFile umask out path data perm fs = (None, fs') \<longleftrightarrow> out = Written \<and> fs' = put_file umask path data perm fs"
  by (auto simp: WriteFile_def split: write_outcome.splits)

lemma WriteFile_other: "WriteFile umask out path data perm fs = (r, fs') \<Longrightarrow> q \<noteq> path \<Longrightarrow> fs' q = fs q"
  by (auto simp: WriteFile_def put_file_def split: write_outcome.splits)

lemma put_file_data: "map_option file_data (put_file umask path data perm fs q) =
    (if q = path then Some data else map_option file_data (fs q))"
  by (simp add: put_file_def split: option.splits)

lemma put_file_other: "q \<noteq> path \<Longrightarrow> put_file umask path data perm fs q = fs q"
  by (simp add: put_file_def)

lemma put_file_mode: "\<exists>f. put_file umask path data perm fs path = Some f \<and>
    file_mode f = (case fs path of None \<Rightarrow> perm AND NOT umask | Some g \<Rightarrow> file_mode g)"
  by (simp add: put_file_def split: option.splits)

section \<open>GenerateSelfSigned\<close>

datatype tls_error =
    GenerateKey io_error
  | GenerateSerial io_error
  | CreateCertificate io_error
  | MarshalKey io_error
  | WriteKey io_error
  | WriteCertificate io_error
  | LoadKeyPair io_error
  | ReadPinned io_error
  | NoPEMCertificate string
  | CertificateMismatch

text \<open>The fields of \<^verbatim>\<open>x509.Certificate\<close> that the template sets. Times are in nanoseconds.\<close>

datatype key_usage = KeyUsageDigitalSignature
datatype ext_key_usage = ExtKeyUsageServerAuth

record cert_template =
  ct_SerialNumber :: nat
  ct_CommonName :: string
  ct_DNSNames :: "string list"
  ct_NotBefore :: int
  ct_NotAfter :: int
  ct_KeyUsage :: key_usage
  ct_ExtKeyUsage :: "ext_key_usage list"
  ct_BasicConstraintsValid :: bool

definition certLifetime :: int where "certLifetime = 10 * 365 * 24 * (60 * 60 * 10 ^ 9)"

definition certificate_template :: "nat \<Rightarrow> int \<Rightarrow> cert_template" where
  "certificate_template serial now =
     \<lparr>ct_SerialNumber = serial, ct_CommonName = ''localhost'', ct_DNSNames = [''localhost''],
      ct_NotBefore = now - 60 * 60 * 10 ^ 9, ct_NotAfter = now + certLifetime, ct_KeyUsage = KeyUsageDigitalSignature,
      ct_ExtKeyUsage = [ExtKeyUsageServerAuth], ct_BasicConstraintsValid = True\<rparr>"

text \<open>
  What the standard library answers on one run: the key, a random number below a bound, the time, the certificate made
  from a template and signed with the key, and the key's encoding; and \<^verbatim>\<open>pem.EncodeToMemory\<close>.
\<close>

record 'k crypto =
  cr_key :: "io_error + 'k"
  cr_serial :: "nat \<Rightarrow> io_error + nat"
  cr_now :: int
  cr_certificate :: "cert_template \<Rightarrow> 'k \<Rightarrow> io_error + bytes"
  cr_marshal :: "'k \<Rightarrow> io_error + bytes"
  cr_pem :: "string \<Rightarrow> bytes \<Rightarrow> bytes"

definition GenerateSelfSigned ::
  "'k crypto \<Rightarrow> mode \<Rightarrow> write_outcome \<Rightarrow> write_outcome \<Rightarrow> string \<Rightarrow> string \<Rightarrow> filesystem \<Rightarrow>
     tls_error option \<times> filesystem" where
  "GenerateSelfSigned C umask key_out cert_out certPath keyPath fs =
     (case cr_key C of
        Inl e \<Rightarrow> (Some (GenerateKey e), fs)
      | Inr key \<Rightarrow>
      (case cr_serial C (2 ^ 128) of
        Inl e \<Rightarrow> (Some (GenerateSerial e), fs)
      | Inr serial \<Rightarrow>
      (case cr_certificate C (certificate_template serial (cr_now C)) key of
        Inl e \<Rightarrow> (Some (CreateCertificate e), fs)
      | Inr der \<Rightarrow>
      (case cr_marshal C key of
        Inl e \<Rightarrow> (Some (MarshalKey e), fs)
      | Inr keyDER \<Rightarrow>
      (case WriteFile umask key_out keyPath (cr_pem C ''EC PRIVATE KEY'' keyDER) 0x180 fs of
        (Some e, fs) \<Rightarrow> (Some (WriteKey e), fs)
      | (None, fs) \<Rightarrow>
      (case WriteFile umask cert_out certPath (cr_pem C ''CERTIFICATE'' der) 0x1A4 fs of
        (Some e, fs) \<Rightarrow> (Some (WriteCertificate e), fs)
      | (None, fs) \<Rightarrow> (None, fs)))))))"

section \<open>TLS configurations\<close>

text \<open>The fields of \<^verbatim>\<open>tls.Config\<close> that the package sets; a certificate is its DER encoding.\<close>

datatype tls_version = VersionTLS12 | VersionTLS13

record 'c tls_config =
  tc_MinVersion :: tls_version
  tc_Certificates :: "'c list"
  tc_NextProtos :: "string list"
  tc_InsecureSkipVerify :: bool
  tc_VerifyConnection :: "(bytes list \<Rightarrow> tls_error option) option"

definition ServerConfig ::
  "(string \<Rightarrow> string \<Rightarrow> io_error + 'c) \<Rightarrow> string \<Rightarrow> string \<Rightarrow> string list \<Rightarrow> tls_error + 'c tls_config" where
  "ServerConfig loadX509KeyPair certPath keyPath nextProtos =
     (case loadX509KeyPair certPath keyPath of
        Inl e \<Rightarrow> Inl (LoadKeyPair e)
      | Inr cert \<Rightarrow> Inr \<lparr>tc_MinVersion = VersionTLS13, tc_Certificates = [cert], tc_NextProtos = nextProtos,
                        tc_InsecureSkipVerify = False, tc_VerifyConnection = None\<rparr>)"

text \<open>The closure \<^verbatim>\<open>VerifyConnection\<close>; its argument are the raw certificates the peer presented.\<close>

definition verify_pinned :: "bytes \<Rightarrow> bytes list \<Rightarrow> tls_error option" where
  "verify_pinned pinned peerCertificates =
     (if length peerCertificates = 0 \<or> peerCertificates ! 0 \<noteq> pinned then Some CertificateMismatch else None)"

definition PinnedClientConfig ::
  "(bytes \<Rightarrow> (string \<times> bytes) option) \<Rightarrow> (string \<Rightarrow> io_error + bytes) \<Rightarrow> string \<Rightarrow> string list \<Rightarrow>
     tls_error + 'c tls_config" where
  "PinnedClientConfig pem_Decode readFile certPath nextProtos =
     (case readFile certPath of
        Inl e \<Rightarrow> Inl (ReadPinned e)
      | Inr data \<Rightarrow>
          (case pem_Decode data of
             None \<Rightarrow> Inl (NoPEMCertificate certPath)
           | Some (ty, der) \<Rightarrow>
               if ty \<noteq> ''CERTIFICATE'' then Inl (NoPEMCertificate certPath)
               else Inr \<lparr>tc_MinVersion = VersionTLS13, tc_Certificates = [], tc_NextProtos = nextProtos,
                         tc_InsecureSkipVerify = True, tc_VerifyConnection = Some (verify_pinned der)\<rparr>))"

text \<open>
  Whether a client with a given configuration goes on after the peer presented its chain. With
  \<^verbatim>\<open>InsecureSkipVerify\<close> the library's own check, \<open>chain_ok\<close>, is skipped and only \<^verbatim>\<open>VerifyConnection\<close> counts.
\<close>

definition client_accepts :: "'c tls_config \<Rightarrow> bool \<Rightarrow> bytes list \<Rightarrow> bool" where
  "client_accepts cfg chain_ok certs \<longleftrightarrow> (tc_InsecureSkipVerify cfg \<or> chain_ok)
     \<and> (case tc_VerifyConnection cfg of None \<Rightarrow> True | Some verify \<Rightarrow> verify certs = None)"

lemma verify_pinned_None: "verify_pinned pinned certs = None \<longleftrightarrow> (\<exists>rest. certs = pinned # rest)"
  by (cases certs) (auto simp: verify_pinned_def)

lemma PinnedClientConfig_Inr:
  "PinnedClientConfig dec rf path np = Inr cfg \<longleftrightarrow>
     (\<exists>data der. rf path = Inr data \<and> dec data = Some (''CERTIFICATE'', der)
        \<and> cfg = \<lparr>tc_MinVersion = VersionTLS13, tc_Certificates = [], tc_NextProtos = np,
                 tc_InsecureSkipVerify = True, tc_VerifyConnection = Some (verify_pinned der)\<rparr>)"
  unfolding PinnedClientConfig_def by (auto split: sum.splits option.splits prod.splits if_splits)

lemma client_accepts_pinned:
  "PinnedClientConfig dec rf path np = Inr cfg \<Longrightarrow> rf path = Inr data \<Longrightarrow> dec data = Some (ty, der) \<Longrightarrow>
     client_accepts cfg chain_ok certs \<longleftrightarrow> (\<exists>rest. certs = der # rest)"
  by (auto simp: PinnedClientConfig_Inr client_accepts_def verify_pinned_None)

text \<open>The files a successful run leaves.\<close>

lemma GenerateSelfSigned_None:
  assumes "GenerateSelfSigned C umask ko co certPath keyPath fs = (None, fs')"
  shows "\<exists>key serial der keyDER. cr_key C = Inr key \<and> cr_serial C (2 ^ 128) = Inr serial
    \<and> cr_certificate C (certificate_template serial (cr_now C)) key = Inr der \<and> cr_marshal C key = Inr keyDER
    \<and> fs' = put_file umask certPath (cr_pem C ''CERTIFICATE'' der) 0x1A4
         (put_file umask keyPath (cr_pem C ''EC PRIVATE KEY'' keyDER) 0x180 fs)"
  using assms unfolding GenerateSelfSigned_def
  by (auto simp: WriteFile_None split: sum.splits prod.splits option.splits if_splits)

lemma GenerateSelfSigned_key_mode:
  assumes "GenerateSelfSigned C umask ko co certPath keyPath fs = (None, fs')" and "certPath \<noteq> keyPath"
  shows "\<exists>f. fs' keyPath = Some f \<and>
    file_mode f = (case fs keyPath of None \<Rightarrow> 0x180 AND NOT umask | Some g \<Rightarrow> file_mode g)"
  using GenerateSelfSigned_None [OF assms(1)] put_file_mode assms(2) by (auto simp: put_file_other)

section \<open>Properties\<close>

text \<open>Reading a file back, and a trivial encoding for the witnesses.\<close>

definition readFile :: "filesystem \<Rightarrow> string \<Rightarrow> io_error + bytes" where
  "readFile fs path = (case fs path of None \<Rightarrow> Inl (OtherIO 2) | Some f \<Rightarrow> Inr (file_data f))"

lemma readFile_data: "map_option file_data (fs p) = Some d \<Longrightarrow> readFile fs p = Inr d"
  by (auto simp: readFile_def)

definition demo_pem :: "string \<Rightarrow> bytes \<Rightarrow> bytes" where
  "demo_pem ty der = of_nat (length ty) # bytes_of ty @ der"

definition demo_pem_Decode :: "bytes \<Rightarrow> (string \<times> bytes) option" where
  "demo_pem_Decode bs = (case bs of [] \<Rightarrow> None
     | n # r \<Rightarrow> Some (string_of (take (unat n) r), drop (unat n) r))"

lemma demo_pem_Decode_pem: "demo_pem_Decode (demo_pem ''CERTIFICATE'' der) = Some (''CERTIFICATE'', der)"
  by (simp add: demo_pem_Decode_def demo_pem_def take_drop_append_eq(1) [where a = "bytes_of ''CERTIFICATE''"]
      take_drop_append_eq(2) [where a = "bytes_of ''CERTIFICATE''"])

definition demo_crypto :: "unit crypto" where
  "demo_crypto = \<lparr>cr_key = Inr (), cr_serial = \<lambda>_. Inr 5, cr_now = 0, cr_certificate = \<lambda>_ _. Inr [1, 2, 3],
     cr_marshal = \<lambda>_. Inr [4], cr_pem = demo_pem\<rparr>"

text \<open>
  C37. Certificate pinning, end to end. After a successful \<^verbatim>\<open>GenerateSelfSigned\<close>, a
  client configured from the certificate file accepts a TLS connection exactly when the first certificate
  the server presents is, byte for byte, the one that was generated; the outcome of the usual chain
  verification plays no part. Assumed of the PEM package: decoding inverts encoding.
\<close>

theorem tls_pinning:
  assumes pem: "\<And>der. pem_Decode (cr_pem C ''CERTIFICATE'' der) = Some (''CERTIFICATE'', der)"
    and gen: "GenerateSelfSigned C umask ko co certPath keyPath fs = (None, fs')"
  shows "\<exists>key serial der (cfg :: 'c tls_config). cr_key C = Inr key \<and> cr_serial C (2 ^ 128) = Inr serial
    \<and> cr_certificate C (certificate_template serial (cr_now C)) key = Inr der
    \<and> PinnedClientConfig pem_Decode (readFile fs') certPath nextProtos = Inr cfg
    \<and> (\<forall>chain_ok certs. client_accepts cfg chain_ok certs \<longleftrightarrow> (\<exists>rest. certs = der # rest))"
proof -
  from GenerateSelfSigned_None [OF gen] obtain key serial der keyDER
    where c: "cr_key C = Inr key" "cr_serial C (2 ^ 128) = Inr serial" "cr_certificate C (certificate_template serial (cr_now C)) key = Inr der"
      and fs': "fs' = put_file umask certPath (cr_pem C ''CERTIFICATE'' der) 0x1A4
         (put_file umask keyPath (cr_pem C ''EC PRIVATE KEY'' keyDER) 0x180 fs)"
    by blast
  have rf: "readFile fs' certPath = Inr (cr_pem C ''CERTIFICATE'' der)"
    by (intro readFile_data) (simp add: fs' put_file_data)
  with pem obtain cfg :: "'c tls_config" where cfg: "PinnedClientConfig pem_Decode (readFile fs') certPath nextProtos = Inr cfg"
    by (simp add: PinnedClientConfig_Inr)
  show ?thesis
    by (intro exI conjI allI) (rule c cfg client_accepts_pinned [OF cfg rf pem])+
qed

theorem tls_pinning_witness:
  "\<exists>(cfg :: unit tls_config) fs'. GenerateSelfSigned demo_crypto 0 Written Written ''c'' ''k'' Map.empty = (None, fs')
     \<and> PinnedClientConfig demo_pem_Decode (readFile fs') ''c'' [] = Inr cfg
     \<and> client_accepts cfg False [[1, 2, 3]] \<and> \<not> client_accepts cfg True [[9]]"
proof -
  obtain fs' where gen: "GenerateSelfSigned demo_crypto 0 Written Written ''c'' ''k'' Map.empty = (None, fs')"
    by (simp add: GenerateSelfSigned_def demo_crypto_def WriteFile_def)
  have "demo_pem_Decode (cr_pem demo_crypto ''CERTIFICATE'' der) = Some (''CERTIFICATE'', der)" for der
    by (simp add: demo_crypto_def demo_pem_Decode_pem)
  from tls_pinning [of demo_pem_Decode, OF this gen, of "[]"] obtain cfg :: "unit tls_config"
    where "PinnedClientConfig demo_pem_Decode (readFile fs') ''c'' [] = Inr cfg"
      and "\<And>ok certs. client_accepts cfg ok certs \<longleftrightarrow> (\<exists>rest. certs = [1, 2, 3] # rest)"
    by (auto simp: demo_crypto_def)
  with gen show ?thesis by auto
qed

text \<open>
  C40. Who can read the key. If no file existed at the key's path (and the certificate goes elsewhere), then after a
  successful run the key file grants no permission to group or others, whatever the umask; a file that existed
  keeps its permissions, so that a new key written over a file that others could read is readable to them.
\<close>

theorem gencert_key_mode:
  assumes "GenerateSelfSigned C umask ko co certPath keyPath fs = (None, fs')" and "certPath \<noteq> keyPath"
  shows "\<exists>f. fs' keyPath = Some f \<and> (fs keyPath = None \<longrightarrow> file_mode f AND 0x3F = 0)
    \<and> (\<forall>old. fs keyPath = Some old \<longrightarrow> file_mode f = file_mode old)"
proof -
  have "(0x180 AND NOT umask) AND 0x3F = (0x180 AND 0x3F) AND NOT umask" for umask :: mode
    by (simp add: ac_simps del: and_numerals)
  then have "(0x180 AND NOT umask) AND 0x3F = 0" by simp
  with GenerateSelfSigned_key_mode [OF assms] show ?thesis by (auto split: option.splits)
qed

theorem gencert_key_mode_witness:
  "(\<exists>f fs'. GenerateSelfSigned demo_crypto 0 Written Written ''c'' ''k'' Map.empty = (None, fs')
     \<and> fs' ''k'' = Some f \<and> file_mode f AND 0x3F = 0)
   \<and> (\<exists>f fs'. GenerateSelfSigned demo_crypto 0x12 Written Written ''c'' ''k''
        [''k'' \<mapsto> \<lparr>file_mode = 0x1A4, file_data = []\<rparr>] = (None, fs') \<and> fs' ''k'' = Some f \<and> file_mode f = 0x1A4)"
proof -
  have gen: "\<exists>fs'. GenerateSelfSigned demo_crypto umask Written Written ''c'' ''k'' fs = (None, fs')" for umask fs
    by (simp add: GenerateSelfSigned_def demo_crypto_def WriteFile_def)
  obtain fs1 fs2 where
    g1: "GenerateSelfSigned demo_crypto 0 Written Written ''c'' ''k'' Map.empty = (None, fs1)" and
    g2: "GenerateSelfSigned demo_crypto 0x12 Written Written ''c'' ''k'' [''k'' \<mapsto> \<lparr>file_mode = 0x1A4, file_data = []\<rparr>] = (None, fs2)"
    using gen by blast
  show ?thesis using gencert_key_mode [OF g1] gencert_key_mode [OF g2] g1 g2 by auto
qed

text \<open>
  What a failed \<^verbatim>\<open>GenerateSelfSigned\<close> leaves. No path but the two it was given changes. Before the key is written
  nothing changes at all; the certificate's path changes only when writing it is what failed, and by then the
  key's file holds the new key in full.
\<close>

lemma GenerateSelfSigned_Some:
  assumes "GenerateSelfSigned C umask ko co certPath keyPath fs = (Some e, fs')"
  shows "fs' = fs \<and> (\<forall>x. e \<noteq> WriteKey x \<and> e \<noteq> WriteCertificate x)
    \<or> (\<exists>x data. e = WriteKey x \<and> WriteFile umask ko keyPath data 0x180 fs = (Some x, fs'))
    \<or> (\<exists>x key keyDER data. e = WriteCertificate x \<and> cr_key C = Inr key \<and> cr_marshal C key = Inr keyDER
         \<and> WriteFile umask co certPath data 0x1A4 (put_file umask keyPath (cr_pem C ''EC PRIVATE KEY'' keyDER) 0x180 fs)
             = (Some x, fs'))"
  using assms unfolding GenerateSelfSigned_def
  by (auto simp: WriteFile_None split: sum.splits prod.splits option.splits)

theorem gencert_failure:
  assumes gen: "GenerateSelfSigned C umask ko co certPath keyPath fs = (Some e, fs')" and "certPath \<noteq> keyPath"
  shows "(\<forall>q. q \<noteq> certPath \<and> q \<noteq> keyPath \<longrightarrow> fs' q = fs q)
     \<and> ((\<forall>x. e \<noteq> WriteKey x \<and> e \<noteq> WriteCertificate x) \<longrightarrow> fs' = fs)
     \<and> ((\<forall>x. e \<noteq> WriteCertificate x) \<longrightarrow> fs' certPath = fs certPath)
     \<and> (\<forall>x. e = WriteCertificate x \<longrightarrow> (\<exists>key keyDER. cr_key C = Inr key \<and> cr_marshal C key = Inr keyDER
           \<and> map_option file_data (fs' keyPath) = Some (cr_pem C ''EC PRIVATE KEY'' keyDER)))"
  using GenerateSelfSigned_Some [OF gen] assms(2) WriteFile_other
  by (elim disjE exE conjE) (auto simp: put_file_data put_file_other WriteFile_other)

theorem gencert_failure_witness:
  "\<exists>fs'. GenerateSelfSigned demo_crypto 0 Written (WriteFails (OtherIO 1) 1) ''c'' ''k'' Map.empty =
      (Some (WriteCertificate (OtherIO 1)), fs') \<and> map_option file_data (fs' ''k'') = Some (demo_pem ''EC PRIVATE KEY'' [4])"
proof -
  have "\<exists>fs'. GenerateSelfSigned demo_crypto 0 Written (WriteFails (OtherIO 1) 1) ''c'' ''k'' Map.empty =
      (Some (WriteCertificate (OtherIO 1)), fs')"
    by (simp add: GenerateSelfSigned_def demo_crypto_def WriteFile_def)
  then obtain fs' where g: "GenerateSelfSigned demo_crypto 0 Written (WriteFails (OtherIO 1) 1) ''c'' ''k'' Map.empty =
      (Some (WriteCertificate (OtherIO 1)), fs')" ..
  from gencert_failure [OF g] g show ?thesis by (auto simp: demo_crypto_def)
qed

text \<open>The template: valid when it is made, for ten years from then, and for serving only.\<close>

theorem template_valid:
  "ct_NotBefore (certificate_template serial now) < now \<and> now < ct_NotAfter (certificate_template serial now)
   \<and> ct_NotAfter (certificate_template serial now) - now = 315360000 * 10 ^ 9
   \<and> ct_ExtKeyUsage (certificate_template serial now) = [ExtKeyUsageServerAuth]"
  by (simp add: certificate_template_def certLifetime_def)

end
