(* ===== verification/Wsconn.thy ===== *)
theory Wsconn
  imports Auth
begin

text \<open>
  The WebSocket adapter, file \<^verbatim>\<open>internal/transport/wsconn.go\<close>: a byte stream carried in binary messages. The
  WebSocket connection itself belongs to a third-party package and is a parameter: a record of the
  operations the adapter calls, with the locale \<open>websocket\<close> stating their documented behaviour. The
  adapter is shown to meet the \<open>connection\<close> contract, so everything proved of programs over a
  connection, the handshake first of all, holds over WebSocket too.
\<close>

section \<open>The operations used of a WebSocket connection\<close>

text \<open>
  \<^verbatim>\<open>NextReader\<close> yields the type of the next message and makes it the current one; \<^verbatim>\<open>ws_Read\<close> reads from the
  current message.
\<close>

record 'w websocket_ops =
  ws_NextReader :: "'w \<Rightarrow> (io_error + nat) \<times> 'w"
  ws_Read :: "'w reader"
  ws_WriteMessage :: "nat \<Rightarrow> bytes \<Rightarrow> 'w \<Rightarrow> io_error option \<times> 'w"
  ws_SetReadDeadline :: "int option \<Rightarrow> 'w \<Rightarrow> io_error option \<times> 'w"
  ws_SetWriteDeadline :: "int option \<Rightarrow> 'w \<Rightarrow> io_error option \<times> 'w"
  ws_Close :: "'w \<Rightarrow> 'w"

definition BinaryMessage :: nat where "BinaryMessage = 2"

section \<open>The adapter\<close>

text \<open>The field \<^verbatim>\<open>reader\<close> is nil between messages.\<close>

record 'w wsConn =
  wc_conn :: 'w
  wc_reader :: bool

definition newWSConn :: "'w \<Rightarrow> 'w wsConn" where
  "newWSConn w = \<lparr>wc_conn = w, wc_reader = False\<rparr>"

text \<open>The head of the loop: obtain a reader if there is none; \<open>Inr False\<close> means that the loop continues.\<close>

definition wsConn_next :: "'w websocket_ops \<Rightarrow> 'w wsConn \<Rightarrow> (io_error + bool) \<times> 'w wsConn" where
  "wsConn_next W c =
     (if wc_reader c then (Inr True, c)
      else case ws_NextReader W (wc_conn c) of
        (Inl e, w) \<Rightarrow> (Inl e, c\<lparr>wc_conn := w\<rparr>)
      | (Inr messageType, w) \<Rightarrow>
          if messageType \<noteq> BinaryMessage then (Inr False, c\<lparr>wc_conn := w\<rparr>)
          else (Inr True, c\<lparr>wc_conn := w, wc_reader := True\<rparr>))"

partial_function (option) wsConn_Read_loop ::
  "'w websocket_ops \<Rightarrow> nat \<Rightarrow> 'w wsConn \<Rightarrow> ((bytes \<times> io_error option) \<times> 'w wsConn) option" where
  "wsConn_Read_loop W n c =
     (case wsConn_next W c of
        (Inl e, c) \<Rightarrow> Some (([], Some e), c)
      | (Inr ready, c) \<Rightarrow>
          if \<not> ready then wsConn_Read_loop W n c
          else (case ws_Read W (wc_conn c) n of ((bs, err), w) \<Rightarrow>
            if err = Some EOF
            then (if bs \<noteq> [] then Some ((bs, None), c\<lparr>wc_conn := w, wc_reader := False\<rparr>)
                  else wsConn_Read_loop W n (c\<lparr>wc_conn := w, wc_reader := False\<rparr>))
            else Some ((bs, err), c\<lparr>wc_conn := w\<rparr>)))"

text \<open>
  \<^verbatim>\<open>Read\<close> as a reader. The loop always returns over a connection that meets the contract below, and the
  value given here to a call that does not is never used.
\<close>

definition wsConn_Read :: "'w websocket_ops \<Rightarrow> 'w wsConn reader" where
  "wsConn_Read W c n =
     (case wsConn_Read_loop W n c of Some x \<Rightarrow> x | None \<Rightarrow> (([], Some (OtherIO 0)), c))"

definition wsConn_Write :: "'w websocket_ops \<Rightarrow> bytes \<Rightarrow> 'w wsConn \<Rightarrow> io_error option \<times> 'w wsConn" where
  "wsConn_Write W p c =
     (case ws_WriteMessage W BinaryMessage p (wc_conn c) of (e, w) \<Rightarrow> (e, c\<lparr>wc_conn := w\<rparr>))"

definition wsConn_Close :: "'w websocket_ops \<Rightarrow> 'w wsConn \<Rightarrow> 'w wsConn" where
  "wsConn_Close W c = c\<lparr>wc_conn := ws_Close W (wc_conn c)\<rparr>"

definition wsConn_SetReadDeadline :: "'w websocket_ops \<Rightarrow> int option \<Rightarrow> 'w wsConn \<Rightarrow> io_error option \<times> 'w wsConn" where
  "wsConn_SetReadDeadline W t c = (case ws_SetReadDeadline W t (wc_conn c) of (err, w) \<Rightarrow> (err, c\<lparr>wc_conn := w\<rparr>))"

definition wsConn_SetWriteDeadline :: "'w websocket_ops \<Rightarrow> int option \<Rightarrow> 'w wsConn \<Rightarrow> io_error option \<times> 'w wsConn" where
  "wsConn_SetWriteDeadline W t c = (case ws_SetWriteDeadline W t (wc_conn c) of (err, w) \<Rightarrow> (err, c\<lparr>wc_conn := w\<rparr>))"

definition wsConn_SetDeadline :: "'w websocket_ops \<Rightarrow> int option \<Rightarrow> 'w wsConn \<Rightarrow> io_error option \<times> 'w wsConn" where
  "wsConn_SetDeadline W t c =
     (case ws_SetReadDeadline W t (wc_conn c) of
        (Some e, w) \<Rightarrow> (Some e, c\<lparr>wc_conn := w\<rparr>)
      | (None, w) \<Rightarrow> (case ws_SetWriteDeadline W t w of (e, w') \<Rightarrow> (e, c\<lparr>wc_conn := w'\<rparr>)))"

definition wsConn_ops :: "'w websocket_ops \<Rightarrow> 'w wsConn conn_ops" where
  "wsConn_ops W = \<lparr>op_Read = wsConn_Read W, op_Write = wsConn_Write W,
     op_SetDeadline = wsConn_SetDeadline W, op_Close = wsConn_Close W\<rparr>"

section \<open>The contract of a WebSocket connection\<close>

text \<open>
  The byte stream the adapter presents, given the rest of the current message and the pending messages
  with their types: what is left of the current message, then the binary messages.
\<close>

definition ws_stream :: "('w \<Rightarrow> (nat \<times> bytes) list) \<Rightarrow> ('w \<Rightarrow> bytes) \<Rightarrow> 'w wsConn \<Rightarrow> bytes" where
  "ws_stream pending rest c = (if wc_reader c then rest (wc_conn c) else [])
     @ concat (map snd (filter (\<lambda>(t, _). t = BinaryMessage) (pending (wc_conn c))))"

definition ws_todo :: "('w \<Rightarrow> nat) \<Rightarrow> 'w wsConn \<Rightarrow> nat" where
  "ws_todo budget c = 2 * budget (wc_conn c) + (if wc_reader c then 1 else 0)"

text \<open>
  A connection has a rest of the current message, a list of pending messages with their types, an
  error it ends with, and a bound on the reads it still answers. \<^verbatim>\<open>NextReader\<close> moves to the next
  message, discarding the rest of the current one; reading delivers the rest of the current message and
  then \<^verbatim>\<open>io.EOF\<close>; any other error is the end of the connection. Writing sends whole messages and does not
  disturb what is to be read. \<open>same w w'\<close> is what no read changes.
\<close>

locale websocket =
  fixes W :: "'w websocket_ops"
    and pending :: "'w \<Rightarrow> (nat \<times> bytes) list"
    and rest :: "'w \<Rightarrow> bytes"
    and wfinal :: "'w \<Rightarrow> io_error"
    and budget :: "'w \<Rightarrow> nat"
    and sent :: "'w \<Rightarrow> bytes list"
    and reliable :: "'w \<Rightarrow> bool"
  assumes next_err: "ws_NextReader W w = (Inl e, w') \<Longrightarrow>
      pending w = [] \<and> e = wfinal w \<and> pending w' = [] \<and> rest w' = []"
    and next_ok: "ws_NextReader W w = (Inr t, w') \<Longrightarrow>
      pending w = (t, rest w') # pending w' \<and> budget w' < budget w"
    and next_frame: "ws_NextReader W w = (r, w') \<Longrightarrow>
      wfinal w' = wfinal w \<and> sent w' = sent w \<and> reliable w' = reliable w"
    and read_ok: "ws_Read W w n = ((bs, None), w') \<Longrightarrow> 0 < n \<Longrightarrow>
      rest w = bs @ rest w' \<and> pending w' = pending w \<and> budget w' < budget w"
    and read_eof: "ws_Read W w n = ((bs, Some EOF), w') \<Longrightarrow> 0 < n \<Longrightarrow>
      rest w = bs \<and> pending w' = pending w \<and> budget w' \<le> budget w"
    and read_err: "ws_Read W w n = ((bs, Some e), w') \<Longrightarrow> 0 < n \<Longrightarrow> e \<noteq> EOF \<Longrightarrow>
      rest w = bs \<and> pending w = [] \<and> e = wfinal w \<and> pending w' = [] \<and> rest w' = []"
    and read_frame: "ws_Read W w n = ((bs, err), w') \<Longrightarrow> 0 < n \<Longrightarrow>
      length bs \<le> n \<and> wfinal w' = wfinal w \<and> sent w' = sent w \<and> reliable w' = reliable w"
    and write_law: "ws_WriteMessage W t bs w = (err, w') \<Longrightarrow>
      pending w' = pending w \<and> rest w' = rest w \<and> wfinal w' = wfinal w
      \<and> sent w' = (if err = None then sent w @ [bs] else sent w) \<and> (reliable w \<longrightarrow> err = None \<and> reliable w')"
    and read_deadline_law: "ws_SetReadDeadline W d w = (err, w') \<Longrightarrow>
      pending w' = pending w \<and> rest w' = rest w \<and> wfinal w' = wfinal w \<and> sent w' = sent w
      \<and> (reliable w \<longrightarrow> err = None \<and> reliable w')"
    and write_deadline_law: "ws_SetWriteDeadline W d w = (err, w') \<Longrightarrow>
      pending w' = pending w \<and> rest w' = rest w \<and> wfinal w' = wfinal w \<and> sent w' = sent w
      \<and> (reliable w \<longrightarrow> err = None \<and> reliable w')"
    and close_law: "pending (ws_Close W w) = [] \<and> rest (ws_Close W w) = []
      \<and> wfinal (ws_Close W w) = ErrClosed \<and> sent (ws_Close W w) = sent w"
begin

abbreviation same :: "'w wsConn \<Rightarrow> 'w wsConn \<Rightarrow> bool" where
  "same c c' \<equiv> wfinal (wc_conn c') = wfinal (wc_conn c) \<and> sent (wc_conn c') = sent (wc_conn c)
     \<and> reliable (wc_conn c') = reliable (wc_conn c)"

abbreviation stream :: "'w wsConn \<Rightarrow> bytes" where
  "stream \<equiv> ws_stream pending rest"

abbreviation todo :: "'w wsConn \<Rightarrow> nat" where
  "todo \<equiv> ws_todo budget"

lemma next_same: "wsConn_next W c = (r, c') \<Longrightarrow> same c c'"
  using next_frame [of "wc_conn c"]
  by (auto simp: wsConn_next_def split: if_splits prod.splits sum.splits)

lemma next_fails: "wsConn_next W c = (Inl e, c') \<Longrightarrow> stream c = [] \<and> stream c' = [] \<and> e = wfinal (wc_conn c)"
  using next_err [of "wc_conn c"]
  by (auto simp: wsConn_next_def ws_stream_def split: if_splits prod.splits sum.splits)

lemma next_ready: "wsConn_next W c = (Inr b, c') \<Longrightarrow>
    stream c' = stream c \<and> (b \<longleftrightarrow> wc_reader c') \<and> todo c' \<le> todo c \<and> (\<not> b \<longrightarrow> todo c' < todo c)"
  using next_ok [of "wc_conn c"]
  by (auto simp: wsConn_next_def ws_stream_def ws_todo_def split: if_splits prod.splits sum.splits)

text \<open>What a call of \<^verbatim>\<open>Read\<close> does to the stream.\<close>

definition read_post :: "nat \<Rightarrow> 'w wsConn \<Rightarrow> bytes \<Rightarrow> io_error option \<Rightarrow> 'w wsConn \<Rightarrow> bool" where
  "read_post n c bs err c' \<longleftrightarrow> length bs \<le> n \<and> same c c'
     \<and> (case err of None \<Rightarrow> stream c = bs @ stream c' \<and> todo c' < todo c
        | Some e \<Rightarrow> stream c = bs \<and> stream c' = [] \<and> e = wfinal (wc_conn c))"

lemma read_message:
  assumes "wc_reader c" and rd: "ws_Read W (wc_conn c) n = ((bs, err), w)" and n: "0 < n"
  shows "err \<noteq> Some EOF \<Longrightarrow> read_post n c bs err (c\<lparr>wc_conn := w\<rparr>)"
    and "err = Some EOF \<Longrightarrow> read_post n c bs None (c\<lparr>wc_conn := w, wc_reader := False\<rparr>)"
proof -
  show "read_post n c bs None (c\<lparr>wc_conn := w, wc_reader := False\<rparr>)" if "err = Some EOF"
    using assms that read_frame [OF rd n] read_eof [of "wc_conn c" n bs w]
    by (simp add: read_post_def ws_stream_def ws_todo_def)
  show "read_post n c bs err (c\<lparr>wc_conn := w\<rparr>)" if "err \<noteq> Some EOF"
  proof (cases err)
    case None
    then show ?thesis
      using assms(1) rd n read_frame [OF rd n] read_ok [of "wc_conn c" n bs w]
      by (simp add: read_post_def ws_stream_def ws_todo_def)
  next
    case (Some e)
    then show ?thesis
      using assms(1) that rd n read_frame [OF rd n] read_err [of "wc_conn c" n bs e w]
      by (simp add: read_post_def ws_stream_def)
  qed
qed

lemma read_post_next:
  "wsConn_next W c = (Inr b, c1) \<Longrightarrow> read_post n c1 bs err c' \<Longrightarrow> read_post n c bs err c'"
  using next_ready [of c b c1] next_same [of c _ c1] by (auto simp: read_post_def split: option.splits)

lemma read_post_skip:
  "read_post n c [] None c1 \<Longrightarrow> read_post n c1 bs err c' \<Longrightarrow> read_post n c bs err c'"
  by (auto simp: read_post_def split: option.splits)

lemma Read_loop_post:
  assumes n: "0 < n"
  shows "\<exists>bs err c'. wsConn_Read_loop W n c = Some ((bs, err), c') \<and> read_post n c bs err c'"
proof (induction "todo c" arbitrary: c rule: less_induct)
  case less
  obtain r c1 where nx: "wsConn_next W c = (r, c1)" by fastforce
  show ?case
  proof (cases r)
    case (Inl e)
    then show ?thesis
      using nx next_fails [of c e c1] next_same [OF nx]
      by (subst wsConn_Read_loop.simps) (simp add: read_post_def)
  next
    case (Inr b)
    note rdy = next_ready [OF nx [unfolded Inr]] and resume = read_post_next [OF nx [unfolded Inr]]
    show ?thesis
    proof (cases b)
      case False
      with rdy less.hyps [of c1] resume show ?thesis
        by (subst wsConn_Read_loop.simps) (auto simp: nx Inr)
    next
      case True
      obtain bs err w where rd: "ws_Read W (wc_conn c1) n = ((bs, err), w)" by (metis surj_pair)
      let ?c2 = "c1\<lparr>wc_conn := w, wc_reader := False\<rparr>"
      have reader: "wc_reader c1" using rdy True by simp
      show ?thesis
      proof (cases "err = Some EOF")
        case eof: True
        note post = read_message(2) [OF reader rd n eof]
        show ?thesis
        proof (cases "bs = []")
          case True
          with post have "todo ?c2 < todo c1" by (simp add: read_post_def)
          with rdy less.hyps [of ?c2] obtain bs' err' c' where "wsConn_Read_loop W n ?c2 = Some ((bs', err'), c')"
              "read_post n ?c2 bs' err' c'" by fastforce
          with post resume read_post_skip True \<open>b\<close> show ?thesis
            by (subst wsConn_Read_loop.simps) (auto simp: nx Inr rd eof)
        next
          case False
          with post resume \<open>b\<close> show ?thesis
            by (subst wsConn_Read_loop.simps) (auto simp: nx Inr rd eof)
        qed
      next
        case False
        with read_message(1) [OF reader rd n] resume \<open>b\<close> show ?thesis
          by (subst wsConn_Read_loop.simps) (auto simp: nx Inr rd)
      qed
    qed
  qed
qed

lemma Read_post: "wsConn_Read W c n = ((bs, err), c') \<Longrightarrow> 0 < n \<Longrightarrow> read_post n c bs err c'"
  using Read_loop_post [of n c] by (auto simp: wsConn_Read_def)

end

text \<open>The adapter over such a connection is a connection.\<close>

sublocale websocket \<subseteq> adapter: connection "wsConn_ops W" "ws_stream pending rest" "\<lambda>c. wfinal (wc_conn c)"
  "ws_todo budget" "\<lambda>c. sent (wc_conn c)" "\<lambda>c. reliable (wc_conn c)"
proof
  fix c c' :: "'w wsConn" and n :: nat and bs :: bytes
  assume "op_Read (wsConn_ops W) c n = ((bs, None), c')" and "0 < n"
  then show "ws_stream pending rest c = bs @ ws_stream pending rest c' \<and> length bs \<le> n
      \<and> wfinal (wc_conn c') = wfinal (wc_conn c)
      \<and> (sent (wc_conn c'), reliable (wc_conn c')) = (sent (wc_conn c), reliable (wc_conn c))
      \<and> ws_todo budget c' < ws_todo budget c"
    using Read_post by (fastforce simp: wsConn_ops_def read_post_def)
next
  fix c c' :: "'w wsConn" and n :: nat and bs :: bytes and e
  assume "op_Read (wsConn_ops W) c n = ((bs, Some e), c')" and "0 < n"
  then show "ws_stream pending rest c = bs \<and> ws_stream pending rest c' = [] \<and> length bs \<le> n
      \<and> e = wfinal (wc_conn c) \<and> wfinal (wc_conn c') = wfinal (wc_conn c)
      \<and> (sent (wc_conn c'), reliable (wc_conn c')) = (sent (wc_conn c), reliable (wc_conn c))"
    using Read_post by (fastforce simp: wsConn_ops_def read_post_def)
next
  fix bs and c c' :: "'w wsConn" and e
  assume w: "op_Write (wsConn_ops W) bs c = (e, c')"
  then show "ws_stream pending rest c' = ws_stream pending rest c \<and> wfinal (wc_conn c') = wfinal (wc_conn c)"
    and "sent (wc_conn c') = (if e = None then sent (wc_conn c) @ [bs] else sent (wc_conn c))"
    using write_law by (fastforce simp: wsConn_ops_def wsConn_Write_def ws_stream_def split: prod.splits)+
  assume "reliable (wc_conn c)"
  with w show "e = None \<and> reliable (wc_conn c')"
    using write_law by (fastforce simp: wsConn_ops_def wsConn_Write_def split: prod.splits)
next
  fix d and c c' :: "'w wsConn" and e
  assume d: "op_SetDeadline (wsConn_ops W) d c = (e, c')"
  then show "ws_stream pending rest c' = ws_stream pending rest c \<and> wfinal (wc_conn c') = wfinal (wc_conn c)
      \<and> sent (wc_conn c') = sent (wc_conn c)"
    using read_deadline_law write_deadline_law
    by (fastforce simp: wsConn_ops_def wsConn_SetDeadline_def ws_stream_def split: prod.splits option.splits)
  assume "reliable (wc_conn c)"
  with d show "e = None \<and> reliable (wc_conn c')"
    using read_deadline_law write_deadline_law
    by (fastforce simp: wsConn_ops_def wsConn_SetDeadline_def split: prod.splits option.splits)
next
  fix c :: "'w wsConn"
  show "ws_stream pending rest (op_Close (wsConn_ops W) c) = []
      \<and> wfinal (wc_conn (op_Close (wsConn_ops W) c)) = ErrClosed
      \<and> sent (wc_conn (op_Close (wsConn_ops W) c)) = sent (wc_conn c)"
    using close_law by (simp add: wsConn_ops_def wsConn_Close_def ws_stream_def)
qed

context websocket
begin

lemma ReadFull_stream:
  "\<exists>c'. ReadFull (wsConn_Read W) n c = Some (read_result n (ws_stream pending rest c) (wfinal (wc_conn c)), c')
     \<and> ws_stream pending rest c' = drop n (ws_stream pending rest c) \<and> sent (wc_conn c') = sent (wc_conn c)"
  using adapter.ReadFull_returns [of n c] by (auto simp: wsConn_ops_def)

lemma server_handshake_stream:
  assumes "run_io (wsConn_ops W) g (ServerHandshake token) c = Some (Inr ch, c')"
  shows "\<exists>nc ns. length nc = NonceSize \<and> rand_Read g NonceSize = Inr ns \<and> ch = transcript nc ns
    \<and> ws_stream pending rest c = nc @ Sign token labelClient [nc, ns] @ ws_stream pending rest c'
    \<and> sent (wc_conn c') = sent (wc_conn c) @ [ns @ Sign token labelServer [nc, ns]]"
  using adapter.run_io_io_run [OF assms, of True] by (auto simp: ServerHandshake_run_iff)

lemma server_handshake_accepts:
  assumes "reliable (wc_conn c)" and "ws_stream pending rest c = nc @ Sign token labelClient [nc, ns] @ tail"
    and "length nc = NonceSize" and "rand_Read g NonceSize = Inr ns"
  shows "\<exists>c'. run_io (wsConn_ops W) g (ServerHandshake token) c = Some (Inr (transcript nc ns), c')"
proof -
  obtain r c' ws where run: "run_io (wsConn_ops W) g (ServerHandshake token) c = Some (r, c')"
    and io: "io_run g False (ServerHandshake token) (ws_stream pending rest c) (wfinal (wc_conn c)) r
      (ws_stream pending rest c') (wfinal (wc_conn c')) ws"
    using adapter.run_io_refines [of False c g "ServerHandshake token"] assms(1) by blast
  from io assms(2-) have "r = Inr (transcript nc ns)"
    unfolding ServerHandshake_def by (auto simp: read_result_def auth_sizes)
  with run show ?thesis by blast
qed

end

section \<open>A scripted WebSocket connection\<close>

text \<open>
  An instance of the contract: a fixed sequence of incoming messages and then an error, with outcomes in
  store for the writes.
\<close>

record wsock =
  wk_messages :: "(nat \<times> bytes) list"
  wk_rest :: bytes
  wk_err :: io_error
  wk_sent :: "bytes list"
  wk_script :: "io_error option list"
  wk_closed :: bool

definition wsock_pending :: "wsock \<Rightarrow> (nat \<times> bytes) list" where
  "wsock_pending w = (if wk_closed w then [] else wk_messages w)"

definition wsock_rest :: "wsock \<Rightarrow> bytes" where
  "wsock_rest w = (if wk_closed w then [] else wk_rest w)"

definition wsock_final :: "wsock \<Rightarrow> io_error" where
  "wsock_final w = (if wk_closed w then ErrClosed else wk_err w)"

definition wsock_budget :: "wsock \<Rightarrow> nat" where
  "wsock_budget w = length (wk_rest w) + sum_list (map (\<lambda>(_, p). Suc (length p)) (wk_messages w))"

definition wsock_reliable :: "wsock \<Rightarrow> bool" where
  "wsock_reliable w \<longleftrightarrow> wk_script w = [] \<and> \<not> wk_closed w"

definition wsock_NextReader :: "wsock \<Rightarrow> (io_error + nat) \<times> wsock" where
  "wsock_NextReader w =
     (if wk_closed w then (Inl ErrClosed, w)
      else case wk_messages w of
        [] \<Rightarrow> (Inl (wk_err w), w\<lparr>wk_rest := []\<rparr>)
      | (t, p) # ms \<Rightarrow> (Inr t, w\<lparr>wk_messages := ms, wk_rest := p\<rparr>))"

definition wsock_Read :: "wsock reader" where
  "wsock_Read w n =
     (if wk_closed w then (([], Some ErrClosed), w)
      else if wk_rest w = [] then (([], Some EOF), w)
      else ((take n (wk_rest w), None), w\<lparr>wk_rest := drop n (wk_rest w)\<rparr>))"

definition wsock_Write :: "nat \<Rightarrow> bytes \<Rightarrow> wsock \<Rightarrow> io_error option \<times> wsock" where
  "wsock_Write t bs w =
     (if wk_closed w then (Some ErrClosed, w)
      else case next_outcome (wk_script w) of
        (Some e, es) \<Rightarrow> (Some e, w\<lparr>wk_script := es\<rparr>)
      | (None, es) \<Rightarrow> (None, w\<lparr>wk_sent := wk_sent w @ [bs], wk_script := es\<rparr>))"

definition wsock_SetDeadline :: "int option \<Rightarrow> wsock \<Rightarrow> io_error option \<times> wsock" where
  "wsock_SetDeadline d w = (if wk_closed w then (Some ErrClosed, w) else (None, w))"

definition wsock_ops :: "wsock websocket_ops" where
  "wsock_ops = \<lparr>ws_NextReader = wsock_NextReader, ws_Read = wsock_Read, ws_WriteMessage = wsock_Write,
     ws_SetReadDeadline = wsock_SetDeadline, ws_SetWriteDeadline = wsock_SetDeadline,
     ws_Close = \<lambda>w. w\<lparr>wk_closed := True\<rparr>\<rparr>"

lemmas wsock_defs = wsock_ops_def wsock_NextReader_def wsock_Read_def wsock_Write_def wsock_SetDeadline_def
  wsock_pending_def wsock_rest_def wsock_final_def wsock_budget_def wsock_reliable_def

interpretation wsk: websocket wsock_ops wsock_pending wsock_rest wsock_final wsock_budget wk_sent wsock_reliable
  by unfold_locales (auto simp: wsock_defs split: if_splits list.splits prod.splits option.splits)

section \<open>Properties\<close>

text \<open>A handshake cut into messages, with a text message in between.\<close>

definition demo_ws :: wsock where
  "demo_ws = \<lparr>wk_messages = [(BinaryMessage, take 5 demo_nc), (1, [9, 9]), (BinaryMessage, []),
       (BinaryMessage, drop 5 demo_nc @ Sign demo_token labelClient [demo_nc, demo_ns])],
     wk_rest = [], wk_err = EOF, wk_sent = [], wk_script = [], wk_closed = False\<rparr>"

lemma demo_ws_stream:
  "ws_stream wsock_pending wsock_rest (newWSConn demo_ws) = demo_nc @ Sign demo_token labelClient [demo_nc, demo_ns]"
  by (simp add: ws_stream_def newWSConn_def demo_ws_def wsock_pending_def BinaryMessage_def)

text \<open>
  C35. The adapter presents the binary messages as one byte stream. Over any WebSocket connection that
  behaves as documented, reading \<open>n\<close> bytes through the adapter returns, and yields the next \<open>n\<close> bytes of the
  concatenated binary messages whatever their boundaries, skipping empty messages and messages of other
  types; what follows is left for later reads, and a stream that ends early gives its error.
\<close>

theorem ws_read_full:
  assumes "websocket W pending rest wfinal budget sent reliable"
  shows "\<exists>c'. ReadFull (wsConn_Read W) n c =
        Some (read_result n (ws_stream pending rest c) (wfinal (wc_conn c)), c')
      \<and> ws_stream pending rest c' = drop n (ws_stream pending rest c)
      \<and> sent (wc_conn c') = sent (wc_conn c)"
  using assms by (rule websocket.ReadFull_stream)

theorem ws_read_full_witness:
  "\<exists>c'. ReadFull (wsConn_Read wsock_ops) NonceSize (newWSConn demo_ws) = Some (Inr demo_nc, c')"
  using ws_read_full [OF wsk.websocket_axioms, of NonceSize "newWSConn demo_ws"]
  by (auto simp: demo_ws_stream read_result_def)

text \<open>
  The handshake is as strong over WebSocket as over a plain connection. Over any WebSocket connection
  that behaves as documented, if \<^verbatim>\<open>ServerHandshake\<close> on the adapter returns a channel, the binary messages
  carried a nonce followed by the client tag over it and this run's nonce, and the only message sent is
  the server's nonce with its proof.
\<close>

theorem ws_server_handshake:
  assumes "websocket W pending rest wfinal budget sent reliable"
    and "run_io (wsConn_ops W) g (ServerHandshake token) c = Some (Inr ch, c')"
  shows "\<exists>nc ns. length nc = NonceSize \<and> rand_Read g NonceSize = Inr ns \<and> ch = transcript nc ns
    \<and> ws_stream pending rest c = nc @ Sign token labelClient [nc, ns] @ ws_stream pending rest c'
    \<and> sent (wc_conn c') = sent (wc_conn c) @ [ns @ Sign token labelServer [nc, ns]]"
  using assms by (rule websocket.server_handshake_stream)

theorem ws_server_handshake_witness:
  "\<exists>c'. run_io (wsConn_ops wsock_ops) (Inr (\<lambda>_. 2)) (ServerHandshake demo_token) (newWSConn demo_ws) =
      Some (Inr (transcript demo_nc demo_ns), c')
    \<and> (\<exists>nc ns. wk_sent (wc_conn c') = wk_sent demo_ws @ [ns @ Sign demo_token labelServer [nc, ns]])"
proof -
  have "wsock_reliable (wc_conn (newWSConn demo_ws))"
    by (simp add: wsock_reliable_def newWSConn_def demo_ws_def)
  then obtain c' where run: "run_io (wsConn_ops wsock_ops) (Inr (\<lambda>_. 2)) (ServerHandshake demo_token)
      (newWSConn demo_ws) = Some (Inr (transcript demo_nc demo_ns), c')"
    using wsk.server_handshake_accepts [of "newWSConn demo_ws" demo_nc demo_token demo_ns "[]" "Inr (\<lambda>_. 2)"]
    by (auto simp: demo_ws_stream)
  with ws_server_handshake [OF wsk.websocket_axioms run] show ?thesis
    by (auto simp: newWSConn_def)
qed

end
