(* ===== verification/Datagram.thy ===== *)
theory Datagram
  imports Auth
begin

text \<open>
  Package \<^verbatim>\<open>auth\<close>, file \<^verbatim>\<open>internal/auth/datagram.go\<close>: the authentication tag that every datagram of
  the \<^verbatim>\<open>udp\<close> protocol carries in front of its payload. The locale \<open>sealed_box\<close> is the contract the UDP
  relay relies on.
\<close>

section \<open>Sealing and opening\<close>

definition DatagramOverhead :: nat where "DatagramOverhead = 16"

text \<open>\<^verbatim>\<open>type Direction byte\<close> with the constants \<^verbatim>\<open>iota + 1\<close>.\<close>

type_synonym direction = byte

definition ClientToServer :: direction where "ClientToServer = 1"
definition ServerToClient :: direction where "ServerToClient = 2"

definition datagramTag :: "string \<Rightarrow> direction \<Rightarrow> bytes \<Rightarrow> bytes" where
  "datagramTag token dir payload =
     take DatagramOverhead (mac_Sum (mac_Write payload (mac_Write [dir]
       (mac_Write (bytes_of ''gtun/v1/udp'') (hmac_New (bytes_of token))))))"

definition SealDatagram :: "string \<Rightarrow> direction \<Rightarrow> bytes \<Rightarrow> bytes" where
  "SealDatagram token dir payload = datagramTag token dir payload @ payload"

definition OpenDatagram :: "string \<Rightarrow> direction \<Rightarrow> bytes \<Rightarrow> bytes option" where
  "OpenDatagram token dir pkt =
     (if length pkt < DatagramOverhead then None
      else let tag = take DatagramOverhead pkt; payload = drop DatagramOverhead pkt in
           if \<not> hmac_Equal tag (datagramTag token dir payload) then None else Some payload)"

lemma datagramTag_eq: "datagramTag token dir payload =
    take 16 (hmac_sha256 (bytes_of token) (bytes_of ''gtun/v1/udp'' @ dir # payload))"
  by (simp add: datagramTag_def DatagramOverhead_def mac_Sum_def hmac_New_def)

lemma length_datagramTag [simp]: "length (datagramTag token dir payload) = DatagramOverhead"
  by (simp add: datagramTag_eq DatagramOverhead_def)

lemma length_SealDatagram [simp]:
  "length (SealDatagram token dir payload) = DatagramOverhead + length payload"
  by (simp add: SealDatagram_def)

lemma OpenDatagram_eq_Some:
  "OpenDatagram token dir pkt = Some payload \<longleftrightarrow> pkt = SealDatagram token dir payload"
proof
  assume "OpenDatagram token dir pkt = Some payload"
  then have "take DatagramOverhead pkt = datagramTag token dir payload" "payload = drop DatagramOverhead pkt"
    by (auto simp: OpenDatagram_def Let_def split: if_splits)
  then show "pkt = SealDatagram token dir payload"
    by (metis SealDatagram_def append_take_drop_id)
qed (simp add: OpenDatagram_def SealDatagram_def Let_def)

section \<open>The contract of a sealed box\<close>

text \<open>
  What a relay needs of the pair: opening undoes sealing under the same key and direction, and
  nothing but a sealed payload opens. Sealing is then injective, and a packet opens to one payload.
\<close>

locale sealed_box =
  fixes seal :: "'k \<Rightarrow> 'd \<Rightarrow> bytes \<Rightarrow> bytes"
    and "open" :: "'k \<Rightarrow> 'd \<Rightarrow> bytes \<Rightarrow> bytes option"
  assumes open_seal: "open k d (seal k d p) = Some p"
    and open_sound: "open k d pkt = Some p \<Longrightarrow> pkt = seal k d p"
begin

lemma open_iff: "open k d pkt = Some p \<longleftrightarrow> pkt = seal k d p"
  using open_seal open_sound by blast

lemma seal_inject: "seal k d p = seal k d q \<longleftrightarrow> p = q"
  by (metis open_seal option.inject)

lemma open_none_iff: "open k d pkt = None \<longleftrightarrow> (\<forall>p. pkt \<noteq> seal k d p)"
  by (metis open_iff not_None_eq)

text \<open>Opening a batch of packets, dropping what does not open, gives back exactly the sealed ones.\<close>

lemma open_map_filter: "List.map_filter (open k d) (map (seal k d) ps) = ps"
  by (induction ps) (simp_all add: map_filter_simps open_seal)

lemma open_map_filter_sound:
  "p \<in> set (List.map_filter (open k d) pkts) \<Longrightarrow> seal k d p \<in> set pkts"
  by (induction pkts) (auto simp: map_filter_simps open_iff split: option.splits)

end

interpretation dg: sealed_box SealDatagram OpenDatagram
  by unfold_locales (simp_all add: OpenDatagram_eq_Some)

section \<open>Properties\<close>

text \<open>
  C23. \<^verbatim>\<open>OpenDatagram\<close> inverts \<^verbatim>\<open>SealDatagram\<close> and accepts nothing else: a packet opens to a payload
  exactly when it is that payload sealed with the same token and direction; every shorter, longer or
  altered packet is dropped.
\<close>

theorem open_exactly_sealed:
  "OpenDatagram token dir pkt = Some payload \<longleftrightarrow> pkt = SealDatagram token dir payload"
  by (rule dg.open_iff)

text \<open>
  Reflection. A datagram sealed for one direction opens in the other direction only if the two
  16-byte tags collide, although the tags cover different messages: the direction byte is part of the
  authenticated data.
\<close>

theorem reflected_datagram:
  "(OpenDatagram token ServerToClient (SealDatagram token ClientToServer payload) \<noteq> None) =
     (take 16 (hmac_sha256 (bytes_of token) (bytes_of ''gtun/v1/udp'' @ 1 # payload)) =
      take 16 (hmac_sha256 (bytes_of token) (bytes_of ''gtun/v1/udp'' @ 2 # payload)))"
proof -
  have "SealDatagram token ClientToServer payload = SealDatagram token ServerToClient q \<longleftrightarrow>
      q = payload \<and> datagramTag token ClientToServer payload = datagramTag token ServerToClient payload" for q
    by (auto simp: SealDatagram_def append_same_length_cancel)
  then have "(OpenDatagram token ServerToClient (SealDatagram token ClientToServer payload) \<noteq> None) =
      (datagramTag token ClientToServer payload = datagramTag token ServerToClient payload)"
    by (metis dg.open_none_iff)
  then show ?thesis
    by (simp add: datagramTag_eq ClientToServer_def ServerToClient_def)
qed

end
