(* ===== verification/Udp_Relay.thy ===== *)
theory Udp_Relay
  imports Datagram
begin

text \<open>
  The datagram relay, file \<^verbatim>\<open>internal/transport/udp.go\<close>: one listening socket, one upstream socket per
  remote peer, a goroutine that reads the listener (\<^verbatim>\<open>run\<close>), one that reads each upstream socket
  (\<^verbatim>\<open>pump\<close>) and one that expires idle sessions (\<^verbatim>\<open>sweep\<close>). Every critical section under the mutex and
  every action outside it is a function on the relay's state; \<open>udp_step\<close> interleaves them, together
  with the sockets' outcomes, the clock and cancellation.
\<close>

section \<open>State\<close>

type_synonym addr = string

text \<open>Where the goroutines are.\<close>

datatype pump_pc = Pumping | Removed | Ended
datatype run_pc = Reading | Forwarding nat bytes | Finished "io_error option"
datatype sweep_pc = Ticking | Expiring "nat list" | Stopped

text \<open>
  A \<^verbatim>\<open>udpSession\<close> with its own goroutine: the peer, \<^verbatim>\<open>lastSeen\<close> in nanoseconds, whether its upstream
  socket is open, and where its \<^verbatim>\<open>pump\<close> is.
\<close>

record udpSession =
  us_peer :: addr
  us_lastSeen :: int
  us_open :: bool
  us_pump :: pump_pc

text \<open>
  The relay. \<open>store\<close> holds every session ever created, in order of creation, and a pointer to a session is
  its index; \<open>sessions\<close> is the map from peers, as the list of its entries. The last four fields
  record what crossed the sockets: datagrams read from the listener, payloads written upstream,
  datagrams read upstream, and datagrams written back to peers.
\<close>

record udpRelay =
  sessions :: "(addr \<times> nat) list"
  store :: "udpSession list"
  run_at :: run_pc
  sweep_at :: sweep_pc
  udp_ctx_done :: bool
  close_started :: bool
  listener_open :: bool
  got :: "(addr \<times> bytes) list"
  forwarded :: "(nat \<times> bytes) list"
  from_upstream :: "(nat \<times> bytes) list"
  replied :: "(addr \<times> bytes) list"

text \<open>A datagram filter returns \<open>None\<close> to drop the datagram.\<close>

type_synonym datagramFilter = "bytes \<Rightarrow> bytes option"

definition udpIdleTimeout :: int where "udpIdleTimeout = 3 * 60 * 10 ^ 9"
definition udpSweepInterval :: int where "udpSweepInterval = 60 * 10 ^ 9"
definition maxDatagramSize :: nat where "maxDatagramSize = 65535"

text \<open>
  A read into a buffer of \<^verbatim>\<open>maxDatagramSize\<close> bytes, \<open>buf[:n]\<close>: what does not fit is cut off. The largest payload of a UDP
  datagram is 65507 bytes, which fits, so that a datagram with its tag is always read whole.
\<close>

definition read_datagram :: "bytes \<Rightarrow> bytes" where
  "read_datagram pkt = take maxDatagramSize pkt"

lemma read_datagram_whole: "length pkt \<le> 65507 \<Longrightarrow> read_datagram pkt = pkt"
  by (simp add: read_datagram_def maxDatagramSize_def)

definition udp_start :: udpRelay where
  "udp_start = \<lparr>sessions = [], store = [], run_at = Reading, sweep_at = Ticking, udp_ctx_done = False,
     close_started = False, listener_open = True, got = [], forwarded = [], from_upstream = [], replied = []\<rparr>"

section \<open>Operations\<close>

definition upd_session :: "nat \<Rightarrow> (udpSession \<Rightarrow> udpSession) \<Rightarrow> udpRelay \<Rightarrow> udpRelay" where
  "upd_session i f r = r\<lparr>store := (store r)[i := f (store r ! i)]\<rparr>"

definition udp_touch :: "int \<Rightarrow> nat \<Rightarrow> udpRelay \<Rightarrow> udpRelay" where
  "udp_touch now i = upd_session i (\<lambda>s. s\<lparr>us_lastSeen := now\<rparr>)"

definition close_upstream :: "nat \<Rightarrow> udpRelay \<Rightarrow> udpRelay" where
  "close_upstream i = upd_session i (\<lambda>s. s\<lparr>us_open := False\<rparr>)"

text \<open>\<^verbatim>\<open>session(peer)\<close>, under the mutex; \<open>dial_err\<close> is the outcome of \<^verbatim>\<open>dial\<close> if it is called.\<close>

definition udp_session :: "int \<Rightarrow> io_error option \<Rightarrow> addr \<Rightarrow> udpRelay \<Rightarrow> (io_error + nat) \<times> udpRelay" where
  "udp_session now dial_err peer r =
     (case map_of (sessions r) peer of
        Some i \<Rightarrow> (Inr i, r)
      | None \<Rightarrow>
          (case dial_err of
             Some e \<Rightarrow> (Inl e, r)
           | None \<Rightarrow>
               (let i = length (store r);
                    s = \<lparr>us_peer = peer, us_lastSeen = now, us_open = True, us_pump = Pumping\<rparr>
                in (Inr i, r\<lparr>store := store r @ [s], sessions := (peer, i) # sessions r\<rparr>))))"

text \<open>
  One iteration of \<^verbatim>\<open>run\<close>'s loop, cut where another goroutine can come in between: up to the call of
  \<^verbatim>\<open>session\<close>, and the forwarding.
\<close>

definition udp_receive ::
  "datagramFilter \<Rightarrow> int \<Rightarrow> io_error option \<Rightarrow> addr \<Rightarrow> bytes \<Rightarrow> udpRelay \<Rightarrow> udpRelay" where
  "udp_receive up now dial_err peer pkt r =
     (let r = r\<lparr>got := got r @ [(peer, pkt)]\<rparr> in
      case up pkt of
        None \<Rightarrow> r
      | Some payload \<Rightarrow>
          (case udp_session now dial_err peer r of
             (Inl _, r') \<Rightarrow> r'
           | (Inr i, r') \<Rightarrow> r'\<lparr>run_at := Forwarding i payload\<rparr>))"

definition udp_forward :: "int \<Rightarrow> bool \<Rightarrow> nat \<Rightarrow> bytes \<Rightarrow> udpRelay \<Rightarrow> udpRelay" where
  "udp_forward now write_ok i payload r =
     (let r = udp_touch now i r in
      (if write_ok \<and> us_open (store r ! i) then r\<lparr>forwarded := forwarded r @ [(i, payload)]\<rparr> else r)
        \<lparr>run_at := Reading\<rparr>)"

text \<open>One iteration of \<^verbatim>\<open>pump\<close>'s loop, and the two halves of \<^verbatim>\<open>remove\<close>.\<close>

definition udp_pump :: "datagramFilter \<Rightarrow> int \<Rightarrow> bool \<Rightarrow> nat \<Rightarrow> bytes \<Rightarrow> udpRelay \<Rightarrow> udpRelay" where
  "udp_pump down now write_ok i pkt r =
     (let r = r\<lparr>from_upstream := from_upstream r @ [(i, pkt)]\<rparr> in
      case down pkt of
        None \<Rightarrow> r
      | Some out \<Rightarrow>
          (let r = udp_touch now i r in
           if write_ok \<and> listener_open r then r\<lparr>replied := replied r @ [(us_peer (store r ! i), out)]\<rparr> else r))"

definition udp_remove :: "nat \<Rightarrow> udpRelay \<Rightarrow> udpRelay" where
  "udp_remove i r =
     (let peer = us_peer (store r ! i);
          r' = (if map_of (sessions r) peer = Some i
                then r\<lparr>sessions := filter (\<lambda>(p, _). p \<noteq> peer) (sessions r)\<rparr> else r)
      in upd_session i (\<lambda>s. s\<lparr>us_pump := Removed\<rparr>) r')"

definition udp_remove_close :: "nat \<Rightarrow> udpRelay \<Rightarrow> udpRelay" where
  "udp_remove_close i r = upd_session i (\<lambda>s. s\<lparr>us_pump := Ended\<rparr>) (close_upstream i r)"

text \<open>One tick of \<^verbatim>\<open>sweep\<close>: the critical section, then one close per expired session.\<close>

definition udp_sweep :: "int \<Rightarrow> udpRelay \<Rightarrow> udpRelay" where
  "udp_sweep now r =
     (let cutoff = now - udpIdleTimeout;
          expired = (\<lambda>(_ :: addr, i). us_lastSeen (store r ! i) < cutoff)
      in r\<lparr>sessions := filter (Not \<circ> expired) (sessions r),
           sweep_at := Expiring (map snd (filter expired (sessions r)))\<rparr>)"

definition udp_expire :: "nat list \<Rightarrow> udpRelay \<Rightarrow> udpRelay" where
  "udp_expire idle r =
     (case idle of
        [] \<Rightarrow> r\<lparr>sweep_at := Ticking\<rparr>
      | i # rest \<Rightarrow> (close_upstream i r)\<lparr>sweep_at := Expiring rest\<rparr>)"

definition udp_closeAll :: "udpRelay \<Rightarrow> udpRelay" where
  "udp_closeAll r = fold close_upstream (map snd (sessions r)) (r\<lparr>sessions := []\<rparr>)"

text \<open>
  The end of \<^verbatim>\<open>run\<close>: \<^verbatim>\<open>closeAll\<close> runs, the hook that closes the listener on cancellation is taken down,
  and the error is reported unless the context is done or the listener was closed.
\<close>

definition udp_return :: "io_error \<Rightarrow> udpRelay \<Rightarrow> udpRelay" where
  "udp_return e r =
     (udp_closeAll r)\<lparr>run_at := Finished (if udp_ctx_done r \<or> e = ErrClosed then None else Some e)\<rparr>"

text \<open>
  Cancellation of the context: the hook that \<^verbatim>\<open>context.AfterFunc\<close> installed starts, unless \<^verbatim>\<open>run\<close> has
  returned and stopped it.
\<close>

definition udp_cancel :: "udpRelay \<Rightarrow> udpRelay" where
  "udp_cancel r = r\<lparr>udp_ctx_done := True,
     close_started := (close_started r \<or> (case run_at r of Finished _ \<Rightarrow> False | _ \<Rightarrow> True))\<rparr>"

section \<open>The relay as a system\<close>

inductive udp_step :: "datagramFilter \<Rightarrow> datagramFilter \<Rightarrow> udpRelay \<Rightarrow> udpRelay \<Rightarrow> bool"
  for up down :: datagramFilter where
  receives: "run_at r = Reading \<Longrightarrow> listener_open r \<Longrightarrow>
    udp_step up down r (udp_receive up now dial_err peer (read_datagram pkt) r)"
| forwards: "run_at r = Forwarding i payload \<Longrightarrow> udp_step up down r (udp_forward now write_ok i payload r)"
| returns: "run_at r = Reading \<Longrightarrow> \<not> listener_open r \<longrightarrow> e = ErrClosed \<Longrightarrow>
    udp_step up down r (udp_return e r)"
| pumps: "i < length (store r) \<Longrightarrow> us_pump (store r ! i) = Pumping \<Longrightarrow> us_open (store r ! i) \<Longrightarrow>
    udp_step up down r (udp_pump down now write_ok i (read_datagram pkt) r)"
| pump_fails: "i < length (store r) \<Longrightarrow> us_pump (store r ! i) = Pumping \<Longrightarrow>
    udp_step up down r (udp_remove i r)"
| pump_ends: "i < length (store r) \<Longrightarrow> us_pump (store r ! i) = Removed \<Longrightarrow>
    udp_step up down r (udp_remove_close i r)"
| sweeps: "sweep_at r = Ticking \<Longrightarrow> udp_step up down r (udp_sweep now r)"
| expires: "sweep_at r = Expiring idle \<Longrightarrow> udp_step up down r (udp_expire idle r)"
| sweep_stops: "sweep_at r = Ticking \<Longrightarrow> udp_ctx_done r \<Longrightarrow> udp_step up down r (r\<lparr>sweep_at := Stopped\<rparr>)"
| cancelled: "udp_step up down r (udp_cancel r)"
| cancel_closes: "close_started r \<Longrightarrow> udp_step up down r (r\<lparr>listener_open := False\<rparr>)"

definition udp_init :: "udpRelay \<Rightarrow> bool" where
  "udp_init r \<longleftrightarrow> r = udp_start"

section \<open>Invariant\<close>

text \<open>
  The invariant in parts: the map, the life of the sockets, and the provenance of every datagram.
  The sessions the sweeper has taken out of the map and not yet closed:
\<close>

definition expiring :: "udpRelay \<Rightarrow> nat set" where
  "expiring r = (case sweep_at r of Expiring idle \<Rightarrow> set idle | _ \<Rightarrow> {})"

definition map_ok :: "udpRelay \<Rightarrow> bool" where
  "map_ok r \<longleftrightarrow> distinct (map fst (sessions r))
     \<and> (\<forall>p i. (p, i) \<in> set (sessions r) \<longrightarrow> i < length (store r) \<and> us_peer (store r ! i) = p
          \<and> us_open (store r ! i) \<and> us_pump (store r ! i) = Pumping \<and> i \<notin> expiring r)
     \<and> expiring r \<subseteq> {..<length (store r)}
     \<and> (\<forall>e. run_at r = Finished e \<longrightarrow> sessions r = [])"

definition sockets_ok :: "udpRelay \<Rightarrow> bool" where
  "sockets_ok r \<longleftrightarrow> (\<forall>i < length (store r). us_open (store r ! i) \<longrightarrow>
     (us_peer (store r ! i), i) \<in> set (sessions r) \<or> us_pump (store r ! i) = Removed \<or> i \<in> expiring r)"

definition accepted :: "datagramFilter \<Rightarrow> udpRelay \<Rightarrow> nat \<Rightarrow> bytes \<Rightarrow> bool" where
  "accepted up r i payload \<longleftrightarrow> i < length (store r)
     \<and> (\<exists>pkt. (us_peer (store r ! i), pkt) \<in> set (got r) \<and> up pkt = Some payload)"

definition traffic_ok :: "datagramFilter \<Rightarrow> datagramFilter \<Rightarrow> udpRelay \<Rightarrow> bool" where
  "traffic_ok up down r \<longleftrightarrow>
     (\<forall>i < length (store r). \<exists>payload. accepted up r i payload)
     \<and> (\<forall>i payload. run_at r = Forwarding i payload \<longrightarrow> accepted up r i payload)
     \<and> (\<forall>i payload. (i, payload) \<in> set (forwarded r) \<longrightarrow> accepted up r i payload)
     \<and> (\<forall>p out. (p, out) \<in> set (replied r) \<longrightarrow> (\<exists>i pkt. i < length (store r) \<and> us_peer (store r ! i) = p
          \<and> (i, pkt) \<in> set (from_upstream r) \<and> down pkt = Some out))"

definition udp_inv :: "datagramFilter \<Rightarrow> datagramFilter \<Rightarrow> udpRelay \<Rightarrow> bool" where
  "udp_inv up down r \<longleftrightarrow> map_ok r \<and> sockets_ok r \<and> traffic_ok up down r"

lemmas udp_ops = udp_receive_def udp_forward_def udp_return_def udp_pump_def udp_remove_def
  udp_remove_close_def udp_sweep_def udp_expire_def udp_cancel_def udp_touch_def close_upstream_def
  upd_session_def

lemma udp_inv_start [simp]: "udp_inv up down udp_start"
  by (simp add: udp_inv_def udp_start_def map_ok_def sockets_ok_def traffic_ok_def expiring_def)

text \<open>
  Updates of one session that keep its peer leave the provenance alone; the other two parts depend on
  the socket and the pump only.
\<close>

lemma upd_session_simps [simp]:
  "length (store (upd_session i f r)) = length (store r)"
  "sessions (upd_session i f r) = sessions r" "run_at (upd_session i f r) = run_at r"
  "sweep_at (upd_session i f r) = sweep_at r" "got (upd_session i f r) = got r"
  "forwarded (upd_session i f r) = forwarded r" "from_upstream (upd_session i f r) = from_upstream r"
  "replied (upd_session i f r) = replied r" "listener_open (upd_session i f r) = listener_open r"
  "udp_ctx_done (upd_session i f r) = udp_ctx_done r" "close_started (upd_session i f r) = close_started r"
  by (simp_all add: upd_session_def)

lemma upd_session_nth: "i < length (store r) \<Longrightarrow>
    store (upd_session i f r) ! j = (if i = j then f (store r ! i) else store r ! j)"
  by (simp add: upd_session_def)

lemma upd_session_peer:
  "(\<And>s. us_peer (f s) = us_peer s) \<Longrightarrow> us_peer (store (upd_session i f r) ! j) = us_peer (store r ! j)"
proof (cases "i < length (store r)")
  case True
  assume "\<And>s. us_peer (f s) = us_peer s"
  with True show ?thesis by (simp add: upd_session_nth)
qed (simp add: upd_session_def list_update_beyond)

lemma map_ok_frame [simp]:
  "map_ok (r\<lparr>got := x\<rparr>) = map_ok r" "map_ok (r\<lparr>forwarded := y\<rparr>) = map_ok r"
  "map_ok (r\<lparr>from_upstream := y\<rparr>) = map_ok r" "map_ok (r\<lparr>replied := x\<rparr>) = map_ok r"
  "map_ok (r\<lparr>listener_open := b\<rparr>) = map_ok r"
  "map_ok (r\<lparr>udp_ctx_done := b, close_started := b'\<rparr>) = map_ok r"
  by (simp_all add: map_ok_def expiring_def)

lemma sockets_ok_frame [simp]:
  "sockets_ok (r\<lparr>got := x\<rparr>) = sockets_ok r" "sockets_ok (r\<lparr>forwarded := y\<rparr>) = sockets_ok r"
  "sockets_ok (r\<lparr>from_upstream := y\<rparr>) = sockets_ok r" "sockets_ok (r\<lparr>replied := x\<rparr>) = sockets_ok r"
  "sockets_ok (r\<lparr>listener_open := b\<rparr>) = sockets_ok r" "sockets_ok (r\<lparr>run_at := pc\<rparr>) = sockets_ok r"
  "sockets_ok (r\<lparr>udp_ctx_done := b, close_started := b'\<rparr>) = sockets_ok r"
  by (simp_all add: sockets_ok_def expiring_def)

lemma map_ok_pc: "map_ok r \<Longrightarrow> (\<And>e. pc \<noteq> Finished e) \<Longrightarrow> map_ok (r\<lparr>run_at := pc\<rparr>)"
  by (simp add: map_ok_def expiring_def)

lemma touch_ok [simp]:
  assumes "i < length (store r)"
  shows "map_ok (udp_touch now i r) = map_ok r" and "sockets_ok (udp_touch now i r) = sockets_ok r"
proof -
  have "us_peer (store (udp_touch now i r) ! j) = us_peer (store r ! j)"
      "us_open (store (udp_touch now i r) ! j) = us_open (store r ! j)"
      "us_pump (store (udp_touch now i r) ! j) = us_pump (store r ! j)" for j
    using assms by (simp_all add: udp_touch_def upd_session_nth)
  then show "map_ok (udp_touch now i r) = map_ok r" and "sockets_ok (udp_touch now i r) = sockets_ok r"
    by (simp_all add: map_ok_def sockets_ok_def expiring_def udp_touch_def)
qed

lemma touch_simps [simp]:
  "length (store (udp_touch now i r)) = length (store r)" "listener_open (udp_touch now i r) = listener_open r"
  "from_upstream (udp_touch now i r) = from_upstream r" "forwarded (udp_touch now i r) = forwarded r"
  "replied (udp_touch now i r) = replied r"
  by (simp_all add: udp_touch_def)

lemma traffic_ok_cong:
  assumes "length (store r') = length (store r)" "\<And>j. us_peer (store r' ! j) = us_peer (store r ! j)"
    and "run_at r' = run_at r" "got r' = got r" "forwarded r' = forwarded r"
    and "from_upstream r' = from_upstream r" "replied r' = replied r"
  shows "traffic_ok up down r' = traffic_ok up down r"
  using assms by (simp add: traffic_ok_def accepted_def)

lemma traffic_ok_upd [simp]:
  "(\<And>s. us_peer (f s) = us_peer s) \<Longrightarrow> traffic_ok up down (upd_session i f r) = traffic_ok up down r"
  by (rule traffic_ok_cong) (simp_all add: upd_session_peer)

lemma traffic_ok_upstream: "traffic_ok up down r \<Longrightarrow>
    traffic_ok up down (r\<lparr>from_upstream := from_upstream r @ [x]\<rparr>)"
  by (fastforce simp: traffic_ok_def accepted_def)

lemma traffic_ok_replied: "traffic_ok up down r \<Longrightarrow> i < length (store r) \<Longrightarrow>
    (i, pkt) \<in> set (from_upstream r) \<Longrightarrow> down pkt = Some out \<Longrightarrow>
    traffic_ok up down (r\<lparr>replied := replied r @ [(us_peer (store r ! i), out)]\<rparr>)"
  by (fastforce simp: traffic_ok_def accepted_def)

lemma traffic_ok_forwarded: "traffic_ok up down r \<Longrightarrow> accepted up r i payload \<Longrightarrow>
    traffic_ok up down (r\<lparr>forwarded := forwarded r @ [(i, payload)]\<rparr>)"
  by (auto simp: traffic_ok_def accepted_def)

lemma traffic_ok_pc:
  "traffic_ok up down r \<Longrightarrow> traffic_ok up down (r\<lparr>run_at := Reading\<rparr>)"
  "traffic_ok up down r \<Longrightarrow> traffic_ok up down (r\<lparr>run_at := Finished e\<rparr>)"
  "traffic_ok up down r \<Longrightarrow> accepted up r i p \<Longrightarrow> traffic_ok up down (r\<lparr>run_at := Forwarding i p\<rparr>)"
  by (simp_all add: traffic_ok_def accepted_def)

lemma traffic_ok_got: "traffic_ok up down r \<Longrightarrow> traffic_ok up down (r\<lparr>got := got r @ [x]\<rparr>)"
  unfolding traffic_ok_def accepted_def by simp blast

lemma accepted_upd [simp]:
  "(\<And>s. us_peer (f s) = us_peer s) \<Longrightarrow> accepted up (upd_session i f r) j p = accepted up r j p"
  by (simp add: accepted_def upd_session_peer)

lemma touch_traffic [simp]:
  "traffic_ok up down (udp_touch now i r) = traffic_ok up down r"
  "accepted up (udp_touch now i r) j p = accepted up r j p"
  by (simp_all add: udp_touch_def)

lemma traffic_ok_frame [simp]:
  "traffic_ok up down (r\<lparr>sessions := m\<rparr>) = traffic_ok up down r"
  "traffic_ok up down (r\<lparr>sweep_at := sw\<rparr>) = traffic_ok up down r"
  "traffic_ok up down (r\<lparr>listener_open := b\<rparr>) = traffic_ok up down r"
  "traffic_ok up down (r\<lparr>udp_ctx_done := b, close_started := b'\<rparr>) = traffic_ok up down r"
  by (simp_all add: traffic_ok_def accepted_def)

lemma udp_forward_ok:
  assumes "udp_inv up down r" and "run_at r = Forwarding i payload"
  shows "udp_inv up down (udp_forward now ok i payload r)"
proof -
  let ?r = "udp_touch now i r"
  have acc: "accepted up r i payload" using assms by (auto simp: udp_inv_def traffic_ok_def)
  then have i: "i < length (store r)" by (simp add: accepted_def)
  have fwd: "traffic_ok up down (?r\<lparr>forwarded := forwarded r @ [(i, payload)]\<rparr>)"
    using traffic_ok_forwarded [of up down ?r i payload] assms acc by (simp add: udp_inv_def)
  show ?thesis
    using assms i fwd by (simp add: udp_forward_def udp_inv_def Let_def map_ok_pc traffic_ok_pc)
qed

lemma udp_pump_ok:
  assumes "udp_inv up down r" and i: "i < length (store r)"
  shows "udp_inv up down (udp_pump down now ok i pkt r)"
proof -
  let ?r = "r\<lparr>from_upstream := from_upstream r @ [(i, pkt)]\<rparr>"
  have t: "traffic_ok up down ?r"
    using assms traffic_ok_upstream by (simp add: udp_inv_def)
  then have "down pkt = Some out \<Longrightarrow> traffic_ok up down ((udp_touch now i ?r)
      \<lparr>replied := replied r @ [(us_peer (store (udp_touch now i ?r) ! i), out)]\<rparr>)" for out
    using traffic_ok_replied [of up down "udp_touch now i ?r" i pkt out] i by simp
  with t show ?thesis
    using assms by (auto simp: udp_pump_def udp_inv_def Let_def split: option.splits)
qed

text \<open>The relay after \<^verbatim>\<open>session\<close> has created a session for \<open>peer\<close>.\<close>

definition with_session :: "int \<Rightarrow> addr \<Rightarrow> udpRelay \<Rightarrow> udpRelay" where
  "with_session now peer r = r\<lparr>store := store r @
       [\<lparr>us_peer = peer, us_lastSeen = now, us_open = True, us_pump = Pumping\<rparr>],
     sessions := (peer, length (store r)) # sessions r\<rparr>"

lemma udp_session_cases:
  "udp_session now dial_err peer r = (res, r') \<Longrightarrow>
     (\<exists>i. map_of (sessions r) peer = Some i \<and> res = Inr i \<and> r' = r)
   \<or> (\<exists>e. map_of (sessions r) peer = None \<and> res = Inl e \<and> r' = r)
   \<or> (map_of (sessions r) peer = None \<and> res = Inr (length (store r)) \<and> r' = with_session now peer r)"
  by (auto simp: udp_session_def with_session_def Let_def split: option.splits)

lemma with_session_nth:
  "i < length (store r) \<Longrightarrow> store (with_session now peer r) ! i = store r ! i"
  "store (with_session now peer r) ! length (store r) =
     \<lparr>us_peer = peer, us_lastSeen = now, us_open = True, us_pump = Pumping\<rparr>"
  by (simp_all add: with_session_def nth_append)

lemma with_session_simps [simp]:
  "length (store (with_session now peer r)) = Suc (length (store r))"
  "sessions (with_session now peer r) = (peer, length (store r)) # sessions r"
  "expiring (with_session now peer r) = expiring r" "run_at (with_session now peer r) = run_at r"
  "got (with_session now peer r) = got r" "forwarded (with_session now peer r) = forwarded r"
  "from_upstream (with_session now peer r) = from_upstream r" "replied (with_session now peer r) = replied r"
  by (simp_all add: with_session_def expiring_def)

lemma with_session_map:
  "map_ok r \<Longrightarrow> map_of (sessions r) peer = None \<Longrightarrow> run_at r = Reading \<Longrightarrow> map_ok (with_session now peer r)"
  by (auto simp: map_ok_def with_session_nth map_of_eq_None_iff less_Suc_eq)

lemma with_session_sockets: "sockets_ok r \<Longrightarrow> sockets_ok (with_session now peer r)"
  by (auto simp: sockets_ok_def with_session_nth less_Suc_eq)

lemma with_session_accepted:
  "accepted up r i p \<Longrightarrow> accepted up (with_session now peer r) i p"
  "(peer, pkt) \<in> set (got r) \<Longrightarrow> up pkt = Some p \<Longrightarrow> accepted up (with_session now peer r) (length (store r)) p"
  by (auto simp: accepted_def with_session_nth)

lemma with_session_traffic:
  assumes "traffic_ok up down r" and "(peer, pkt) \<in> set (got r)" "up pkt = Some payload"
  shows "traffic_ok up down (with_session now peer r)"
proof -
  let ?r = "with_session now peer r"
  have "\<exists>p. accepted up ?r i p" if "i < Suc (length (store r))" for i
    using that assms with_session_accepted unfolding traffic_ok_def less_Suc_eq by blast
  moreover have "\<exists>i pkt. i < Suc (length (store r)) \<and> us_peer (store ?r ! i) = p
      \<and> (i, pkt) \<in> set (from_upstream r) \<and> down pkt = Some out"
    if "(p, out) \<in> set (replied r)" for p out
    using that assms(1) with_session_nth(1) [of _ r now peer] unfolding traffic_ok_def
    by (metis less_SucI)
  moreover have "accepted up ?r i p" if "run_at r = Forwarding i p \<or> (i, p) \<in> set (forwarded r)" for i p
    using that assms(1) with_session_accepted(1) unfolding traffic_ok_def by blast
  ultimately show ?thesis
    unfolding traffic_ok_def with_session_simps by (intro conjI allI impI) blast+
qed

lemma udp_session_ok:
  assumes "map_ok r" "sockets_ok r" "traffic_ok up down r" and run: "run_at r = Reading"
    and s: "udp_session now dial_err peer r = (res, r')"
    and acc: "(peer, pkt) \<in> set (got r)" "up pkt = Some payload"
  shows "map_ok r' \<and> sockets_ok r' \<and> traffic_ok up down r' \<and> (\<forall>i. res = Inr i \<longrightarrow> accepted up r' i payload)"
  using udp_session_cases [OF s]
proof (elim disjE exE conjE)
  fix i assume "map_of (sessions r) peer = Some i" "res = Inr i" "r' = r"
  moreover from this(1) have "(peer, i) \<in> set (sessions r)" by (rule map_of_SomeD)
  ultimately show ?thesis using assms by (auto simp: map_ok_def accepted_def)
next
  assume "map_of (sessions r) peer = None" "res = Inr (length (store r))" "r' = with_session now peer r"
  then show ?thesis
    using assms with_session_map with_session_sockets with_session_traffic with_session_accepted(2) by blast
qed (use assms in simp)

lemma udp_receive_ok:
  assumes "udp_inv up down r" and run: "run_at r = Reading"
  shows "udp_inv up down (udp_receive up now dial_err peer pkt r)"
proof -
  let ?r = "r\<lparr>got := got r @ [(peer, pkt)]\<rparr>"
  have inv: "map_ok ?r" "sockets_ok ?r" "traffic_ok up down ?r"
    using assms traffic_ok_got by (auto simp: udp_inv_def)
  show ?thesis
  proof (cases "up pkt")
    case None
    with inv show ?thesis by (simp add: udp_receive_def udp_inv_def)
  next
    case (Some payload)
    obtain res r' where s: "udp_session now dial_err peer ?r = (res, r')" by fastforce
    have "map_ok r'" "sockets_ok r'" "traffic_ok up down r' \<and> (\<forall>i. res = Inr i \<longrightarrow> accepted up r' i payload)"
      using udp_session_ok [OF inv _ s _ Some] run by simp_all
    with s Some show ?thesis
      by (cases res) (simp_all add: udp_receive_def udp_inv_def map_ok_pc traffic_ok_pc)
  qed
qed

text \<open>Deleting an entry only if it is one's own removes that session and no other.\<close>

lemma delete_own:
  assumes dist: "distinct (map fst m)" and own: "\<And>p j. (p, j) \<in> set m \<Longrightarrow> owner j = p"
  shows "(p, j) \<in> set (if map_of m (owner i) = Some i then filter (\<lambda>(p, _). p \<noteq> owner i) m else m)
    \<longleftrightarrow> (p, j) \<in> set m \<and> j \<noteq> i"
proof -
  have "(owner i, j) \<in> set m \<Longrightarrow> (owner i, i) \<in> set m \<Longrightarrow> j = i"
    using dist by (rule eq_key_imp_eq_value)
  moreover have "(p, i) \<in> set m \<Longrightarrow> p = owner i \<and> map_of m (owner i) = Some i"
    using own dist by auto
  ultimately show ?thesis using own [of p j] by (auto dest: map_of_SomeD)
qed

lemma udp_remove_ok:
  assumes "udp_inv up down r" and i: "i < length (store r)"
  shows "udp_inv up down (udp_remove i r)"
proof -
  define m where "m = (if map_of (sessions r) (us_peer (store r ! i)) = Some i
      then filter (\<lambda>(p, _). p \<noteq> us_peer (store r ! i)) (sessions r) else sessions r)"
  have eq: "udp_remove i r = upd_session i (\<lambda>s. s\<lparr>us_pump := Removed\<rparr>) (r\<lparr>sessions := m\<rparr>)"
    by (simp add: udp_remove_def Let_def m_def)
  have ok: "map_ok r" "sockets_ok r" using assms by (simp_all add: udp_inv_def)
  have mem: "(p, j) \<in> set m \<longleftrightarrow> (p, j) \<in> set (sessions r) \<and> j \<noteq> i" for p j
    unfolding m_def using ok(1) by (intro delete_own) (auto simp: map_ok_def)
  have "distinct (map fst m)"
    using ok(1) unfolding m_def map_ok_def by (simp only: distinct_map_filter split: if_split) simp
  moreover have "sessions r = [] \<Longrightarrow> m = []" by (simp add: m_def)
  ultimately have "map_ok (udp_remove i r)"
    using ok(1) i unfolding map_ok_def eq by (simp add: upd_session_nth expiring_def mem) blast
  moreover have "sockets_ok (udp_remove i r)"
    using ok(2) i unfolding sockets_ok_def eq by (simp add: upd_session_nth expiring_def mem)
  ultimately show ?thesis using assms by (simp add: udp_inv_def eq)
qed

lemma udp_remove_close_ok:
  assumes "udp_inv up down r" and i: "i < length (store r)" and "us_pump (store r ! i) = Removed"
  shows "udp_inv up down (udp_remove_close i r)"
proof -
  have "(p, i) \<notin> set (sessions r)" for p
    using assms by (auto simp: udp_inv_def map_ok_def)
  then have "map_ok (udp_remove_close i r)" "sockets_ok (udp_remove_close i r)"
    using assms by (auto simp: udp_inv_def map_ok_def sockets_ok_def udp_remove_close_def close_upstream_def
        upd_session_nth expiring_def)
  with assms show ?thesis by (simp add: udp_inv_def udp_remove_close_def close_upstream_def)
qed

lemma udp_sweep_ok:
  assumes "udp_inv up down r" and "sweep_at r = Ticking"
  shows "udp_inv up down (udp_sweep now r)"
proof -
  have "map_ok (udp_sweep now r)"
    using assms by (auto simp: udp_inv_def map_ok_def udp_sweep_def expiring_def Let_def distinct_map_filter)
  moreover have "sockets_ok (udp_sweep now r)"
    using assms by (fastforce simp: udp_inv_def sockets_ok_def udp_sweep_def expiring_def Let_def image_iff)
  ultimately show ?thesis using assms by (simp add: udp_inv_def udp_sweep_def Let_def)
qed

lemma close_upstream_ok:
  assumes "map_ok r" "sockets_ok r" and "\<And>p. (p, i) \<notin> set (sessions r)" and "i < length (store r)"
  shows "map_ok (close_upstream i r)" "sockets_ok (close_upstream i r)"
  using assms by (auto simp: map_ok_def sockets_ok_def close_upstream_def upd_session_nth expiring_def)

lemma udp_expire_ok:
  assumes "udp_inv up down r" and "sweep_at r = Expiring idle"
  shows "udp_inv up down (udp_expire idle r)"
proof (cases idle)
  case Nil
  with assms show ?thesis
    by (simp add: udp_inv_def map_ok_def sockets_ok_def udp_expire_def expiring_def)
next
  case (Cons i rest)
  have i: "i < length (store r)" "\<And>p. (p, i) \<notin> set (sessions r)"
    using assms Cons by (auto simp: udp_inv_def map_ok_def expiring_def)
  then have c: "map_ok (close_upstream i r)" "sockets_ok (close_upstream i r)"
    using assms close_upstream_ok by (auto simp: udp_inv_def)
  have sw: "sweep_at (close_upstream i r) = Expiring (i # rest)"
      and shut: "\<not> us_open (store (close_upstream i r) ! i)"
    using assms Cons i by (simp_all add: close_upstream_def upd_session_nth)
  have "map_ok ((close_upstream i r)\<lparr>sweep_at := Expiring rest\<rparr>)"
    using c(1) sw by (auto simp: map_ok_def expiring_def)
  moreover have "sockets_ok ((close_upstream i r)\<lparr>sweep_at := Expiring rest\<rparr>)"
    using c(2) sw shut by (auto simp: sockets_ok_def expiring_def)
  ultimately show ?thesis
    using assms Cons by (simp add: udp_inv_def udp_expire_def close_upstream_def)
qed

lemma udp_closeAll_simps:
  "sessions (udp_closeAll r) = [] \<and> length (store (udp_closeAll r)) = length (store r)
   \<and> sweep_at (udp_closeAll r) = sweep_at r \<and> run_at (udp_closeAll r) = run_at r
   \<and> listener_open (udp_closeAll r) = listener_open r \<and> close_started (udp_closeAll r) = close_started r
   \<and> udp_ctx_done (udp_closeAll r) = udp_ctx_done r
   \<and> traffic_ok up down (udp_closeAll r) = traffic_ok up down r"
proof -
  have "sessions (fold close_upstream is r) = sessions r \<and> length (store (fold close_upstream is r)) = length (store r)
   \<and> sweep_at (fold close_upstream is r) = sweep_at r \<and> run_at (fold close_upstream is r) = run_at r
   \<and> listener_open (fold close_upstream is r) = listener_open r
   \<and> close_started (fold close_upstream is r) = close_started r
   \<and> udp_ctx_done (fold close_upstream is r) = udp_ctx_done r
   \<and> traffic_ok up down (fold close_upstream is r) = traffic_ok up down r" for "is" r
    by (induction "is" arbitrary: r) (simp_all add: close_upstream_def)
  then show ?thesis by (simp add: udp_closeAll_def)
qed

lemma fold_close_nth:
  "set is \<subseteq> {..<length (store r)} \<Longrightarrow> j < length (store r) \<Longrightarrow>
     store (fold close_upstream is r) ! j =
       (if j \<in> set is then (store r ! j)\<lparr>us_open := False\<rparr> else store r ! j)"
  by (induction "is" arbitrary: r) (auto simp: close_upstream_def upd_session_nth)

lemma udp_return_ok:
  assumes "udp_inv up down r"
  shows "udp_inv up down (udp_return e r)"
proof -
  let ?r = "udp_closeAll r"
  have closed: "set (map snd (sessions r)) \<subseteq> {..<length (store r)}"
    using assms by (auto simp: udp_inv_def map_ok_def)
  have "store ?r ! j = (if j \<in> set (map snd (sessions r)) then (store r ! j)\<lparr>us_open := False\<rparr> else store r ! j)"
    if "j < length (store r)" for j
    using fold_close_nth [of "map snd (sessions r)" "r\<lparr>sessions := []\<rparr>" j] closed that
    by (simp add: udp_closeAll_def)
  moreover have "(p, j) \<in> set (sessions r) \<Longrightarrow> j \<in> set (map snd (sessions r))" for p j by force
  ultimately have "sockets_ok ?r"
    using assms udp_closeAll_simps [of r] by (auto simp: udp_inv_def sockets_ok_def expiring_def)
  moreover have "map_ok (?r\<lparr>run_at := pc\<rparr>)" for pc
    using assms udp_closeAll_simps [of r] by (auto simp: udp_inv_def map_ok_def expiring_def)
  moreover have "traffic_ok up down (?r\<lparr>run_at := Finished x\<rparr>)" for x
    using assms udp_closeAll_simps [of r up down] by (simp add: udp_inv_def traffic_ok_pc)
  ultimately show ?thesis by (simp add: udp_inv_def udp_return_def)
qed

lemmas udp_ok [gtun_steps] = udp_receive_ok udp_forward_ok udp_return_ok udp_pump_ok udp_remove_ok
  udp_remove_close_ok udp_sweep_ok udp_expire_ok

lemma udp_inv_step: "udp_step up down r r' \<Longrightarrow> udp_inv up down r \<Longrightarrow> udp_inv up down r'"
proof (induction rule: udp_step.induct)
  case (sweep_stops r)
  then show ?case by (simp add: udp_inv_def map_ok_def sockets_ok_def expiring_def)
next
  case (cancelled r)
  then show ?case by (simp add: udp_inv_def udp_cancel_def)
next
  case (cancel_closes r)
  then show ?case by (simp add: udp_inv_def)
qed (simp_all add: gtun_steps)

interpretation udp: invariant_system udp_init "udp_step up down" "udp_inv up down" for up down
proof
  show "udp_init r \<Longrightarrow> udp_inv up down r" for r by (simp add: udp_init_def)
  show "udp_inv up down r \<Longrightarrow> udp_step up down r r' \<Longrightarrow> udp_inv up down r'" for r r' by (rule udp_inv_step)
qed

section \<open>The two ends of the tunnel\<close>

text \<open>\<^verbatim>\<open>serveUDP\<close> and \<^verbatim>\<open>runUDP\<close> run the same relay with these filters.\<close>

definition server_up :: "string \<Rightarrow> datagramFilter" where
  "server_up token pkt = OpenDatagram token ClientToServer pkt"

definition server_down :: "string \<Rightarrow> datagramFilter" where
  "server_down token pkt = Some (SealDatagram token ServerToClient pkt)"

definition client_up :: "string \<Rightarrow> datagramFilter" where
  "client_up token pkt = Some (SealDatagram token ClientToServer pkt)"

definition client_down :: "string \<Rightarrow> datagramFilter" where
  "client_down token pkt = OpenDatagram token ServerToClient pkt"

text \<open>
  The contract of the pair of relays: what one end emits for a datagram, the other end accepts as that
  datagram, and it accepts nothing else. A relay whose filters satisfy it delivers exactly what was
  put in.
\<close>

locale tunnel_ends =
  fixes enter :: datagramFilter
    and leave :: datagramFilter
  assumes enter_some: "\<exists>q. enter p = Some q"
    and leave_enter: "leave q = Some p \<longleftrightarrow> enter p = Some q"
begin

lemma transparent: "Option.bind (enter p) leave = Some p"
proof -
  obtain q where "enter p = Some q" using enter_some by blast
  then show ?thesis using leave_enter by simp
qed

lemma accepted_entered: "accepted leave r i p \<Longrightarrow> \<exists>q. enter p = Some q \<and> (us_peer (store r ! i), q) \<in> set (got r)"
  by (auto simp: accepted_def leave_enter)

end

interpretation to_server: tunnel_ends "client_up token" "server_up token" for token
  by unfold_locales (auto simp: client_up_def server_up_def dg.open_iff)

interpretation to_client: tunnel_ends "server_down token" "client_down token" for token
  by unfold_locales (auto simp: server_down_def client_down_def dg.open_iff)

section \<open>Starting a relay\<close>

text \<open>
  The network, as the relay uses it: resolving an address, listening on one, and opening a socket connected to a resolved
  address. \<^verbatim>\<open>dialUDPFunc\<close> resolves once and returns the function that opens a socket each time it is called.
\<close>

record ('a, 'l, 'u) udp_net =
  un_ResolveUDPAddr :: "string \<Rightarrow> io_error + 'a"
  un_ListenPacket :: "string \<Rightarrow> io_error + 'l"
  un_DialUDP :: "'a \<Rightarrow> io_error + 'u"

datatype udp_error = UDPListen io_error | UDPResolve string io_error

definition listenUDP :: "('a, 'l, 'u) udp_net \<Rightarrow> string \<Rightarrow> udp_error + 'l" where
  "listenUDP N addr = (case un_ListenPacket N addr of Inl e \<Rightarrow> Inl (UDPListen e) | Inr pc \<Rightarrow> Inr pc)"

definition dialUDPFunc :: "('a, 'l, 'u) udp_net \<Rightarrow> string \<Rightarrow> udp_error + (unit \<Rightarrow> io_error + 'u)" where
  "dialUDPFunc N addr =
     (case un_ResolveUDPAddr N addr of
        Inl e \<Rightarrow> Inl (UDPResolve addr e)
      | Inr remote \<Rightarrow> Inr (\<lambda>_. un_DialUDP N remote))"

text \<open>The fields of \<^verbatim>\<open>udpRelay\<close> that its creator sets.\<close>

record ('l, 'u) relay_setup =
  ur_listener :: 'l
  ur_dial :: "unit \<Rightarrow> io_error + 'u"
  ur_up :: datagramFilter
  ur_down :: datagramFilter

section \<open>Properties\<close>

text \<open>One authenticated datagram, forwarded and answered, for the witnesses.\<close>

definition demo_sealed :: bytes where
  "demo_sealed = SealDatagram demo_token ClientToServer [1]"

definition demo_udp :: "nat \<Rightarrow> udpRelay" where
  "demo_udp n = [udp_start,
     udp_receive (server_up demo_token) 0 None ''p'' demo_sealed udp_start,
     udp_forward 1 True 0 [1] (udp_receive (server_up demo_token) 0 None ''p'' demo_sealed udp_start),
     udp_pump (server_down demo_token) 2 True 0 [9]
       (udp_forward 1 True 0 [1] (udp_receive (server_up demo_token) 0 None ''p'' demo_sealed udp_start))] ! n"

lemma demo_read [simp]: "read_datagram demo_sealed = demo_sealed" "read_datagram [b] = [b]"
  by (simp_all add: read_datagram_whole demo_sealed_def DatagramOverhead_def)

lemma demo_received: "udp_receive (server_up demo_token) 0 None ''p'' demo_sealed udp_start =
    udp_start\<lparr>got := [(''p'', demo_sealed)],
      store := [\<lparr>us_peer = ''p'', us_lastSeen = 0, us_open = True, us_pump = Pumping\<rparr>],
      sessions := [(''p'', 0)], run_at := Forwarding 0 [1]\<rparr>"
  by (simp add: udp_receive_def server_up_def demo_sealed_def dg.open_seal udp_session_def udp_start_def)

lemma demo_udp_3: "demo_udp 3 = udp_start\<lparr>got := [(''p'', demo_sealed)],
      store := [\<lparr>us_peer = ''p'', us_lastSeen = 2, us_open = True, us_pump = Pumping\<rparr>],
      sessions := [(''p'', 0)], forwarded := [(0, [1])], from_upstream := [(0, [9])],
      replied := [(''p'', SealDatagram demo_token ServerToClient [9])]\<rparr>"
  by (simp add: demo_udp_def demo_received)
    (simp add: udp_forward_def udp_pump_def server_down_def udp_touch_def upd_session_def udp_start_def Let_def)

lemma demo_udp_reach: "reach udp_init (udp_step (server_up demo_token) (server_down demo_token)) (demo_udp 3)"
proof -
  let ?step = "udp_step (server_up demo_token) (server_down demo_token)"
  have "reach udp_init ?step (demo_udp 0)" by (rule reach_init) (simp add: udp_init_def demo_udp_def)
  moreover have "?step (demo_udp 0) (demo_udp 1)"
    using receives [of "demo_udp 0" _ _ 0 None "''p''" demo_sealed] by (simp add: demo_udp_def udp_start_def)
  moreover have "?step (demo_udp 1) (demo_udp 2)"
    using forwards [of "demo_udp 1" 0 "[1]" _ _ 1 True] by (simp add: demo_udp_def demo_received)
  moreover have "?step (demo_udp 2) (demo_udp 3)"
    using pumps [of 0 "demo_udp 2" _ _ 2 True "[9]"]
    by (simp add: demo_udp_def demo_received udp_forward_def udp_touch_def upd_session_def Let_def)
  ultimately show ?thesis by (meson reach_step)
qed

text \<open>
  C10. No datagram reaches the target unauthenticated. In every reachable state of the server's relay,
  each session was created for a peer from which a datagram sealed with the token was read, and each
  payload written to the upstream socket of a session is the content of such a sealed datagram from
  that session's own peer.
\<close>

theorem udp_server_authenticated:
  assumes "reach udp_init (udp_step (server_up token) (server_down token)) r"
  shows "(\<forall>i < length (store r). \<exists>payload.
            (us_peer (store r ! i), SealDatagram token ClientToServer payload) \<in> set (got r))
       \<and> (\<forall>i payload. (i, payload) \<in> set (forwarded r) \<longrightarrow>
            (us_peer (store r ! i), SealDatagram token ClientToServer payload) \<in> set (got r))"
proof -
  from udp.inv_reach [OF assms] have "traffic_ok (server_up token) (server_down token) r"
    by (simp add: udp_inv_def)
  then show ?thesis
    using to_server.accepted_entered [of token r] unfolding traffic_ok_def by (auto simp: client_up_def) metis
qed

theorem udp_server_authenticated_witness:
  "(0, [1]) \<in> set (forwarded (demo_udp 3))
   \<and> (us_peer (store (demo_udp 3) ! 0), SealDatagram demo_token ClientToServer [1]) \<in> set (got (demo_udp 3))"
  using udp_server_authenticated [OF demo_udp_reach] by (simp add: demo_udp_3)

text \<open>
  C32. Replies go to the right peer only. In every reachable state of a relay, whatever its filters, each
  datagram written back to a peer is the filtered form of a datagram read from the upstream socket of a
  session of that peer.
\<close>

theorem udp_reply_routing:
  assumes "reach udp_init (udp_step up down) r" and "(p, out) \<in> set (replied r)"
  shows "\<exists>i pkt. i < length (store r) \<and> us_peer (store r ! i) = p \<and> (i, pkt) \<in> set (from_upstream r)
           \<and> down pkt = Some out"
  using udp.inv_reach [OF assms(1)] assms(2) by (auto simp: udp_inv_def traffic_ok_def)

theorem udp_reply_routing_witness:
  "\<exists>i pkt. us_peer (store (demo_udp 3) ! i) = ''p''
     \<and> server_down demo_token pkt = Some (SealDatagram demo_token ServerToClient [9])"
proof -
  have "(''p'', SealDatagram demo_token ServerToClient [9]) \<in> set (replied (demo_udp 3))"
    by (simp add: demo_udp_3)
  from udp_reply_routing [OF demo_udp_reach this] show ?thesis by blast
qed

text \<open>
  C11. No upstream socket leaks. In every reachable state, each open upstream socket belongs to the
  session its peer's entry points to, or is about to be closed by its own pump or by the sweeper; an
  entry never points to a closed socket or to a session of another peer; and once \<^verbatim>\<open>run\<close> has returned
  there are no entries.
\<close>

theorem udp_no_socket_leak:
  assumes "reach udp_init (udp_step up down) r"
  shows "(\<forall>i < length (store r). us_open (store r ! i) \<longrightarrow>
            map_of (sessions r) (us_peer (store r ! i)) = Some i
            \<or> us_pump (store r ! i) = Removed \<or> i \<in> expiring r)
       \<and> (\<forall>p i. map_of (sessions r) p = Some i \<longrightarrow>
            us_peer (store r ! i) = p \<and> us_open (store r ! i) \<and> us_pump (store r ! i) = Pumping)
       \<and> ((\<exists>e. run_at r = Finished e) \<longrightarrow> sessions r = [])"
proof -
  from udp.inv_reach [OF assms] have ok: "map_ok r" "sockets_ok r" by (simp_all add: udp_inv_def)
  then have "map_of (sessions r) p = Some i \<longleftrightarrow> (p, i) \<in> set (sessions r)" for p i
    by (simp add: map_ok_def)
  with ok show ?thesis unfolding map_ok_def sockets_ok_def by blast
qed

theorem udp_no_socket_leak_witness:
  "us_open (store (demo_udp 3) ! 0) \<and> us_peer (store (demo_udp 3) ! 0) = ''p''"
proof -
  have "map_of (sessions (demo_udp 3)) ''p'' = Some 0" by (simp add: demo_udp_3)
  with udp_no_socket_leak [OF demo_udp_reach] show ?thesis by blast
qed

text \<open>
  A session that is removed late takes no newer session with it. If a peer's session was replaced,
  the old session's \<^verbatim>\<open>remove\<close> leaves the new entry, and every other entry, in place.
\<close>

theorem udp_remove_own:
  assumes "reach udp_init (udp_step up down) r" and "i < length (store r)"
  shows "map_of (sessions (udp_remove i r)) p =
     (if map_of (sessions r) p = Some i then None else map_of (sessions r) p)"
proof -
  from udp.inv_reach [OF assms(1)] have "map_ok r" by (simp add: udp_inv_def)
  then have own: "map_of (sessions r) p = Some i \<Longrightarrow> p = us_peer (store r ! i)" for p
    by (auto simp: map_ok_def)
  have del: "map_of (filter (\<lambda>(p, _). p \<noteq> q) m) p = (if p = q then None else map_of m p)"
    for q :: addr and m :: "(addr \<times> nat) list"
    by (induction m) auto
  show ?thesis
  proof (cases "map_of (sessions r) (us_peer (store r ! i)) = Some i")
    case True
    then have "sessions (udp_remove i r) = filter (\<lambda>(p, _). p \<noteq> us_peer (store r ! i)) (sessions r)"
      by (simp only: udp_remove_def Let_def if_True upd_session_simps) simp
    with True own [of p] show ?thesis by (simp only: del) metis
  next
    case False
    then show ?thesis using own [of p] by (simp only: udp_remove_def Let_def if_False upd_session_simps) metis
  qed
qed

theorem udp_remove_own_witness:
  "map_of (sessions (udp_remove 0 (demo_udp 3))) ''p'' = None
   \<and> map_of (sessions (udp_remove 0 (demo_udp 3))) ''q'' = None"
proof -
  have "map_of (sessions (demo_udp 3)) ''p'' = Some 0" "map_of (sessions (demo_udp 3)) ''q'' = None"
      "0 < length (store (demo_udp 3))"
    by (simp_all add: demo_udp_3)
  with udp_remove_own [OF demo_udp_reach, of 0] show ?thesis by simp
qed

lemma finished_step:
  "udp_step up down r r' \<Longrightarrow> run_at r = Finished x \<and> listener_open r \<and> \<not> close_started r \<Longrightarrow>
     run_at r' = Finished x \<and> listener_open r' \<and> \<not> close_started r'"
  by (induction rule: udp_step.induct) (auto simp: udp_pump_def udp_remove_def udp_remove_close_def udp_sweep_def
      udp_expire_def udp_cancel_def Let_def close_upstream_def udp_touch_def split: option.splits list.splits)

lemma finished_run:
  "(udp_step up down)\<^sup>*\<^sup>* r r' \<Longrightarrow> run_at r = Finished x \<and> listener_open r \<and> \<not> close_started r \<Longrightarrow>
     run_at r' = Finished x \<and> listener_open r' \<and> \<not> close_started r'"
  by (induction rule: rtranclp_induct) (use finished_step in blast)+

text \<open>
  C34. A transient read error ends the relay with the listening socket still open. \<^verbatim>\<open>run\<close> returns the
  error, its hook on the context is taken down, and along every continuation, cancellation included,
  the socket is never closed: a relay restarted on the same address cannot bind it.
\<close>

theorem udp_error_leaves_listener_open:
  assumes "listener_open r" and "\<not> udp_ctx_done r" and "\<not> close_started r" and "e \<noteq> ErrClosed"
    and "(udp_step up down)\<^sup>*\<^sup>* (udp_return e r) r'"
  shows "run_at r' = Finished (Some e) \<and> listener_open r'"
proof -
  have "run_at (udp_return e r) = Finished (Some e)" "listener_open (udp_return e r)" "\<not> close_started (udp_return e r)"
    using assms udp_closeAll_simps [of r] by (simp_all add: udp_return_def)
  with finished_run [OF assms(5)] show ?thesis by blast
qed

theorem udp_error_leaves_listener_open_witness:
  "udp_step (server_up demo_token) (server_down demo_token) udp_start (udp_return (OtherIO 1) udp_start)
   \<and> run_at (udp_cancel (udp_return (OtherIO 1) udp_start)) = Finished (Some (OtherIO 1))
   \<and> listener_open (udp_cancel (udp_return (OtherIO 1) udp_start))"
proof -
  let ?step = "udp_step (server_up demo_token) (server_down demo_token)"
  have "?step udp_start (udp_return (OtherIO 1) udp_start)"
    by (rule returns) (simp_all add: udp_start_def)
  moreover have "?step\<^sup>*\<^sup>* (udp_return (OtherIO 1) udp_start) (udp_cancel (udp_return (OtherIO 1) udp_start))"
    by (rule r_into_rtranclp) (rule cancelled)
  from udp_error_leaves_listener_open [OF _ _ _ _ this]
  have "run_at (udp_cancel (udp_return (OtherIO 1) udp_start)) = Finished (Some (OtherIO 1))
      \<and> listener_open (udp_cancel (udp_return (OtherIO 1) udp_start))"
    by (simp add: udp_start_def)
  ultimately show ?thesis by blast
qed

text \<open>
  The sweeper expires exactly the idle sessions: a tick at time \<open>now\<close> keeps the entries seen within the
  last three minutes, removes the others, and hands each removed session to the list it then closes.
\<close>

theorem udp_sweep_idle:
  "((p, i) \<in> set (sessions (udp_sweep now r)) \<longleftrightarrow>
      (p, i) \<in> set (sessions r) \<and> now - us_lastSeen (store r ! i) \<le> 180000000000)
   \<and> expiring (udp_sweep now r) =
      {i. \<exists>p. (p, i) \<in> set (sessions r) \<and> now - us_lastSeen (store r ! i) > 180000000000}"
  by (auto simp: udp_sweep_def expiring_def udpIdleTimeout_def Let_def image_iff)

text \<open>
  An idle session is gone within four minutes. The sweeper ticks once a minute from whichever moment it started; for a
  session last seen at some later moment there is a tick more than three and at most four minutes after it, and a sweep at
  that tick takes the session out of the map and closes it.
\<close>

theorem udp_idle_bound:
  assumes "start \<le> seen" and "(p, i) \<in> set (sessions r)" and "us_lastSeen (store r ! i) = seen"
  shows "\<exists>k :: nat. let tick = start + int k * udpSweepInterval in
     seen + 180000000000 < tick \<and> tick \<le> seen + 240000000000
     \<and> (p, i) \<notin> set (sessions (udp_sweep tick r)) \<and> i \<in> expiring (udp_sweep tick r)"
proof -
  define k where "k = nat ((seen + 180000000000 - start) div 60000000000 + 1)"
  have "int k = (seen + 180000000000 - start) div 60000000000 + 1" using assms(1) by (simp add: k_def)
  then have "seen + 180000000000 < start + int k * 60000000000" "start + int k * 60000000000 \<le> seen + 240000000000"
    by (simp_all add: algebra_simps)
  then show ?thesis
    using assms(2,3) by (intro exI [of _ k]) (force simp: udp_sweep_def expiring_def udpIdleTimeout_def udpSweepInterval_def Let_def)
qed

theorem udp_idle_bound_witness:
  "\<exists>k :: nat. int k * udpSweepInterval \<le> 240000000002 \<and> 0 \<in> expiring (udp_sweep (int k * udpSweepInterval) (demo_udp 3))"
  using udp_idle_bound [of 0 2 "''p''" 0 "demo_udp 3"] by (simp add: demo_udp_3 Let_def) blast

end
