(* ===== verification/Transport.thy ===== *)
theory Transport
  imports Control Netutil Tlsutil Wsconn Udp_Relay
begin

text \<open>
  The common part of package \<^verbatim>\<open>transport\<close>: files \<^verbatim>\<open>transport.go\<close>, \<^verbatim>\<open>kcp.go\<close> and \<^verbatim>\<open>quic.go\<close>, and the constants of \<^verbatim>\<open>stealth.go\<close>, of
  \<^verbatim>\<open>internal/transport\<close>. Options and constructors of the two ends, the handshake under a deadline, and
  the parameters handed to the carrier libraries.
\<close>

section \<open>Constants and options\<close>

definition second :: int where "second = 10 ^ 9"

definition handshakeTimeout :: int where "handshakeTimeout = 10 * second"
definition dialTimeout :: int where "dialTimeout = 10 * second"
definition keepAlive :: int where "keepAlive = 15 * second"

text \<open>A \<^verbatim>\<open>net.Dialer\<close>.\<close>

record net_dialer =
  nd_Timeout :: int
  nd_KeepAlive :: int

definition quicALPN :: string where "quicALPN = ''h3''"
definition stealthProtocolLevel :: nat where "stealthProtocolLevel = 3"
definition stealthUser :: string where "stealthUser = ''gtun''"

text \<open>The settings that the two ends hand to the ShadowTLS library.\<close>

record stealth_service_config =
  ssc_Version :: nat
  ssc_Users :: "(string \<times> string) list"
  ssc_Handshake :: string
  ssc_StrictMode :: bool

record stealth_client_config =
  scc_Version :: nat
  scc_Password :: string
  scc_StrictMode :: bool

record ServerOptions =
  so_Protocol :: name
  so_ListenAddr :: string
  so_Target :: string
  so_Token :: string
  so_CertPath :: string
  so_KeyPath :: string
  so_KCP :: KCP
  so_StealthHandshake :: string

record 'p ClientOptions =
  co_Protocol :: name
  co_ServerAddr :: string
  co_ListenAddr :: string
  co_Token :: string
  co_CertPath :: string
  co_KCP :: KCP
  co_StealthSNI :: string
  co_StealthRootCAs :: "'p option"

record 'c server =
  srv_opts :: ServerOptions
  srv_tls :: "'c tls_config option"

record ('p, 'c) client =
  cl_opts :: "'p ClientOptions"
  cl_tls :: "'c tls_config option"

section \<open>Constructors\<close>

datatype transport_error =
    TransportProtocol proto_error
  | StealthAddress addr_error
  | StealthNeedsSNI
  | TransportTLS tls_error

definition alpn :: "name \<Rightarrow> string list" where
  "alpn p = (if p = QUIC then [quicALPN] else [])"

definition NewServer ::
  "(string \<Rightarrow> string \<Rightarrow> io_error + 'c) \<Rightarrow> ServerOptions \<Rightarrow> transport_error + 'c server" where
  "NewServer loadX509KeyPair o' =
     (case Parse (so_Protocol o') of
        Inl e \<Rightarrow> Inl (TransportProtocol e)
      | Inr _ \<Rightarrow>
          (case (if so_Protocol o' = Stealth then SplitHostPort (so_StealthHandshake o') else Inr ([], [])) of
             Inl e \<Rightarrow> Inl (StealthAddress e)
           | Inr _ \<Rightarrow>
               if TLS (so_Protocol o')
               then (case ServerConfig loadX509KeyPair (so_CertPath o') (so_KeyPath o') (alpn (so_Protocol o')) of
                       Inl e \<Rightarrow> Inl (TransportTLS e)
                     | Inr tls \<Rightarrow> Inr \<lparr>srv_opts = o', srv_tls = Some tls\<rparr>)
               else Inr \<lparr>srv_opts = o', srv_tls = None\<rparr>))"

definition NewClient ::
  "(bytes \<Rightarrow> (string \<times> bytes) option) \<Rightarrow> (string \<Rightarrow> io_error + bytes) \<Rightarrow> 'p ClientOptions \<Rightarrow>
     transport_error + ('p, 'c) client" where
  "NewClient pem_Decode rdFile o' =
     (case Parse (co_Protocol o') of
        Inl e \<Rightarrow> Inl (TransportProtocol e)
      | Inr _ \<Rightarrow>
          if co_Protocol o' = Stealth \<and> co_StealthSNI o' = [] then Inl StealthNeedsSNI
          else if TLS (co_Protocol o')
          then (case PinnedClientConfig pem_Decode rdFile (co_CertPath o') (alpn (co_Protocol o')) of
                  Inl e \<Rightarrow> Inl (TransportTLS e)
                | Inr tls \<Rightarrow> Inr \<lparr>cl_opts = o', cl_tls = Some tls\<rparr>)
          else Inr \<lparr>cl_opts = o', cl_tls = None\<rparr>)"

section \<open>The handshake under a deadline\<close>

datatype handshake_error = DeadlineError io_error | HandshakeError auth_error

definition handshake :: "(auth_error + bytes) io \<Rightarrow> handshake_error option io" where
  "handshake fn =
     DoSetDeadline (Some handshakeTimeout) (\<lambda>d. case d of
       Some e \<Rightarrow> Ret (Some (DeadlineError e))
     | None \<Rightarrow>
         io_bind fn (\<lambda>r. case r of
           Inl e \<Rightarrow> Ret (Some (HandshakeError e))
         | Inr _ \<Rightarrow>
             DoSetDeadline None (\<lambda>d. case d of
               Some e \<Rightarrow> Ret (Some (DeadlineError e))
             | None \<Rightarrow> Ret None)))"

definition serverHandshake :: "string \<Rightarrow> handshake_error option io" where
  "serverHandshake token = handshake (ServerHandshake token)"

definition clientHandshake :: "string \<Rightarrow> handshake_error option io" where
  "clientHandshake token = handshake (ClientHandshake token)"

text \<open>A handshake that reports no error has run to its end.\<close>

lemma handshake_run_None:
  assumes "io_run g flt (handshake fn) c e None c' e' ws"
  shows "\<exists>ch. io_run g flt fn c e (Inr ch) c' e' ws"
proof -
  from assms have "io_run g flt (io_bind fn (\<lambda>r. case r of Inl e \<Rightarrow> Ret (Some (HandshakeError e))
      | Inr _ \<Rightarrow> DoSetDeadline None (\<lambda>d. case d of Some e \<Rightarrow> Ret (Some (DeadlineError e)) | None \<Rightarrow> Ret None)))
      c e None c' e' ws"
    unfolding handshake_def by (auto split: option.splits)
  from io_run_bindD [OF this] show ?thesis by (fastforce split: sum.splits option.splits)
qed

text \<open>The right proof is accepted where nothing fails.\<close>

lemma serverHandshake_run_accepts:
  assumes "io_run g False (serverHandshake token) (nc @ Sign token labelClient [nc, ns] @ rest) e r c' e' ws"
    and "length nc = NonceSize" and "rand_Read g NonceSize = Inr ns"
  shows "r = None \<and> c' = rest"
  using assms unfolding serverHandshake_def handshake_def ServerHandshake_def
  by (auto simp: read_result_def)

lemma clientHandshake_run_accepts:
  assumes "io_run g False (clientHandshake token) (ns @ Sign token labelServer [nc, ns] @ rest) e r c' e' ws"
    and "length ns = NonceSize" and "rand_Read g NonceSize = Inr nc"
  shows "r = None \<and> c' = rest"
  using assms unfolding clientHandshake_def handshake_def ClientHandshake_def
  by (auto simp: read_result_def Let_def)

text \<open>What a successful handshake says about the peer, over every connection.\<close>

context connection
begin

lemma serverHandshake_sound:
  assumes "run_io ops g (serverHandshake token) s = Some (None, s')"
  shows "\<exists>nc ns. length nc = NonceSize \<and> rand_Read g NonceSize = Inr ns
    \<and> content s = nc @ Sign token labelClient [nc, ns] @ content s'"
  using run_io_io_run [OF assms, of True] handshake_run_None
  unfolding serverHandshake_def by (fastforce simp: ServerHandshake_run_iff)

lemma clientHandshake_sound:
  assumes "run_io ops g (clientHandshake token) s = Some (None, s')"
  shows "\<exists>nc ns. length ns = NonceSize \<and> rand_Read g NonceSize = Inr nc
    \<and> content s = ns @ Sign token labelServer [nc, ns] @ content s'"
  using run_io_io_run [OF assms, of True] handshake_run_None
  unfolding clientHandshake_def by (fastforce simp: ClientHandshake_run_iff)

lemma serverHandshake_accepts:
  assumes "reliable s" and "content s = nc @ Sign token labelClient [nc, ns] @ tail"
    and "length nc = NonceSize" and "rand_Read g NonceSize = Inr ns"
  shows "\<exists>s'. run_io ops g (serverHandshake token) s = Some (None, s') \<and> content s' = tail"
proof -
  obtain r s' ws where run: "run_io ops g (serverHandshake token) s = Some (r, s')"
    and io: "io_run g False (serverHandshake token) (content s) (final s) r (content s') (final s') ws"
    using run_io_refines [of False s g "serverHandshake token"] assms(1) by blast
  from serverHandshake_run_accepts [OF io [unfolded assms(2)] assms(3,4)] run show ?thesis by blast
qed

end

section \<open>Carrier parameters\<close>

text \<open>The fields of \<^verbatim>\<open>smux.Config\<close> and \<^verbatim>\<open>quic.Config\<close> that the package sets.\<close>

record mux_config =
  mux_KeepAliveInterval :: int
  mux_KeepAliveTimeout :: int
  mux_MaxFrameSize :: int
  mux_MaxReceiveBuffer :: int
  mux_MaxStreamBuffer :: int

definition muxConfig :: "mux_config \<Rightarrow> mux_config" where
  "muxConfig defaultConfig = defaultConfig\<lparr>mux_KeepAliveInterval := 10 * second, mux_KeepAliveTimeout := 30 * second,
     mux_MaxFrameSize := 32 * 1024, mux_MaxReceiveBuffer := 4 * 1024 * 1024, mux_MaxStreamBuffer := 64 * 1024\<rparr>"

record quic_config =
  quic_KeepAlivePeriod :: int
  quic_MaxIdleTimeout :: int
  quic_MaxIncomingStreams :: int

definition quicConfig :: quic_config where
  "quicConfig = \<lparr>quic_KeepAlivePeriod = 10 * second, quic_MaxIdleTimeout = 5 * 60 * second,
     quic_MaxIncomingStreams = 10000\<rparr>"

definition quicStreamMarker :: byte where "quicStreamMarker = 1"

text \<open>The cipher of the KCP library is a parameter, a function of the key.\<close>

definition kcpBlockCrypt :: "(bytes \<Rightarrow> io_error + 'b) \<Rightarrow> string \<Rightarrow> io_error + 'b" where
  "kcpBlockCrypt newAESBlockCrypt token =
     (case newAESBlockCrypt (DeriveKey token ''kcp'') of Inl e \<Rightarrow> Inl e | Inr block \<Rightarrow> Inr block)"

datatype kcp_call = SetNoDelay int int int int | SetWindowSize int int

definition tuneKCP :: "KCP \<Rightarrow> kcp_call list" where
  "tuneKCP k = [SetNoDelay (NoDelay k) (Interval k) (Resend k) (NoCongestion k), SetWindowSize (SndWnd k) (RcvWnd k)]"

end
