(* ===== verification/Transport_Server.thy ===== *)
theory Transport_Server
  imports Transport
begin

text \<open>
  The server's end of the transports: \<^verbatim>\<open>internal/transport/server.go\<close> and the server's part of
  \<^verbatim>\<open>internal/transport/stealth.go\<close>. Handlers are functions from what the outside does (the bytes of a
  connection, the outcomes of the carrier libraries and of dialling the target) to the list of things the
  handler does. The actions of goroutines started on behalf of streams are listed in the order in which
  the streams were accepted. Cancellation of the context closes the connection under the handler, which
  then sees its reads and writes fail, as any connection may. The carriers (smux, KCP, QUIC, ShadowTLS, WebSocket) are parameters.
\<close>

section \<open>Actions\<close>

datatype stream_id = WholeConn | MuxStream nat | QuicStream nat

datatype server_event =
    Reject handshake_error
  | SmuxFailed io_error
  | CloseConn
  | CloseSession
  | DialTarget stream_id string
  | DialTargetFailed stream_id io_error
  | CloseStream stream_id
  | PipeTo stream_id string

text \<open>
  What happens around one connection: the outcome of starting the smux session, the streams it accepts
  before it fails, and for each stream how dialling the target ends.
\<close>

type_synonym target_dial = "net_dialer \<Rightarrow> string \<Rightarrow> stream_id \<Rightarrow> io_error option"

record conn_env =
  ce_smux :: "io_error option"
  ce_streams :: "nat list"
  ce_dial :: target_dial

section \<open>Handlers\<close>

definition handleStream :: "'c server \<Rightarrow> target_dial \<Rightarrow> stream_id \<Rightarrow> server_event list" where
  "handleStream s dial st =
     (let dialer = \<lparr>nd_Timeout = dialTimeout, nd_KeepAlive = keepAlive\<rparr>; target = so_Target (srv_opts s) in
      DialTarget st target #
        (case dial dialer target st of
           Some e \<Rightarrow> [DialTargetFailed st e, CloseStream st]
         | None \<Rightarrow> [PipeTo st target]))"

definition handleConn ::
  "'s conn_ops \<Rightarrow> entropy \<Rightarrow> 'c server \<Rightarrow> conn_env \<Rightarrow> 's \<Rightarrow> (server_event list \<times> 's) option" where
  "handleConn ops g s env conn =
     (case run_io ops g (serverHandshake (so_Token (srv_opts s))) conn of
        None \<Rightarrow> None
      | Some (Some err, conn) \<Rightarrow> Some ([Reject err, CloseConn], op_Close ops conn)
      | Some (None, conn) \<Rightarrow>
          if \<not> Mux (so_Protocol (srv_opts s)) then Some (handleStream s (ce_dial env) WholeConn, conn)
          else (case ce_smux env of
                  Some e \<Rightarrow> Some ([SmuxFailed e, CloseConn], op_Close ops conn)
                | None \<Rightarrow>
                    Some (concat (map (\<lambda>i. handleStream s (ce_dial env) (MuxStream i)) (ce_streams env))
                          @ [CloseSession], conn)))"

text \<open>The QUIC handlers. Each stream is a connection of its own.\<close>

definition quic_marker :: "bool io" where
  "quic_marker =
     DoReadFull 1 (\<lambda>r. case r of
       Inl _ \<Rightarrow> DoClose (Ret False)
     | Inr marker \<Rightarrow> if marker ! 0 \<noteq> quicStreamMarker then DoClose (Ret False) else Ret True)"

definition handleQUICStream ::
  "'s conn_ops \<Rightarrow> entropy \<Rightarrow> 'c server \<Rightarrow> target_dial \<Rightarrow> nat \<times> 's \<Rightarrow> (server_event list \<times> 's) option" where
  "handleQUICStream ops g s dial st =
     (case run_io ops g quic_marker (snd st) of
        None \<Rightarrow> None
      | Some (False, st') \<Rightarrow> Some ([CloseStream (QuicStream (fst st))], st')
      | Some (True, st') \<Rightarrow> Some (handleStream s dial (QuicStream (fst st)), st'))"

text \<open>
  \<open>first\<close> is the outcome of accepting the authentication stream, \<open>streams\<close> are the streams accepted after it
  before accepting fails.
\<close>

definition serveQUICConn ::
  "'s conn_ops \<Rightarrow> entropy \<Rightarrow> 'c server \<Rightarrow> target_dial \<Rightarrow> io_error + 's \<Rightarrow> (nat \<times> 's) list \<Rightarrow>
     server_event list option" where
  "serveQUICConn ops g s dial first streams =
     (case first of
        Inl _ \<Rightarrow> Some [CloseConn]
      | Inr authStream \<Rightarrow>
          (case run_io ops g (serverHandshake (so_Token (srv_opts s))) authStream of
             None \<Rightarrow> None
           | Some (Some err, _) \<Rightarrow> Some [Reject err, CloseConn]
           | Some (None, _) \<Rightarrow>
               Some (CloseStream (QuicStream 0)
                 # concat (map (\<lambda>st. case handleQUICStream ops g s dial st of None \<Rightarrow> [] | Some (evs, _) \<Rightarrow> evs) streams)
                 @ [CloseConn])))"

section \<open>Listeners\<close>

datatype serve_error =
    ListenFailed io_error
  | AcceptFailed io_error
  | HTTPFailed io_error
  | KCPCipher io_error
  | CreateStealth io_error
  | UnsupportedProtocolServe name

text \<open>A connection as it comes out of a listener, with what happens to it.\<close>

type_synonym 's arrival = "entropy \<times> conn_env \<times> 's"

type_synonym 's conn_outcome = "(server_event list \<times> 's) option"

text \<open>
  Each listener yields its error, if it failed, or whether it has returned, and the outcome of the handler of every
  connection. Listening on an address, with a keep-alive period where one is set, is a parameter. \<^verbatim>\<open>serveTCP\<close>:
\<close>

definition serveTCP ::
  "'s conn_ops \<Rightarrow> 'c server \<Rightarrow> (int \<Rightarrow> string \<Rightarrow> io_error option) \<Rightarrow> 's arrival accept_event list \<Rightarrow>
     (serve_error + bool) \<times> 's conn_outcome list" where
  "serveTCP ops s listen evs =
     (case listen keepAlive (so_ListenAddr (srv_opts s)) of
        Some e \<Rightarrow> (Inl (ListenFailed e), [])
      | None \<Rightarrow>
          (case AcceptLoop evs of (acts, returned) \<Rightarrow>
             (Inr returned, map (\<lambda>(g, env, c). handleConn ops g s env c) (handled acts))))"

text \<open>\<^verbatim>\<open>serveKCP\<close> tunes each session before it is handled.\<close>

definition serveKCP ::
  "'s conn_ops \<Rightarrow> (bytes \<Rightarrow> io_error + 'b) \<Rightarrow> 'c server \<Rightarrow> (string \<Rightarrow> 'b \<Rightarrow> int \<Rightarrow> int \<Rightarrow> io_error option) \<Rightarrow>
     's arrival accept_event list \<Rightarrow> (serve_error + bool) \<times> (kcp_call list \<times> 's conn_outcome) list" where
  "serveKCP ops newAESBlockCrypt s listenWithOptions evs =
     (case kcpBlockCrypt newAESBlockCrypt (so_Token (srv_opts s)) of
        Inl e \<Rightarrow> (Inl (KCPCipher e), [])
      | Inr block \<Rightarrow>
          (let k = so_KCP (srv_opts s) in
           case listenWithOptions (so_ListenAddr (srv_opts s)) block (DataShards k) (ParityShards k) of
             Some e \<Rightarrow> (Inl (ListenFailed e), [])
           | None \<Rightarrow>
               (case AcceptLoop evs of (acts, returned) \<Rightarrow>
                  (Inr returned, map (\<lambda>(g, env, c). (tuneKCP k, handleConn ops g s env c)) (handled acts)))))"

text \<open>
  \<^verbatim>\<open>serveWebSocket\<close>: the handler is installed under the path of the protocol; a request to another path, or
  one that cannot be upgraded, reaches nothing. \<open>listenAndServe\<close> and \<open>listenAndServeTLS\<close> are the two methods of the HTTP
  server, as functions of the server's fields: the error the method returns, if it has returned;
  \<^verbatim>\<open>http.ErrServerClosed\<close>, here \<open>ErrClosed\<close>, is no error.
\<close>

record 'w ws_request =
  rq_path :: string
  rq_upgrade :: "io_error + 'w"
  rq_entropy :: entropy
  rq_env :: conn_env

definition ws_path :: "name \<Rightarrow> string" where
  "ws_path p = ''/'' @ p"

definition handle_request ::
  "'w websocket_ops \<Rightarrow> 'c server \<Rightarrow> 'w ws_request \<Rightarrow> 'w wsConn conn_outcome" where
  "handle_request W s rq =
     (if rq_path rq \<noteq> ws_path (so_Protocol (srv_opts s)) then None
      else case rq_upgrade rq of
        Inl _ \<Rightarrow> None
      | Inr ws \<Rightarrow> handleConn (wsConn_ops W) (rq_entropy rq) s (rq_env rq) (newWSConn ws))"

record 'c http_server =
  hs_Addr :: string
  hs_ReadHeaderTimeout :: int
  hs_TLSConfig :: "'c tls_config option"

definition serveWebSocket ::
  "'w websocket_ops \<Rightarrow> 'c server \<Rightarrow> ('c http_server \<Rightarrow> io_error option) \<Rightarrow> ('c http_server \<Rightarrow> io_error option) \<Rightarrow>
     'w ws_request list \<Rightarrow> (serve_error + bool) \<times> 'w wsConn conn_outcome list" where
  "serveWebSocket W s listenAndServe listenAndServeTLS requests =
     (let srv = \<lparr>hs_Addr = so_ListenAddr (srv_opts s), hs_ReadHeaderTimeout = handshakeTimeout, hs_TLSConfig = srv_tls s\<rparr>;
          err = (if TLS (so_Protocol (srv_opts s)) then listenAndServeTLS srv else listenAndServe srv) in
      ((case err of
          None \<Rightarrow> Inr False
        | Some e \<Rightarrow> if e = ErrClosed then Inr True else Inl (HTTPFailed e)),
       map (handle_request W s) requests))"

text \<open>The loop of \<^verbatim>\<open>serveQUIC\<close> over the outcomes of \<^verbatim>\<open>Accept\<close>; the flag of a failure is \<^verbatim>\<open>ctx.Err() != nil\<close>.\<close>

record 's quic_arrival =
  qa_entropy :: entropy
  qa_dial :: target_dial
  qa_first :: "io_error + 's"
  qa_streams :: "(nat \<times> 's) list"

fun serveQUIC_loop ::
  "'s conn_ops \<Rightarrow> 'c server \<Rightarrow> (io_error \<times> bool + 's quic_arrival) list \<Rightarrow>
     (serve_error + bool) \<times> server_event list option list" where
  "serveQUIC_loop ops s [] = (Inr False, [])"
| "serveQUIC_loop ops s (Inl (e, ctx_done) # _) = ((if ctx_done then Inr True else Inl (AcceptFailed e)), [])"
| "serveQUIC_loop ops s (Inr a # rest) =
     (case serveQUIC_loop ops s rest of (r, outs) \<Rightarrow>
        (r, serveQUICConn ops (qa_entropy a) s (qa_dial a) (qa_first a) (qa_streams a) # outs))"

definition serveQUIC ::
  "'s conn_ops \<Rightarrow> 'c server \<Rightarrow> (string \<Rightarrow> 'c tls_config option \<Rightarrow> quic_config \<Rightarrow> io_error option) \<Rightarrow>
     (io_error \<times> bool + 's quic_arrival) list \<Rightarrow> (serve_error + bool) \<times> server_event list option list" where
  "serveQUIC ops s listenAddr arrivals =
     (case listenAddr (so_ListenAddr (srv_opts s)) (srv_tls s) quicConfig of Some e \<Rightarrow> (Inl (ListenFailed e), []) | None \<Rightarrow> serveQUIC_loop ops s arrivals)"

text \<open>
  \<^verbatim>\<open>serveStealth\<close>. The ShadowTLS service is a parameter: for each raw connection it either hands the inner
  connection of a client that proved itself to the handler, with or without a function to call in the end, or relays
  the connection to the real site; it may report an error in the end, upon which the raw connection is closed.
\<close>

record ('r, 's) stealth_service =
  ss_new :: "stealth_service_config \<Rightarrow> io_error option"
  ss_inner :: "'r \<Rightarrow> ('s arrival \<times> bool) option"
  ss_error :: "'r \<Rightarrow> io_error option"

definition stealth_service_config_of :: "'c server \<Rightarrow> stealth_service_config" where
  "stealth_service_config_of s =
     \<lparr>ssc_Version = stealthProtocolLevel, ssc_Users = [(stealthUser, so_Token (srv_opts s))],
      ssc_Handshake = so_StealthHandshake (srv_opts s), ssc_StrictMode = True\<rparr>"

text \<open>\<^verbatim>\<open>stealthHandler.NewConnectionEx\<close>; the second component tells whether \<^verbatim>\<open>onClose\<close> is called.\<close>

definition NewConnectionEx ::
  "'s conn_ops \<Rightarrow> 'c server \<Rightarrow> 's arrival \<Rightarrow> bool \<Rightarrow> 's conn_outcome \<times> bool" where
  "NewConnectionEx ops s arrival onClose =
     (case arrival of (g, env, c) \<Rightarrow> (handleConn ops g s env c, onClose))"

definition handle_stealth ::
  "'s conn_ops \<Rightarrow> ('r, 's) stealth_service \<Rightarrow> 'c server \<Rightarrow> 'r \<Rightarrow> 's conn_outcome \<times> bool" where
  "handle_stealth ops S s raw =
     ((case ss_inner S raw of None \<Rightarrow> None | Some (arrival, onClose) \<Rightarrow> fst (NewConnectionEx ops s arrival onClose)),
      ss_error S raw \<noteq> None)"

definition serveStealth ::
  "'s conn_ops \<Rightarrow> ('r, 's) stealth_service \<Rightarrow> 'c server \<Rightarrow> (int \<Rightarrow> string \<Rightarrow> io_error option) \<Rightarrow> 'r accept_event list \<Rightarrow>
     (serve_error + bool) \<times> ('s conn_outcome \<times> bool) list" where
  "serveStealth ops S s listen evs =
     (case ss_new S (stealth_service_config_of s) of
        Some e \<Rightarrow> (Inl (CreateStealth e), [])
      | None \<Rightarrow>
          (case listen keepAlive (so_ListenAddr (srv_opts s)) of
             Some e \<Rightarrow> (Inl (ListenFailed e), [])
           | None \<Rightarrow>
               (case AcceptLoop evs of (acts, returned) \<Rightarrow>
                  (Inr returned, map (handle_stealth ops S s) (handled acts)))))"

text \<open>\<^verbatim>\<open>serveUDP\<close> up to the start of the relay, which it sets up.\<close>

definition serveUDP :: "('a, 'l, 'u) udp_net \<Rightarrow> 'c server \<Rightarrow> udp_error + ('l, 'u) relay_setup" where
  "serveUDP N s =
     (case dialUDPFunc N (so_Target (srv_opts s)) of
        Inl e \<Rightarrow> Inl e
      | Inr dial \<Rightarrow>
          (case listenUDP N (so_ListenAddr (srv_opts s)) of
             Inl e \<Rightarrow> Inl e
           | Inr conn \<Rightarrow>
               (let token = so_Token (srv_opts s) in
                Inr \<lparr>ur_listener = conn, ur_dial = dial, ur_up = server_up token, ur_down = server_down token\<rparr>)))"

text \<open>The dispatch of \<^verbatim>\<open>Serve\<close>.\<close>

datatype serve_kind = ServeTCP | ServeWebSocket | ServeKCP | ServeQUIC | ServeUDP | ServeStealth

definition Serve :: "'c server \<Rightarrow> serve_error + serve_kind" where
  "Serve s =
     (let p = so_Protocol (srv_opts s) in
      if p \<in> set [TCP, TCPMux] then Inr ServeTCP
      else if p \<in> set [WS, WSS, WSMux, WSSMux] then Inr ServeWebSocket
      else if p = UTCPMux then Inr ServeKCP
      else if p = QUIC then Inr ServeQUIC
      else if p = UDP then Inr ServeUDP
      else if p = Stealth then Inr ServeStealth
      else Inl (UnsupportedProtocolServe p))"

section \<open>Only authenticated peers\<close>

text \<open>The bytes of a peer that proved knowledge of the token to a run with the given randomness.\<close>

definition proves_token :: "string \<Rightarrow> entropy \<Rightarrow> bytes \<Rightarrow> bool" where
  "proves_token token g bs \<longleftrightarrow> (\<exists>nc ns rest. length nc = NonceSize \<and> rand_Read g NonceSize = Inr ns
     \<and> bs = nc @ Sign token labelClient [nc, ns] @ rest)"

text \<open>The streams an authenticated connection carries: itself, or those its smux session accepts.\<close>

definition served_streams :: "'c server \<Rightarrow> conn_env \<Rightarrow> stream_id set" where
  "served_streams s env =
     (if \<not> Mux (so_Protocol (srv_opts s)) then {WholeConn}
      else if ce_smux env = None then MuxStream ` set (ce_streams env) else {})"

lemma handleStream_targets:
  "DialTarget st' t \<in> set (handleStream s dial st) \<longleftrightarrow> st' = st \<and> t = so_Target (srv_opts s)"
  by (auto simp: handleStream_def Let_def split: option.splits)

lemma handleStream_quiet [simp]:
  "Reject e \<notin> set (handleStream s dial st)" "CloseConn \<notin> set (handleStream s dial st)"
  by (auto simp: handleStream_def Let_def split: option.splits)

context connection
begin

lemma handshake_outcome:
  "\<exists>r s'. run_io ops g (serverHandshake token) s = Some (r, s') \<and> (r = None \<longrightarrow> proves_token token g (content s))"
proof -
  obtain r s' where "run_io ops g (serverHandshake token) s = Some (r, s')"
    using run_io_returns [of g "serverHandshake token" s] by blast
  moreover from this have "r = None \<longrightarrow> proves_token token g (content s)"
    using serverHandshake_sound [of g token s s'] unfolding proves_token_def by blast
  ultimately show ?thesis by blast
qed

lemma handleConn_cases:
  "\<exists>evs c'. handleConn ops g s env c = Some (evs, c')
     \<and> (proves_token (so_Token (srv_opts s)) g (content c) \<or> (\<exists>e. evs = [Reject e, CloseConn] \<and> content c' = []))
     \<and> (\<forall>st t. DialTarget st t \<in> set evs \<longrightarrow>
          proves_token (so_Token (srv_opts s)) g (content c) \<and> t = so_Target (srv_opts s))"
proof -
  obtain r c1 where run: "run_io ops g (serverHandshake (so_Token (srv_opts s))) c = Some (r, c1)"
    and ok: "r = None \<longrightarrow> proves_token (so_Token (srv_opts s)) g (content c)"
    using handshake_outcome [of g "so_Token (srv_opts s)" c] by blast
  show ?thesis
  proof (cases r)
    case None
    with run ok show ?thesis
      by (auto simp: handleConn_def handleStream_targets split: option.splits)
  next
    case (Some e)
    with run close_frame show ?thesis by (auto simp: handleConn_def)
  qed
qed

lemma handleConn_serves:
  assumes "reliable c" and "proves_token (so_Token (srv_opts s)) g (content c)"
    and "handleConn ops g s env c = Some (evs, c')"
  shows "served_streams s env \<subseteq> {st. DialTarget st (so_Target (srv_opts s)) \<in> set evs}"
proof -
  from assms(2) obtain nc ns tail where "length nc = NonceSize" "rand_Read g NonceSize = Inr ns"
      "content c = nc @ Sign (so_Token (srv_opts s)) labelClient [nc, ns] @ tail"
    unfolding proves_token_def by blast
  from serverHandshake_accepts [OF assms(1) this(3) this(1) this(2)] obtain c1 where
    "run_io ops g (serverHandshake (so_Token (srv_opts s))) c = Some (None, c1)" by blast
  with assms(3) show ?thesis
    by (auto simp: handleConn_def served_streams_def handleStream_targets split: option.splits if_splits)
qed

lemma quic_marker_run:
  "\<exists>s'. run_io ops g quic_marker s = Some ((case content s of [] \<Rightarrow> False | b # _ \<Rightarrow> b = quicStreamMarker), s')
     \<and> content s' = (case content s of [] \<Rightarrow> [] | b # bs \<Rightarrow> if b = quicStreamMarker then bs else [])"
proof -
  obtain r s' ws where run: "run_io ops g quic_marker s = Some (r, s')"
    and io: "io_run g True quic_marker (content s) (final s) r (content s') (final s') ws"
    using run_io_refines [of True s g quic_marker] by blast
  from io have "r = (case content s of [] \<Rightarrow> False | b # _ \<Rightarrow> b = quicStreamMarker)
      \<and> content s' = (case content s of [] \<Rightarrow> [] | b # bs \<Rightarrow> if b = quicStreamMarker then bs else [])"
    unfolding quic_marker_def by (cases "content s") (auto simp: read_result_def split: if_splits)
  with run show ?thesis by blast
qed

lemma serveQUICConn_targets:
  assumes "serveQUICConn ops g s dial first streams = Some evs" and "DialTarget st t \<in> set evs"
  shows "(\<exists>c. first = Inr c \<and> proves_token (so_Token (srv_opts s)) g (content c)) \<and> t = so_Target (srv_opts s)
    \<and> (\<exists>i c bs. st = QuicStream i \<and> (i, c) \<in> set streams \<and> content c = quicStreamMarker # bs)"
proof (cases first)
  case (Inl e)
  with assms show ?thesis by (auto simp: serveQUICConn_def)
next
  case (Inr c)
  obtain r c1 where run: "run_io ops g (serverHandshake (so_Token (srv_opts s))) c = Some (r, c1)"
    and ok: "r = None \<longrightarrow> proves_token (so_Token (srv_opts s)) g (content c)"
    using handshake_outcome [of g "so_Token (srv_opts s)" c] by blast
  have hq: "Some (evs', y) = handleQUICStream ops g s dial x \<Longrightarrow> DialTarget st t \<in> set evs' \<Longrightarrow>
      t = so_Target (srv_opts s) \<and> (\<exists>bs. st = QuicStream (fst x) \<and> content (snd x) = quicStreamMarker # bs)" for x y evs'
    using quic_marker_run [of g "snd x"]
    by (auto simp: handleQUICStream_def handleStream_targets split: option.splits bool.splits list.splits)
  show ?thesis
  proof (cases r)
    case None
    with run Inr assms hq ok show ?thesis by (fastforce simp: serveQUICConn_def split: option.splits)
  next
    case (Some e)
    with run Inr assms show ?thesis by (auto simp: serveQUICConn_def)
  qed
qed

end

lemma handled_outcomes:
  "x \<in> set (map f (handled (fst (AcceptLoop evs)))) \<Longrightarrow> \<exists>a \<in> set (accepted_conns evs). x = f a"
  using set_takeWhileD [of _ "Not \<circ> stops" evs]
  by (auto simp: AcceptLoop_def AcceptLoop_from_handled accepted_conns_def)

section \<open>Properties\<close>

definition demo_server :: "name \<Rightarrow> unit server" where
  "demo_server p = \<lparr>srv_opts = \<lparr>so_Protocol = p, so_ListenAddr = '':1'', so_Target = ''h:1'', so_Token = demo_token,
     so_CertPath = [], so_KeyPath = [], so_KCP = DefaultKCP, so_StealthHandshake = []\<rparr>, srv_tls = None\<rparr>"

definition demo_env :: conn_env where
  "demo_env = \<lparr>ce_smux = None, ce_streams = [3, 5], ce_dial = \<lambda>_ _ _. None\<rparr>"

lemma demo_handshake:
  "\<exists>c'. run_io net_ops (Inr (\<lambda>_. 2)) (serverHandshake demo_token) demo_client_stream = Some (None, c')"
  using netc.serverHandshake_accepts [of demo_client_stream demo_nc demo_token demo_ns "[]" "Inr (\<lambda>_. 2)"]
  by (auto simp: demo_client_stream_def)

text \<open>
  C3. The target is out of reach of unauthenticated peers. For every stream protocol and over every
  connection that keeps the connection contract (TCP, KCP, WebSocket, the inner ShadowTLS connection), whatever
  the peer sends and whatever the carrier does: \<^verbatim>\<open>handleConn\<close> comes to an end; the only address it dials is
  the configured target; and it dials only if the peer's bytes prove knowledge of the token to this very run.
  Otherwise it does nothing but refuse and close the connection. Conversely, where no write fails, a peer that
  proves knowledge of the token has the target dialled for each of its streams.
\<close>

theorem target_needs_token:
  assumes "connection ops content final todo sent reliable"
  shows "\<exists>evs c'. handleConn ops g s env c = Some (evs, c')
     \<and> (\<forall>st t. DialTarget st t \<in> set evs \<longrightarrow>
          proves_token (so_Token (srv_opts s)) g (content c) \<and> t = so_Target (srv_opts s))
     \<and> (\<not> proves_token (so_Token (srv_opts s)) g (content c) \<longrightarrow>
          (\<exists>e. evs = [Reject e, CloseConn]) \<and> content c' = [])
     \<and> (reliable c \<and> proves_token (so_Token (srv_opts s)) g (content c) \<longrightarrow>
          served_streams s env \<subseteq> {st. DialTarget st (so_Target (srv_opts s)) \<in> set evs})"
  using connection.handleConn_cases [OF assms, of g s env c] connection.handleConn_serves [OF assms] by blast

theorem target_needs_token_witness:
  "\<exists>evs c'. handleConn net_ops (Inr (\<lambda>_. 2)) (demo_server TCPMux) demo_env demo_client_stream = Some (evs, c')
     \<and> DialTarget (MuxStream 5) ''h:1'' \<in> set evs
     \<and> proves_token demo_token (Inr (\<lambda>_. 2)) (conn_content demo_client_stream)"
proof -
  obtain c' where "run_io net_ops (Inr (\<lambda>_. 2)) (serverHandshake demo_token) demo_client_stream = Some (None, c')"
    using demo_handshake by blast
  then have run: "handleConn net_ops (Inr (\<lambda>_. 2)) (demo_server TCPMux) demo_env demo_client_stream =
      Some (concat (map (\<lambda>i. handleStream (demo_server TCPMux) (ce_dial demo_env) (MuxStream i)) [3, 5])
        @ [CloseSession], c')"
    by (simp add: handleConn_def demo_server_def demo_env_def Mux_def)
  moreover have "DialTarget (MuxStream 5) ''h:1'' \<in> set (concat (map (\<lambda>i. handleStream (demo_server TCPMux)
      (ce_dial demo_env) (MuxStream i)) [3, 5]) @ [CloseSession])"
    by (simp add: handleStream_targets) (simp add: demo_server_def)
  ultimately show ?thesis
    using target_needs_token [OF netc.connection_axioms, of "Inr (\<lambda>_. 2)" "demo_server TCPMux" demo_env
        demo_client_stream]
    by (auto simp: demo_server_def)
qed

text \<open>
  C18. The same for QUIC. Over streams that keep the connection contract, \<^verbatim>\<open>serveQUICConn\<close> dials the target, for
  whichever stream, only if the first stream of the connection was accepted and its bytes prove knowledge of
  the token, only for a stream accepted afterwards whose first byte is the marker, and it dials nothing but the
  configured target.
\<close>

theorem quic_target_needs_token:
  assumes "connection ops content final todo sent reliable"
    and "serveQUICConn ops g s dial first streams = Some evs" and "DialTarget st t \<in> set evs"
  shows "(\<exists>c. first = Inr c \<and> proves_token (so_Token (srv_opts s)) g (content c)) \<and> t = so_Target (srv_opts s)
    \<and> (\<exists>i c bs. st = QuicStream i \<and> (i, c) \<in> set streams \<and> content c = quicStreamMarker # bs)"
  using connection.serveQUICConn_targets [OF assms] .

theorem quic_target_needs_token_witness:
  "\<exists>evs. serveQUICConn net_ops (Inr (\<lambda>_. 2)) (demo_server QUIC) (\<lambda>_ _ _. None) (Inr demo_client_stream)
      [(1, conn_of [[1, 42]])] = Some evs
    \<and> DialTarget (QuicStream 1) ''h:1'' \<in> set evs
    \<and> proves_token demo_token (Inr (\<lambda>_. 2)) (conn_content demo_client_stream)"
proof -
  obtain c' where hs: "run_io net_ops (Inr (\<lambda>_. 2)) (serverHandshake demo_token) demo_client_stream = Some (None, c')"
    using demo_handshake by blast
  obtain st where mk: "run_io net_ops (Inr (\<lambda>_. 2)) quic_marker (conn_of [[1, 42]]) = Some (True, st)"
    using netc.quic_marker_run [of "Inr (\<lambda>_. 2)" "conn_of [[1, 42]]"] by (auto simp: quicStreamMarker_def)
  define evs where "evs = CloseStream (QuicStream 0) # handleStream (demo_server QUIC) (\<lambda>_ _ _. None) (QuicStream 1)
      @ [CloseConn]"
  have "handleQUICStream net_ops (Inr (\<lambda>_. 2)) (demo_server QUIC) (\<lambda>_ _ _. None) (1, conn_of [[1, 42]]) =
      Some (handleStream (demo_server QUIC) (\<lambda>_ _ _. None) (QuicStream 1), st)"
    using mk by (simp add: handleQUICStream_def)
  moreover have "so_Token (srv_opts (demo_server QUIC)) = demo_token" by (simp add: demo_server_def)
  ultimately have run: "serveQUICConn net_ops (Inr (\<lambda>_. 2)) (demo_server QUIC) (\<lambda>_ _ _. None) (Inr demo_client_stream)
      [(1, conn_of [[1, 42]])] = Some evs"
    using hs by (simp add: serveQUICConn_def evs_def)
  have dial: "DialTarget (QuicStream 1) ''h:1'' \<in> set evs"
    by (simp add: evs_def handleStream_targets) (simp add: demo_server_def)
  from quic_target_needs_token [OF netc.connection_axioms run dial] run dial show ?thesis
    by (auto simp: demo_server_def)
qed

text \<open>
  The marker byte of a QUIC stream is invisible to the application: a stream whose first byte is the
  marker is relayed, starting with the byte after it; any other stream, and one that ends before its first
  byte, is closed and not relayed.
\<close>

theorem quic_marker_stripped:
  assumes "connection ops content final todo sent reliable"
  shows "\<exists>evs st'. handleQUICStream ops g s dial (i, st) = Some (evs, st')
    \<and> (if \<exists>bs. content st = quicStreamMarker # bs
       then evs = handleStream s dial (QuicStream i) \<and> content st = quicStreamMarker # content st'
       else evs = [CloseStream (QuicStream i)])"
proof -
  from connection.quic_marker_run [OF assms, of g st] obtain st'
    where "run_io ops g quic_marker st = Some ((case content st of [] \<Rightarrow> False | b # _ \<Rightarrow> b = quicStreamMarker), st')"
      and "content st' = (case content st of [] \<Rightarrow> [] | b # bs \<Rightarrow> if b = quicStreamMarker then bs else [])"
    by blast
  then show ?thesis
    by (cases "content st"; cases "hd (content st) = quicStreamMarker") (simp_all add: handleQUICStream_def)
qed

theorem quic_marker_stripped_witness:
  "\<exists>st'. handleQUICStream net_ops (Inr (\<lambda>_. 0)) (demo_server QUIC) (\<lambda>_ _ _. None) (1, conn_of [[quicStreamMarker, 42]]) =
      Some (handleStream (demo_server QUIC) (\<lambda>_ _ _. None) (QuicStream 1), st') \<and> conn_content st' = [42]"
  using quic_marker_stripped [OF netc.connection_axioms, of "Inr (\<lambda>_. 0)" "demo_server QUIC" "\<lambda>_ _ _. None" 1
      "conn_of [[quicStreamMarker, 42]]"]
  by auto

text \<open>
  A TCP listener serves every connection it accepts through \<^verbatim>\<open>handleConn\<close>, and so no connection reaches
  the target unauthenticated, whatever arrives in whatever order and whenever accepting fails.
\<close>

theorem serve_tcp_safe:
  assumes "serveTCP net_ops s listen evs = (r, outs)" and "Some (acts, c') \<in> set outs"
    and "DialTarget st t \<in> set acts"
  shows "t = so_Target (srv_opts s) \<and> (\<exists>g env c. (g, env, c) \<in> set (accepted_conns evs)
     \<and> proves_token (so_Token (srv_opts s)) g (conn_content c))"
proof -
  from assms(1,2) have "Some (acts, c') \<in>
      set (map (\<lambda>(g, env, c). handleConn net_ops g s env c) (handled (fst (AcceptLoop evs))))"
    by (auto simp: serveTCP_def split: option.splits prod.splits)
  from handled_outcomes [OF this] obtain g env c where c: "(g, env, c) \<in> set (accepted_conns evs)"
    and run: "handleConn net_ops g s env c = Some (acts, c')"
    by auto
  from netc.handleConn_cases [of g s env c] run assms(3)
  have "proves_token (so_Token (srv_opts s)) g (conn_content c) \<and> t = so_Target (srv_opts s)"
    by auto
  with c show ?thesis by blast
qed

theorem serve_tcp_safe_witness:
  "\<exists>acts c'. serveTCP net_ops (demo_server TCP) (\<lambda>_ _. None)
      [\<lparr>ae_accept = Inr (Inr (\<lambda>_. 2), demo_env, demo_client_stream), ae_ctx_done = False, ae_timer = False\<rparr>] =
        (Inr False, [Some (acts, c')])
    \<and> DialTarget WholeConn ''h:1'' \<in> set acts
    \<and> (\<exists>g c. proves_token demo_token g (conn_content c))"
proof -
  let ?evs = "[\<lparr>ae_accept = Inr (Inr (\<lambda>_. 2), demo_env, demo_client_stream), ae_ctx_done = False, ae_timer = False\<rparr>]"
  obtain c' where "run_io net_ops (Inr (\<lambda>_. 2)) (serverHandshake demo_token) demo_client_stream = Some (None, c')"
    using demo_handshake by blast
  then have "handleConn net_ops (Inr (\<lambda>_. 2)) (demo_server TCP) demo_env demo_client_stream =
      Some (handleStream (demo_server TCP) (ce_dial demo_env) WholeConn, c')"
    by (simp add: handleConn_def demo_server_def Mux_def proto_names)
  then have run: "serveTCP net_ops (demo_server TCP) (\<lambda>_ _. None) ?evs =
      (Inr False, [Some (handleStream (demo_server TCP) (ce_dial demo_env) WholeConn, c')])"
    by (simp add: serveTCP_def AcceptLoop_def handled_def)
  have dial: "DialTarget WholeConn ''h:1'' \<in> set (handleStream (demo_server TCP) (ce_dial demo_env) WholeConn)"
    by (simp add: handleStream_targets) (simp add: demo_server_def)
  from serve_tcp_safe [OF run _ dial] run dial show ?thesis
    by (auto simp: demo_server_def)
qed

text \<open>
  A server that was constructed can serve: if \<^verbatim>\<open>NewServer\<close> succeeds, the protocol is one of the ten supported
  ones and \<^verbatim>\<open>Serve\<close> dispatches it to a listener, never to the error at its end; a TLS configuration with the
  server's certificate is present exactly for the protocols that need one, with at least TLS 1.3.
\<close>

theorem new_server_serves:
  assumes "NewServer loadPair o' = Inr s"
  shows "srv_opts s = o' \<and> so_Protocol o' \<in> set supported \<and> (\<exists>k. Serve s = Inr k)
     \<and> (TLS (so_Protocol o') \<longleftrightarrow> srv_tls s \<noteq> None)
     \<and> (\<forall>tls. srv_tls s = Some tls \<longrightarrow> tc_MinVersion tls = VersionTLS13 \<and>
          (\<exists>cert. loadPair (so_CertPath o') (so_KeyPath o') = Inr cert \<and> tc_Certificates tls = [cert]))"
proof -
  from assms have p: "so_Protocol o' \<in> set supported" and o: "srv_opts s = o'"
    by (auto simp: NewServer_def split: sum.splits if_splits)
  from p o have "\<exists>k. Serve s = Inr k"
    by (auto simp: Serve_def supported_def)
  with assms p o show ?thesis
    by (auto simp: NewServer_def ServerConfig_def split: sum.splits if_splits)
qed

theorem new_server_serves_witness:
  "\<exists>s. NewServer (\<lambda>_ _. Inr ()) (srv_opts (demo_server WSS)) = Inr s \<and> Serve s = Inr ServeWebSocket \<and> srv_tls s \<noteq> None"
proof -
  obtain s where s: "NewServer (\<lambda>_ _. Inr ()) (srv_opts (demo_server WSS)) = Inr s"
    by (simp add: NewServer_def demo_server_def ServerConfig_def Parse_supported supported_def TLS_def proto_names)
  from new_server_serves [OF s] have "srv_opts s = srv_opts (demo_server WSS)" "TLS WSS \<longleftrightarrow> srv_tls s \<noteq> None"
    by (simp_all add: demo_server_def)
  with s show ?thesis
    by (simp add: Serve_def demo_server_def TLS_def proto_names)
qed

end
