(* ===== verification/Server_Main.thy ===== *)
theory Server_Main
  imports Transport_Server
begin

text \<open>
  Package \<^verbatim>\<open>server\<close>, file \<^verbatim>\<open>internal/server/server.go\<close>: the control listener, its handler, and \<^verbatim>\<open>Run\<close>, which
  runs the control and the data listener side by side and stops both when one ends.
\<close>

section \<open>The control handler\<close>

definition controlHandshakeTimeout :: int where "controlHandshakeTimeout = 10 * second"

text \<open>How the handler ended: one constructor per return, and how the final wait ended.\<close>

datatype control_outcome =
    NoDeadline io_error
  | ControlRejected auth_error
  | SendFailed control_error
  | NoResetDeadline io_error
  | ClientGone "io_error option"

text \<open>The deferred \<^verbatim>\<open>Close\<close> runs on every return.\<close>

definition closing :: "'a \<Rightarrow> 'a io" where
  "closing a = DoClose (Ret a)"

definition handleControl :: "string \<Rightarrow> control_config \<Rightarrow> control_outcome io" where
  "handleControl token announce =
     DoSetDeadline (Some controlHandshakeTimeout) (\<lambda>d. case d of
       Some e \<Rightarrow> closing (NoDeadline e)
     | None \<Rightarrow>
         io_bind (ServerHandshake token) (\<lambda>r. case r of
           Inl e \<Rightarrow> closing (ControlRejected e)
         | Inr channel \<Rightarrow>
             io_bind (Send token channel announce) (\<lambda>w. case w of
               Some e \<Rightarrow> closing (SendFailed e)
             | None \<Rightarrow>
                 DoSetDeadline None (\<lambda>d. case d of
                   Some e \<Rightarrow> closing (NoResetDeadline e)
                 | None \<Rightarrow> DoDiscard (\<lambda>e. closing (ClientGone e))))))"

section \<open>The control listener\<close>

definition announcement :: "Server \<Rightarrow> control_config" where
  "announcement cfg = \<lparr>ctl_Protocol = srv_Protocol cfg, ctl_Port = srv_DataPort cfg,
     ctl_KCP = (if srv_Protocol cfg = UTCPMux then srv_KCP cfg else None)\<rparr>"

datatype server_error =
    ControlListen io_error
  | DataServe serve_error

definition serverKeepAlive :: int where "serverKeepAlive = 15 * second"

definition serveControl ::
  "'s conn_ops \<Rightarrow> Server \<Rightarrow> (int \<Rightarrow> string \<Rightarrow> io_error option) \<Rightarrow> (entropy \<times> 's) accept_event list \<Rightarrow>
     (server_error + bool) \<times> (control_outcome \<times> 's) option list" where
  "serveControl ops cfg listen evs =
     (case listen serverKeepAlive (JoinHostPort [] (srv_ControlPort cfg)) of
        Some e \<Rightarrow> (Inl (ControlListen e), [])
      | None \<Rightarrow>
          (case AcceptLoop evs of (acts, returned) \<Rightarrow>
             (Inr returned,
              map (\<lambda>(g, c). run_io ops g (handleControl (srv_Token cfg) (announcement cfg)) c) (handled acts))))"

section \<open>Run\<close>

text \<open>The options of the data transport. A nil KCP pointer cannot be dereferenced: \<open>None\<close> is the panic.\<close>

definition server_options :: "Server \<Rightarrow> ServerOptions option" where
  "server_options cfg =
     (case srv_KCP cfg of
        None \<Rightarrow> None
      | Some k \<Rightarrow> Some
          \<lparr>so_Protocol = srv_Protocol cfg, so_ListenAddr = JoinHostPort [] (srv_DataPort cfg),
           so_Target = srv_TargetAddress cfg, so_Token = srv_Token cfg, so_CertPath = srv_TLSCertPath cfg,
           so_KeyPath = srv_TLSKeyPath cfg, so_KCP = k, so_StealthHandshake = srv_StealthHandshakeServer cfg\<rparr>)"

text \<open>
  After the constructor, \<^verbatim>\<open>Run\<close> is a small concurrent program: listener goroutines that send their result to a
  channel, and the main goroutine, which receives the first result, cancels the context and receives the
  rest. The channel has room for both results. \<open>joined\<close> collects the non-nil errors, as
  \<^verbatim>\<open>errors.Join\<close> does.
\<close>

datatype listener = DataListener | ControlListener

record run_state =
  live :: "listener list"
  queue :: "(listener \<times> server_error option) list"
  received :: nat
  run_cancelled :: bool
  joined :: "server_error list"
  finished :: bool

definition run_listeners :: "name \<Rightarrow> listener list" where
  "run_listeners p = DataListener # (if p \<noteq> Stealth then [ControlListener] else [])"

definition run_start :: "name \<Rightarrow> run_state" where
  "run_start p = \<lparr>live = run_listeners p, queue = [], received = 0, run_cancelled = False, joined = [], finished = False\<rparr>"

definition receive :: "run_state \<Rightarrow> run_state" where
  "receive r =
     (case queue r of
        [] \<Rightarrow> r
      | (_, e) # q \<Rightarrow> r\<lparr>queue := q, received := Suc (received r), run_cancelled := True,
                       joined := joined r @ (case e of None \<Rightarrow> [] | Some x \<Rightarrow> [x])\<rparr>)"

text \<open>
  A listener that ends on its own, with whatever result, and the end of the surrounding context are up to the outside
  (\<open>env\<close>). Once the context that \<^verbatim>\<open>Run\<close> passes to its listeners is done, each of them stops: its accept loop sees the
  listening socket closed.
\<close>

inductive run_step :: "bool \<Rightarrow> name \<Rightarrow> run_state \<Rightarrow> run_state \<Rightarrow> bool" for env :: bool and p :: name where
  listener_ends: "env \<Longrightarrow> l \<in> set (live r) \<Longrightarrow>
    run_step env p r (r\<lparr>live := remove1 l (live r), queue := queue r @ [(l, e)]\<rparr>)"
| context_done: "env \<Longrightarrow> run_step env p r (r\<lparr>run_cancelled := True\<rparr>)"
| listener_stops: "run_cancelled r \<Longrightarrow> l \<in> set (live r) \<Longrightarrow>
    run_step env p r (r\<lparr>live := remove1 l (live r), queue := queue r @ [(l, e)]\<rparr>)"
| main_receives: "queue r \<noteq> [] \<Longrightarrow> received r < length (run_listeners p) \<Longrightarrow> run_step env p r (receive r)"
| main_returns: "received r = length (run_listeners p) \<Longrightarrow> \<not> finished r \<Longrightarrow> run_step env p r (r\<lparr>finished := True\<rparr>)"

definition run_init :: "name \<Rightarrow> run_state \<Rightarrow> bool" where
  "run_init p r \<longleftrightarrow> r = run_start p"

text \<open>Every listener is running, or its result is in the channel, or the result has been received.\<close>

definition run_inv :: "name \<Rightarrow> run_state \<Rightarrow> bool" where
  "run_inv p r \<longleftrightarrow> length (live r) + length (queue r) + received r = length (run_listeners p)
     \<and> set (live r) \<subseteq> set (run_listeners p) \<and> set (map fst (queue r)) \<subseteq> set (run_listeners p)
     \<and> (length (live r) = length (run_listeners p) \<longrightarrow> live r = run_listeners p)
     \<and> (0 < received r \<longrightarrow> run_cancelled r)
     \<and> (finished r \<longrightarrow> received r = length (run_listeners p))"

lemma run_inv_end:
  assumes "run_inv p r" and "l \<in> set (live r)"
  shows "run_inv p (r\<lparr>live := remove1 l (live r), queue := queue r @ [(l, e)]\<rparr>)"
proof -
  from assms(2) have "length (live r) = Suc (length (live r) - 1)" by (cases "live r") auto
  with assms show ?thesis
    using set_remove1_subset [of l "live r"] by (auto simp: run_inv_def length_remove1)
qed

lemma run_inv_step: "run_step env p r r' \<Longrightarrow> run_inv p r \<Longrightarrow> run_inv p r'"
proof (induction rule: run_step.induct)
  case (main_receives r)
  then obtain l e q where "queue r = (l, e) # q" by (cases "queue r") auto
  with main_receives show ?case by (simp add: run_inv_def receive_def)
qed (simp_all add: run_inv_end, simp_all add: run_inv_def)

interpretation serve: invariant_system "run_init p" "run_step env p" "run_inv p" for env p
proof
  show "run_init p r \<Longrightarrow> run_inv p r" for r
    by (simp add: run_init_def run_start_def run_inv_def)
  show "run_inv p r \<Longrightarrow> run_step env p r r' \<Longrightarrow> run_inv p r'" for r r' by (rule run_inv_step)
qed

text \<open>
  \<^verbatim>\<open>Run\<close> goes on until something stirs it: the context is done, or a listener has ended. What is left to do from then
  on: every listener still has to end and to be received.
\<close>

definition stirred :: "name \<Rightarrow> run_state \<Rightarrow> bool" where
  "stirred p r \<longleftrightarrow> run_cancelled r \<or> live r \<noteq> run_listeners p"

definition run_rank :: "run_state \<Rightarrow> nat" where
  "run_rank r = 2 * length (live r) + length (queue r) + (if finished r then 0 else 1)"

lemma run_step_decreases: "run_step False p r r' \<Longrightarrow> run_rank r' < run_rank r"
proof (induction rule: run_step.induct)
  case (listener_stops r l e)
  then obtain n where "length (live r) = Suc n" by (cases "live r") auto
  with listener_stops show ?case by (simp add: run_rank_def length_remove1)
next
  case (main_receives r)
  then show ?case by (cases "queue r") (auto simp: run_rank_def receive_def)
qed (simp_all add: run_rank_def)

lemma run_step_enabled:
  assumes inv: "run_inv p r" and "stirred p r" and "\<not> finished r"
  shows "\<exists>r'. run_step False p r r'"
proof -
  consider "queue r \<noteq> []" | "queue r = []" "live r = []" | "queue r = []" "live r \<noteq> []" by blast
  then show ?thesis
  proof cases
    case 1
    with inv have "received r < length (run_listeners p)" by (cases "queue r") (auto simp: run_inv_def)
    with 1 show ?thesis using main_receives by blast
  next
    case 2
    with inv have "received r = length (run_listeners p)" by (simp add: run_inv_def)
    with assms(3) show ?thesis using main_returns by blast
  next
    case 3
    have "run_cancelled r"
    proof (cases "received r")
      case 0
      with inv 3 have "live r = run_listeners p" by (simp add: run_inv_def)
      with assms(2) show ?thesis by (simp add: stirred_def)
    qed (use inv in \<open>simp add: run_inv_def\<close>)
    with 3 show ?thesis using listener_stops hd_in_set by blast
  qed
qed

lemma stirred_step: "run_step False p r r' \<Longrightarrow> run_inv p r \<Longrightarrow> stirred p r \<Longrightarrow> stirred p r'"
  by (induction rule: run_step.induct) (auto simp: stirred_def receive_def split: list.splits)

lemma unstirred_waits:
  assumes "run_inv p r" and "\<not> stirred p r"
  shows "\<not> run_step False p r r'"
proof
  from assms have "queue r = []" "received r = 0" "\<not> run_cancelled r" by (auto simp: stirred_def run_inv_def)
  moreover have "run_listeners p \<noteq> []" by (simp add: run_listeners_def)
  moreover assume "run_step False p r r'"
  ultimately show False by (auto elim: run_step.cases)
qed

interpretation ending_serve: terminating_system "\<lambda>r. run_inv p r \<and> stirred p r" "run_step False p"
  "\<lambda>r. run_inv p r \<and> stirred p r" run_rank finished for p
proof
  show "run_inv p r \<and> stirred p r \<Longrightarrow> run_step False p r r' \<Longrightarrow> run_inv p r' \<and> stirred p r'" for r r'
    using run_inv_step stirred_step by blast
  show "run_inv p r \<and> stirred p r \<Longrightarrow> run_step False p r r' \<Longrightarrow> run_rank r' < run_rank r" for r r'
    using run_step_decreases by blast
  show "run_inv p r \<and> stirred p r \<Longrightarrow> \<not> finished r \<Longrightarrow> \<exists>r'. run_step False p r r'" for r
    using run_step_enabled by blast
qed simp

section \<open>Runs of the control handler\<close>

lemma Send_run:
  "io_run g flt (Send token ch cfg) c e r c' e' ws \<Longrightarrow>
     c' = c \<and> e' = e \<and> (ws = [] \<or> ws = [control_frame token ch (Marshal cfg)]) \<and>
     (r = None \<longrightarrow> length (Marshal cfg) \<le> maxBodySize \<and> ws = [control_frame token ch (Marshal cfg)])"
  by (auto simp: Send_def Let_def split: if_splits)

text \<open>What has been written, frame by frame, when the bytes \<open>c\<close> come from the client.\<close>

definition proof_sent :: "string \<Rightarrow> entropy \<Rightarrow> bytes \<Rightarrow> bytes list \<Rightarrow> bool" where
  "proof_sent token g c ws \<longleftrightarrow> (\<exists>nc ns. length nc = NonceSize \<and> prefix nc c \<and> rand_Read g NonceSize = Inr ns
     \<and> ws = [ns @ Sign token labelServer [nc, ns]])"

definition settings_sent :: "string \<Rightarrow> control_config \<Rightarrow> entropy \<Rightarrow> bytes \<Rightarrow> bytes list \<Rightarrow> bool" where
  "settings_sent token ann g c ws \<longleftrightarrow> (\<exists>nc ns. length nc = NonceSize \<and> prefix (nc @ Sign token labelClient [nc, ns]) c
     \<and> rand_Read g NonceSize = Inr ns
     \<and> ws = [ns @ Sign token labelServer [nc, ns], control_frame token (transcript nc ns) (Marshal ann)])"

lemma handshake_frames:
  assumes "io_run g flt (ServerHandshake token) c e r c' e' ws"
  shows "ws = [] \<or> proof_sent token g c ws"
proof (cases "read_result NonceSize c e")
  case (Inl x)
  with assms show ?thesis by (simp add: ServerHandshake_def)
next
  case (Inr nc)
  then have nc: "length nc = NonceSize" "prefix nc c" by (auto simp: read_result_Inr_iff take_is_prefix)
  show ?thesis
  proof (cases "rand_Read g NonceSize")
    case (Inl x)
    with assms Inr show ?thesis by (simp add: ServerHandshake_def)
  next
    case (Inr ns)
    with assms \<open>read_result NonceSize c e = Inr nc\<close>
    have "ws = [] \<or> ws = [ns @ Sign token labelServer [nc, ns]]"
      by (auto simp: ServerHandshake_def split: sum.splits if_splits)
    with nc Inr show ?thesis unfolding proof_sent_def by blast
  qed
qed

lemma after_handshake_run:
  assumes "io_run g flt (io_bind (Send token ch cfg) (\<lambda>w. case w of
               Some e \<Rightarrow> closing (SendFailed e)
             | None \<Rightarrow>
                 DoSetDeadline None (\<lambda>d. case d of
                   Some e \<Rightarrow> closing (NoResetDeadline e)
                 | None \<Rightarrow> DoDiscard (\<lambda>e. closing (ClientGone e))))) c e r c' e' ws"
  shows "(ws = [] \<or> ws = [control_frame token ch (Marshal cfg)]) \<and> e' = ErrClosed
    \<and> (\<forall>x. r = ClientGone x \<longrightarrow> ws = [control_frame token ch (Marshal cfg)])"
proof -
  from io_run_bindD [OF assms] obtain flt1 a c1 e1 ws1 ws2 where
    send: "io_run g flt (Send token ch cfg) c e a c1 e1 ws1" and ws: "ws = ws1 @ ws2"
    and rest: "io_run g flt1 (case a of Some e \<Rightarrow> closing (SendFailed e)
       | None \<Rightarrow> DoSetDeadline None (\<lambda>d. case d of Some e \<Rightarrow> closing (NoResetDeadline e)
          | None \<Rightarrow> DoDiscard (\<lambda>e. closing (ClientGone e)))) c1 e1 r c' e' ws2"
    by blast
  from rest have "ws2 = []" "e' = ErrClosed" "\<forall>x. r = ClientGone x \<longrightarrow> a = None"
    by (auto simp: closing_def split: option.splits)
  with Send_run [OF send] ws show ?thesis by auto
qed

lemma handleControl_run:
  assumes "io_run g flt (handleControl token ann) c e r c' e' ws"
  shows "e' = ErrClosed \<and> (ws = [] \<or> proof_sent token g c ws \<or> settings_sent token ann g c ws)
    \<and> ((\<exists>x. r = ClientGone x) \<longrightarrow> settings_sent token ann g c ws)"
proof -
  define k where "k = (\<lambda>r :: auth_error + bytes. case r of
           Inl e \<Rightarrow> closing (ControlRejected e)
         | Inr channel \<Rightarrow>
             io_bind (Send token channel ann) (\<lambda>w. case w of
               Some e \<Rightarrow> closing (SendFailed e)
             | None \<Rightarrow>
                 DoSetDeadline None (\<lambda>d. case d of
                   Some e \<Rightarrow> closing (NoResetDeadline e)
                 | None \<Rightarrow> DoDiscard (\<lambda>e. closing (ClientGone e)))))"
  from assms consider (nodl) x where "io_run g flt (closing (NoDeadline x)) c e r c' e' ws"
    | (run) "io_run g flt (io_bind (ServerHandshake token) k) c e r c' e' ws"
    unfolding handleControl_def k_def by auto
  then show ?thesis
  proof cases
    case nodl
    then show ?thesis by (auto simp: closing_def)
  next
    case run
    from io_run_bindD [OF run] obtain flt1 a c1 e1 ws1 ws2
      where hs: "io_run g flt (ServerHandshake token) c e a c1 e1 ws1"
        and k: "io_run g flt1 (k a) c1 e1 r c' e' ws2" and ws: "ws = ws1 @ ws2" by blast
    show ?thesis
    proof (cases a)
      case (Inl x)
      with k ws handshake_frames [OF hs] show ?thesis by (auto simp: k_def closing_def)
    next
      case (Inr ch)
      from hs Inr obtain nc ns where nc: "length nc = NonceSize" "rand_Read g NonceSize = Inr ns"
          "ch = transcript nc ns" "c = nc @ Sign token labelClient [nc, ns] @ c1"
          "ws1 = [ns @ Sign token labelServer [nc, ns]]"
        by (auto simp: ServerHandshake_run_iff)
      have "proof_sent token g c ws1" using nc unfolding proof_sent_def by (intro exI [of _ nc] exI [of _ ns]) simp
      moreover have "settings_sent token ann g c (ws1 @ [control_frame token ch (Marshal ann)])"
        using nc unfolding settings_sent_def by (intro exI [of _ nc] exI [of _ ns]) simp
      moreover from k Inr have "(ws2 = [] \<or> ws2 = [control_frame token ch (Marshal ann)]) \<and> e' = ErrClosed
          \<and> (\<forall>x. r = ClientGone x \<longrightarrow> ws2 = [control_frame token ch (Marshal ann)])"
        by (intro after_handshake_run) (simp add: k_def)
      ultimately show ?thesis using ws by auto
    qed
  qed
qed

section \<open>Properties\<close>

text \<open>
  C20. The transport settings are disclosed to authenticated clients only. Over every connection that keeps
  the contract, whatever the client sends: \<^verbatim>\<open>handleControl\<close> comes to an end with the connection closed, and what it has
  written is nothing; or one message, the server's proof over a nonce that the client sent in full and this run's nonce; or
  two, that proof and the announcement, and then the client's bytes are the nonce and the client tag over it and this run's
  nonce, and the announcement is bound to the transcript of exactly these nonces.
\<close>

theorem control_discloses_to_clients:
  assumes "connection ops content final todo sent reliable"
  shows "\<exists>r c' ws. run_io ops g (handleControl token ann) c = Some (r, c') \<and> sent c' = sent c @ ws
    \<and> final c' = ErrClosed
    \<and> (ws = []
       \<or> (\<exists>nc ns. length nc = NonceSize \<and> rand_Read g NonceSize = Inr ns \<and> prefix nc (content c)
            \<and> (ws = [ns @ Sign token labelServer [nc, ns]]
               \<or> ws = [ns @ Sign token labelServer [nc, ns], control_frame token (transcript nc ns) (Marshal ann)]
                 \<and> prefix (nc @ Sign token labelClient [nc, ns]) (content c))))"
proof -
  obtain r c' ws where run: "run_io ops g (handleControl token ann) c = Some (r, c')" "sent c' = sent c @ ws"
    and io: "io_run g True (handleControl token ann) (content c) (final c) r (content c') (final c') ws"
    using connection.run_io_refines [OF assms, of True c g "handleControl token ann"] by blast
  from handleControl_run [OF io] run show ?thesis
    unfolding proof_sent_def settings_sent_def
    by (intro exI [of _ r] exI [of _ c'] exI [of _ ws]) (blast dest: append_prefixD)
qed

theorem control_discloses_to_clients_witness:
  "\<exists>r c' ws. run_io net_ops (Inr (\<lambda>_. 2)) (handleControl demo_token demo_announcement) demo_client_stream = Some (r, c')
     \<and> tx c' = ws \<and> length ws \<le> 2 \<and> conn_final c' = ErrClosed"
  using control_discloses_to_clients [OF netc.connection_axioms, of "Inr (\<lambda>_. 2)" demo_token demo_announcement
      demo_client_stream]
  by (auto simp: demo_client_stream_def)

text \<open>
  C29. A server that returns leaves no listener behind. In every interleaving of listeners ending, in whatever order
  and with whatever results, and of \<^verbatim>\<open>Run\<close> receiving them: when \<^verbatim>\<open>Run\<close> has returned, every listener has ended and
  its result was received, and the context is cancelled; a stealth server never has a control listener.
\<close>

theorem server_run_complete:
  assumes "reach (run_init p) (run_step True p) r"
  shows "(finished r \<longrightarrow> live r = [] \<and> queue r = [] \<and> run_cancelled r)
       \<and> (p = Stealth \<longrightarrow> ControlListener \<notin> set (live r))"
  using serve.inv_reach [OF assms] by (auto simp: run_inv_def run_listeners_def)

theorem server_run_complete_witness:
  "\<exists>r. reach (run_init Stealth) (run_step True Stealth) r \<and> finished r \<and> live r = []"
proof -
  let ?r0 = "run_start Stealth"
  let ?r1 = "?r0\<lparr>live := remove1 DataListener (live ?r0), queue := queue ?r0 @ [(DataListener, None)]\<rparr>"
  let ?r3 = "(receive ?r1)\<lparr>finished := True\<rparr>"
  have "reach (run_init Stealth) (run_step True Stealth) ?r0" by (rule reach_init) (simp add: run_init_def)
  moreover have "run_step True Stealth ?r0 ?r1" by (rule listener_ends) (simp_all add: run_start_def run_listeners_def)
  moreover have "run_step True Stealth ?r1 (receive ?r1)"
    by (rule main_receives) (simp_all add: run_start_def run_listeners_def)
  moreover have "run_step True Stealth (receive ?r1) ?r3"
    by (rule main_returns) (simp_all add: run_start_def run_listeners_def receive_def)
  ultimately have r: "reach (run_init Stealth) (run_step True Stealth) ?r3" by (meson reach_step)
  with server_run_complete [OF r] show ?thesis by (intro exI [of _ ?r3]) simp
qed

text \<open>
  C30. \<^verbatim>\<open>Run\<close> serves until its context is done or a listener ends, and then finishes. While neither has happened it does
  nothing but wait. From every reachable state in which one of them has, and without any further event from outside (no
  listener failing on its own, no cancellation but \<^verbatim>\<open>Run\<close>'s own): it reaches the state in which it has returned, under every
  schedule, in at most five steps, and is never stuck before; sending a result never blocks, since the channel never holds
  more than it has room for.
\<close>

theorem server_run_terminates:
  assumes "reach (run_init p) (run_step True p) r"
  shows "if run_cancelled r \<or> live r \<noteq> run_listeners p
    then (\<exists>r'. (run_step False p)\<^sup>*\<^sup>* r r' \<and> finished r')
      \<and> (\<forall>r'. (run_step False p)\<^sup>*\<^sup>* r r' \<and> (\<nexists>u. run_step False p r' u) \<longrightarrow> finished r')
      \<and> (\<forall>n r'. (run_step False p ^^ n) r r' \<longrightarrow> n \<le> 5) \<and> length (queue r) \<le> 2
    else \<nexists>r'. run_step False p r r'"
proof (cases "stirred p r")
  case True
  from serve.inv_reach [OF assms] have inv: "run_inv p r" .
  moreover have "length (run_listeners p) \<le> 2" by (simp add: run_listeners_def)
  ultimately have "run_rank r \<le> 5" "length (queue r) \<le> 2" unfolding run_inv_def run_rank_def by simp_all
  moreover have "n \<le> run_rank r" if "(run_step False p ^^ n) r r'" for n r'
    using ending_serve.run_bound [OF that] inv True by simp
  moreover have "finished r'" if "(run_step False p)\<^sup>*\<^sup>* r r'" "\<nexists>u. run_step False p r' u" for r'
    using ending_serve.inv_run [OF that(1)] inv True run_step_enabled that(2) by blast
  moreover have "\<exists>r'. (run_step False p)\<^sup>*\<^sup>* r r' \<and> finished r'"
    using inv True by (intro ending_serve.runs_to_end) simp
  ultimately show ?thesis using True by (fastforce simp: stirred_def)
next
  case False
  with unstirred_waits [OF serve.inv_reach [OF assms]] show ?thesis by (auto simp: stirred_def)
qed

theorem server_run_terminates_witness:
  "\<exists>r'. (run_step False TCP)\<^sup>*\<^sup>* ((run_start TCP)\<lparr>run_cancelled := True\<rparr>) r' \<and> finished r'"
proof -
  have "reach (run_init TCP) (run_step True TCP) (run_start TCP)" by (rule reach_init) (simp add: run_init_def)
  from reach_step [OF this context_done]
  have "reach (run_init TCP) (run_step True TCP) ((run_start TCP)\<lparr>run_cancelled := True\<rparr>)" by simp
  from server_run_terminates [OF this] show ?thesis by simp
qed

text \<open>
  A configuration that loads can be started. If \<^verbatim>\<open>LoadServer\<close> accepts a file, the pointer to the KCP
  parameters that \<^verbatim>\<open>Run\<close> dereferences is not nil, and \<^verbatim>\<open>NewServer\<close> fails on the resulting options only if the
  certificate cannot be loaded.
\<close>

theorem loaded_server_starts:
  assumes "LoadServer fs path = Inr cfg"
  shows "\<exists>o'. server_options cfg = Some o' \<and> (\<forall>e. NewServer loadPair o' = Inl e \<longrightarrow> (\<exists>x. e = TransportTLS x))"
proof -
  from LoadServer_ok [OF assms] have ok: "server_ok cfg" .
  then obtain k where k: "srv_KCP cfg = Some k" by (auto simp: server_ok_def split: option.splits)
  from ok have p: "srv_Protocol cfg \<in> set supported"
    and st: "srv_Protocol cfg = Stealth \<Longrightarrow> \<exists>hp. SplitHostPort (srv_StealthHandshakeServer cfg) = Inr hp"
    by (auto simp: server_ok_def hostport_ok_def split: sum.splits)
  with k show ?thesis
    by (auto simp: server_options_def NewServer_def Parse_supported split: sum.splits if_splits)
qed

text \<open>A configuration file for the witness.\<close>

definition demo_file :: json where
  "demo_file = JObj [(''control_port'', JStr ''8080''), (''data_port'', JStr ''8081''), (''protocol'', JStr ''tcp''),
     (''xray_inbound_address'', JStr ''h:1''), (''token'', JStr ''0123456789abcdef'')]"

definition demo_config :: Server where
  "demo_config = Server_zero\<lparr>srv_ControlPort := ''8080'', srv_DataPort := ''8081'', srv_Protocol := ''tcp'',
     srv_TargetAddress := ''h:1'', srv_Token := ''0123456789abcdef'', srv_KCP := Some DefaultKCP\<rparr>"

lemma demo_config_ok: "server_ok demo_config"
  by code_simp

lemma demo_file_loads: "LoadServer (\<lambda>_. Inr (bytes_of (print_json demo_file))) ''f'' = Inr demo_config"
proof -
  have "plain maxNestingDepth demo_file"
    by (simp add: demo_file_def maxNestingDepth_def ord_def)
  moreover have "decode_struct ServerFields demo_file Server_zero = (demo_config\<lparr>srv_KCP := None\<rparr>, False)"
    by (simp add: demo_file_def ServerFields_def store_member_def find_field_def Server_zero_def demo_config_def)
  ultimately have "Decode ServerFields Server_zero (print_json demo_file) = Inr (demo_config\<lparr>srv_KCP := None\<rparr>)"
    by (rule Decode_print)
  then show ?thesis
    using demo_config_ok by (simp add: LoadServer_Inr load_Inr) (simp add: demo_config_def Server_zero_def)
qed

theorem loaded_server_starts_witness:
  "\<exists>o'. LoadServer (\<lambda>_. Inr (bytes_of (print_json demo_file))) ''f'' = Inr demo_config
     \<and> server_options demo_config = Some o' \<and> (\<forall>e. NewServer (\<lambda>_ _. Inr ()) o' \<noteq> Inl (StealthAddress e))"
  using loaded_server_starts [OF demo_file_loads, of "\<lambda>_ _. Inr ()"] demo_file_loads by auto

end
