(* ===== verification/Session.thy ===== *)
theory Session
  imports Gtun_Prelude
begin

text \<open>
  The shared session of the multiplexed transports, file \<^verbatim>\<open>internal/transport/session.go\<close>. A
  \<^verbatim>\<open>sessionDialer\<close> keeps one \<^verbatim>\<open>muxSession\<close> and replaces it when it dies. Its three critical
  sections (\<^verbatim>\<open>session\<close>, \<^verbatim>\<open>discard\<close>, \<^verbatim>\<open>Close\<close>) run under the mutex and are functions on the
  state; \<^verbatim>\<open>Dial\<close> is given twice, as the loop of one goroutine running alone and as a step relation
  in which any number of goroutines interleave with each other, with \<^verbatim>\<open>Close\<close> and with sessions
  dying under them.
  A critical section is one step here; theory \<open>Session_Lock\<close> takes it apart into \<^verbatim>\<open>Lock\<close>, the work and \<^verbatim>\<open>Unlock\<close>.
\<close>

section \<open>State\<close>

text \<open>
  Sessions are numbered in the order in which they were connected. \<open>cur\<close> and \<open>dialer_closed\<close> are the
  fields of \<^verbatim>\<open>sessionDialer\<close>; the rest is the world it acts on: how many sessions \<^verbatim>\<open>connect\<close> has
  returned, which of them are closed for whatever reason (\<^verbatim>\<open>isClosed\<close>), and on which of them the
  dialer called \<^verbatim>\<open>close\<close>.
\<close>

record dialer =
  cur :: "nat option"
  dialer_closed :: bool
  connected :: nat
  gone :: "nat set"
  released :: "nat set"

datatype 'e dial_error = DialerClosed | ConnectFailed 'e | OpenFailed io_error

definition newSessionDialer :: dialer where
  "newSessionDialer = \<lparr>cur = None, dialer_closed = False, connected = 0, gone = {}, released = {}\<rparr>"

definition isClosed :: "nat \<Rightarrow> dialer \<Rightarrow> bool" where
  "isClosed i d \<longleftrightarrow> i \<in> gone d"

definition close_session :: "nat \<Rightarrow> dialer \<Rightarrow> dialer" where
  "close_session i d = d\<lparr>gone := insert i (gone d), released := insert i (released d)\<rparr>"

text \<open>\<open>if d.cur != nil { d.cur.close(); d.cur = nil }\<close>, which two of the critical sections share.\<close>

definition drop_cur :: "dialer \<Rightarrow> dialer" where
  "drop_cur d = (case cur d of None \<Rightarrow> d | Some i \<Rightarrow> (close_session i d)\<lparr>cur := None\<rparr>)"

text \<open>
  \<^verbatim>\<open>connect\<close> either fails, with an error of a type of its own, or returns a new session; \<open>res\<close> is what it does if it is
  called.
\<close>

definition session :: "'e option \<Rightarrow> dialer \<Rightarrow> ('e dial_error + nat) \<times> dialer" where
  "session res d =
     (if dialer_closed d then (Inl DialerClosed, d)
      else case cur d of
        Some i \<Rightarrow>
          if \<not> isClosed i d then (Inr i, d)
          else (let d' = drop_cur d in case res of
                  Some e \<Rightarrow> (Inl (ConnectFailed e), d')
                | None \<Rightarrow> (Inr (connected d'), d'\<lparr>cur := Some (connected d'), connected := Suc (connected d')\<rparr>))
      | None \<Rightarrow>
          (case res of
             Some e \<Rightarrow> (Inl (ConnectFailed e), d)
           | None \<Rightarrow> (Inr (connected d), d\<lparr>cur := Some (connected d), connected := Suc (connected d)\<rparr>)))"

definition discard :: "nat \<Rightarrow> dialer \<Rightarrow> dialer" where
  "discard i d = (if cur d = Some i then drop_cur d else d)"

definition Close :: "dialer \<Rightarrow> dialer" where
  "Close d = drop_cur (d\<lparr>dialer_closed := True\<rparr>)"

section \<open>One call of Dial\<close>

text \<open>
  What the outside does during one attempt: how \<^verbatim>\<open>connect\<close> ends if it is called, and how \<^verbatim>\<open>open\<close>
  ends on the session obtained.
\<close>

record 'e attempt =
  connect_res :: "'e option"
  open_res :: "io_error option"

text \<open>The loop \<open>for range n\<close> of \<^verbatim>\<open>Dial\<close>; a result \<open>Inr i\<close> is a stream opened on session \<open>i\<close>.\<close>

primrec Dial_loop ::
  "nat \<Rightarrow> (nat \<Rightarrow> 'e attempt) \<Rightarrow> 'e dial_error option \<Rightarrow> dialer \<Rightarrow> ('e dial_error option + nat) \<times> dialer" where
  "Dial_loop 0 env lastErr d = (Inl lastErr, d)"
| "Dial_loop (Suc n) env lastErr d =
     (case session (connect_res (env n)) d of
        (Inl e, d') \<Rightarrow> (Inl (Some e), d')
      | (Inr i, d') \<Rightarrow>
          (case open_res (env n) of
             None \<Rightarrow> (Inr i, d')
           | Some e \<Rightarrow> Dial_loop n env (Some (OpenFailed e)) (discard i d')))"

definition Dial :: "(nat \<Rightarrow> 'e attempt) \<Rightarrow> dialer \<Rightarrow> ('e dial_error option + nat) \<times> dialer" where
  "Dial env d = Dial_loop 2 env None d"

section \<open>Many goroutines\<close>

text \<open>
  Where a goroutine inside \<^verbatim>\<open>Dial\<close> is: about to take the lock for \<^verbatim>\<open>session\<close> with \<open>n\<close> attempts left,
  opening a stream on session \<open>i\<close>, about to discard it, or returned.
\<close>

datatype 'e dial_pc =
    Wants nat "'e dial_error option"
  | Opening nat nat
  | Discarding nat nat "'e dial_error"
  | Returned "'e dial_error option + nat"

record 'e dial_world =
  dlr :: dialer
  pcs :: "nat \<rightharpoonup> 'e dial_pc"

inductive dial_step :: "'e dial_world \<Rightarrow> 'e dial_world \<Rightarrow> bool" where
  start: "pcs w g = None \<Longrightarrow> dial_step w (w\<lparr>pcs := (pcs w)(g \<mapsto> Wants 2 None)\<rparr>)"
| give_up: "pcs w g = Some (Wants 0 lastErr) \<Longrightarrow>
    dial_step w (w\<lparr>pcs := (pcs w)(g \<mapsto> Returned (Inl lastErr))\<rparr>)"
| no_session: "pcs w g = Some (Wants (Suc n) lastErr) \<Longrightarrow> session res (dlr w) = (Inl e, d) \<Longrightarrow>
    dial_step w \<lparr>dlr = d, pcs = (pcs w)(g \<mapsto> Returned (Inl (Some e)))\<rparr>"
| got_session: "pcs w g = Some (Wants (Suc n) lastErr) \<Longrightarrow> session (res :: 'e option) (dlr w) = (Inr i, d) \<Longrightarrow>
    dial_step w \<lparr>dlr = d, pcs = (pcs w)(g \<mapsto> Opening n i)\<rparr>"
| opened: "pcs w g = Some (Opening n i) \<Longrightarrow>
    dial_step w (w\<lparr>pcs := (pcs w)(g \<mapsto> Returned (Inr i))\<rparr>)"
| open_fails: "pcs w g = Some (Opening n i) \<Longrightarrow>
    dial_step w (w\<lparr>pcs := (pcs w)(g \<mapsto> Discarding n i (OpenFailed e))\<rparr>)"
| discards: "pcs w g = Some (Discarding n i e) \<Longrightarrow>
    dial_step w \<lparr>dlr = discard i (dlr w), pcs = (pcs w)(g \<mapsto> Wants n (Some e))\<rparr>"
| closes: "dial_step w (w\<lparr>dlr := Close (dlr w)\<rparr>)"
| dies: "i < connected (dlr w) \<Longrightarrow> dial_step w (w\<lparr>dlr := (dlr w)\<lparr>gone := insert i (gone (dlr w))\<rparr>\<rparr>)"

definition dial_init :: "'e dial_world \<Rightarrow> bool" where
  "dial_init w \<longleftrightarrow> w = \<lparr>dlr = newSessionDialer, pcs = Map.empty\<rparr>"

section \<open>Invariant\<close>

text \<open>
  Every session ever connected is either the current one or has been released, never both; a closed
  dialer has no current session.
\<close>

definition dialer_ok :: "dialer \<Rightarrow> bool" where
  "dialer_ok d \<longleftrightarrow> (dialer_closed d \<longrightarrow> cur d = None)
     \<and> {..<connected d} = released d \<union> set_option (cur d)
     \<and> (\<forall>i. cur d = Some i \<longrightarrow> i \<notin> released d)
     \<and> released d \<subseteq> gone d \<and> gone d \<subseteq> {..<connected d}"

fun pc_ok :: "dialer \<Rightarrow> 'e dial_pc \<Rightarrow> bool" where
  "pc_ok d (Wants n _) \<longleftrightarrow> n \<le> 2"
| "pc_ok d (Opening n i) \<longleftrightarrow> n \<le> 1 \<and> i < connected d"
| "pc_ok d (Discarding n i e) \<longleftrightarrow> n \<le> 1 \<and> i < connected d"
| "pc_ok d (Returned (Inr i)) \<longleftrightarrow> i < connected d"
| "pc_ok d (Returned (Inl _)) \<longleftrightarrow> True"

definition dial_inv :: "'e dial_world \<Rightarrow> bool" where
  "dial_inv w \<longleftrightarrow> dialer_ok (dlr w) \<and> (\<forall>g pc. pcs w g = Some pc \<longrightarrow> pc_ok (dlr w) pc)"

lemma dialer_ok_new [simp]: "dialer_ok newSessionDialer"
  by (simp add: dialer_ok_def newSessionDialer_def)

lemma dialer_ok_drop_cur: "dialer_ok d \<Longrightarrow> dialer_ok (drop_cur d)"
  by (auto simp: dialer_ok_def drop_cur_def close_session_def split: option.splits)

lemma drop_cur_frame [simp]:
  "cur (drop_cur d) = None" "connected (drop_cur d) = connected d" "dialer_closed (drop_cur d) = dialer_closed d"
  by (auto simp: drop_cur_def close_session_def split: option.splits)

lemma dialer_ok_connect:
  "dialer_ok d \<Longrightarrow> cur d = None \<Longrightarrow> \<not> dialer_closed d \<Longrightarrow>
     dialer_ok (d\<lparr>cur := Some (connected d), connected := Suc (connected d)\<rparr>)"
  by (auto simp: dialer_ok_def lessThan_Suc)

lemma dialer_ok_session: "dialer_ok d \<Longrightarrow> dialer_ok (snd (session res d))"
  using dialer_ok_drop_cur [of d] dialer_ok_connect [of "drop_cur d"] dialer_ok_connect [of d]
  by (auto simp: session_def Let_def split: option.splits)

lemma dialer_ok_discard: "dialer_ok d \<Longrightarrow> dialer_ok (discard i d)"
  by (simp add: discard_def dialer_ok_drop_cur)

lemma dialer_ok_Close: "dialer_ok d \<Longrightarrow> dialer_ok (Close d)"
  by (auto simp: dialer_ok_def Close_def drop_cur_def close_session_def split: option.splits)

lemma dialer_ok_dies: "dialer_ok d \<Longrightarrow> i < connected d \<Longrightarrow> dialer_ok (d\<lparr>gone := insert i (gone d)\<rparr>)"
  by (auto simp: dialer_ok_def)

lemma session_connected: "connected d \<le> connected (snd (session res d))"
  by (auto simp: session_def Let_def split: option.splits)

lemma session_valid: "dialer_ok d \<Longrightarrow> session res d = (Inr i, d') \<Longrightarrow> i < connected d' \<and> cur d' = Some i"
  by (auto simp: session_def Let_def dialer_ok_def split: option.splits if_splits)

lemma discard_frame [simp]: "connected (discard i d) = connected d" "dialer_closed (discard i d) = dialer_closed d"
  by (simp_all add: discard_def)

lemma Close_frame [simp]: "connected (Close d) = connected d" "dialer_closed (Close d)" "cur (Close d) = None"
  by (simp_all add: Close_def)

lemma pc_ok_mono: "pc_ok d pc \<Longrightarrow> connected d \<le> connected d' \<Longrightarrow> pc_ok d' pc"
  by (induction d pc rule: pc_ok.induct) auto

lemmas dialer_ok_ops = dialer_ok_session dialer_ok_discard dialer_ok_Close dialer_ok_dies

lemma dial_inv_update:
  assumes "dial_inv w" and "dialer_ok d" and "connected (dlr w) \<le> connected d"
  shows "pc_ok d pc \<Longrightarrow> dial_inv \<lparr>dlr = d, pcs = (pcs w)(g \<mapsto> pc)\<rparr>" and "dial_inv \<lparr>dlr = d, pcs = pcs w\<rparr>"
proof -
  have "pc_ok d pc" if "pcs w g = Some pc" for g pc
    using assms pc_ok_mono that unfolding dial_inv_def by blast
  with assms(2) show "pc_ok d pc \<Longrightarrow> dial_inv \<lparr>dlr = d, pcs = (pcs w)(g \<mapsto> pc)\<rparr>"
      and "dial_inv \<lparr>dlr = d, pcs = pcs w\<rparr>"
    by (auto simp: dial_inv_def)
qed

lemma dial_inv_same: "dial_inv w \<Longrightarrow> pc_ok (dlr w) pc \<Longrightarrow> dial_inv (w\<lparr>pcs := (pcs w)(g \<mapsto> pc)\<rparr>)"
  by (auto simp: dial_inv_def)

lemma dial_inv_dlr: "dial_inv w \<Longrightarrow> dialer_ok d \<Longrightarrow> connected (dlr w) \<le> connected d \<Longrightarrow> dial_inv (w\<lparr>dlr := d\<rparr>)"
  using dial_inv_update(2) [of w d] by (cases w) simp

lemma dial_inv_pc: "dial_inv w \<Longrightarrow> pcs w g = Some pc \<Longrightarrow> pc_ok (dlr w) pc"
  by (simp add: dial_inv_def)

lemma dial_inv_step: "dial_step w w' \<Longrightarrow> dial_inv w \<Longrightarrow> dial_inv w'"
proof (induction rule: dial_step.induct)
  case (no_session w g n lastErr res e d)
  then have "dialer_ok d" "connected (dlr w) \<le> connected d"
    using dialer_ok_session [of "dlr w" res] session_connected [of "dlr w" res] by (auto simp: dial_inv_def)
  with no_session show ?case by (simp add: dial_inv_update)
next
  case (got_session w g n lastErr res i d)
  then have "dialer_ok d" "connected (dlr w) \<le> connected d" "i < connected d"
    using dialer_ok_session [of "dlr w" res] session_connected [of "dlr w" res]
      session_valid [of "dlr w" res i d] by (auto simp: dial_inv_def)
  moreover have "n \<le> 1" using dial_inv_pc [OF got_session.prems got_session.hyps(1)] by simp
  ultimately show ?case using got_session.prems by (simp add: dial_inv_update)
next
  case (discards w g n i e)
  from dial_inv_pc [OF discards.prems discards.hyps] discards.prems show ?case
    by (intro dial_inv_update dialer_ok_discard) (auto simp: dial_inv_def)
next
  case (closes w)
  then show ?case by (intro dial_inv_dlr dialer_ok_Close) (auto simp: dial_inv_def)
next
  case (dies i w)
  then show ?case by (intro dial_inv_dlr dialer_ok_dies) (auto simp: dial_inv_def)
qed (auto intro!: dial_inv_same dest: dial_inv_pc)

interpretation dial: invariant_system dial_init dial_step dial_inv
proof
  show "dial_init w \<Longrightarrow> dial_inv w" for w by (auto simp: dial_init_def dial_inv_def)
  show "dial_inv w \<Longrightarrow> dial_step w w' \<Longrightarrow> dial_inv w'" for w w' by (rule dial_inv_step)
qed

lemma dialer_ok_no_leak:
  assumes ok: "dialer_ok d"
  shows "(\<forall>i < connected d. i \<in> released d \<or> cur d = Some i)
       \<and> (\<forall>i j. i < connected d \<and> j < connected d \<and> \<not> isClosed i d \<and> \<not> isClosed j d \<longrightarrow> i = j \<and> cur d = Some i)
       \<and> (dialer_closed d \<longrightarrow> cur d = None)"
proof -
  have owned: "i \<in> released d \<or> cur d = Some i" if "i < connected d" for i
    using ok that by (auto simp: dialer_ok_def)
  from ok have rel: "released d \<subseteq> gone d" and closed: "dialer_closed d \<longrightarrow> cur d = None" by (simp_all add: dialer_ok_def)
  have alive: "cur d = Some i" if "i < connected d" "\<not> isClosed i d" for i
    using owned [OF that(1)] rel that(2) by (auto simp: isClosed_def)
  have "i = j" if "i < connected d" "j < connected d" "\<not> isClosed i d" "\<not> isClosed j d" for i j
    using alive [OF that(1,3)] alive [OF that(2,4)] by simp
  with owned closed alive show ?thesis by blast
qed

section \<open>A call of Dial that nothing interrupts\<close>

text \<open>Such a call is one of the interleavings.\<close>

lemma Dial_loop_run:
  "pcs w g = Some (Wants n lastErr) \<Longrightarrow> Dial_loop n env lastErr (dlr w) = (r, d) \<Longrightarrow>
     dial_step\<^sup>*\<^sup>* w \<lparr>dlr = d, pcs = (pcs w)(g \<mapsto> Returned r)\<rparr>"
proof (induction n arbitrary: lastErr w)
  case 0
  have "dial_step w (w\<lparr>pcs := (pcs w)(g \<mapsto> Returned (Inl lastErr))\<rparr>)"
    using 0 by (intro give_up) simp
  moreover have "w\<lparr>pcs := (pcs w)(g \<mapsto> Returned (Inl lastErr))\<rparr> = \<lparr>dlr = d, pcs = (pcs w)(g \<mapsto> Returned r)\<rparr>"
    using 0 by simp
  ultimately show ?case by (simp only: r_into_rtranclp)
next
  case (Suc n)
  obtain s d1 where s: "session (connect_res (env n)) (dlr w) = (s, d1)" by fastforce
  show ?case
  proof (cases s)
    case (Inl e)
    with no_session [OF Suc.prems(1) s [unfolded Inl]] Suc.prems(2) s show ?thesis
      by (simp only: Dial_loop.simps prod.case sum.case prod.inject r_into_rtranclp)
  next
    case (Inr i)
    let ?w1 = "\<lparr>dlr = d1, pcs = (pcs w)(g \<mapsto> Opening n i)\<rparr>"
    have 1: "dial_step w ?w1" using Suc.prems(1) s Inr by (auto intro: got_session)
    show ?thesis
    proof (cases "open_res (env n)")
      case None
      then have r: "r = Inr i" "d = d1" using Suc.prems(2) s Inr by auto
      have "dial_step ?w1 \<lparr>dlr = d1, pcs = (pcs w)(g \<mapsto> Returned (Inr i))\<rparr>"
        using opened [of ?w1 g n i] by simp
      with 1 show ?thesis unfolding r by (blast intro: converse_rtranclp_into_rtranclp)
    next
      case (Some e)
      let ?w2 = "?w1\<lparr>pcs := (pcs ?w1)(g \<mapsto> Discarding n i (OpenFailed e))\<rparr>"
      let ?w3 = "\<lparr>dlr = discard i (dlr ?w2), pcs = (pcs ?w2)(g \<mapsto> Wants n (Some (OpenFailed e)))\<rparr>"
      have 2: "dial_step ?w1 ?w2" by (intro open_fails) simp
      have 3: "dial_step ?w2 ?w3" by (intro discards) simp
      have "dial_step\<^sup>*\<^sup>* ?w3 \<lparr>dlr = d, pcs = (pcs ?w3)(g \<mapsto> Returned r)\<rparr>"
        using Suc.prems(2) s Inr Some by (intro Suc.IH) auto
      then have "dial_step\<^sup>*\<^sup>* ?w3 \<lparr>dlr = d, pcs = (pcs w)(g \<mapsto> Returned r)\<rparr>" by simp
      with 1 2 3 show ?thesis by (meson converse_rtranclp_into_rtranclp)
    qed
  qed
qed

lemma Dial_run:
  assumes "pcs w g = None" and "Dial env (dlr w) = (r, d)"
  shows "dial_step\<^sup>*\<^sup>* w \<lparr>dlr = d, pcs = (pcs w)(g \<mapsto> Returned r)\<rparr>"
proof -
  let ?w = "w\<lparr>pcs := (pcs w)(g \<mapsto> Wants 2 None)\<rparr>"
  have "dial_step\<^sup>*\<^sup>* ?w \<lparr>dlr = d, pcs = (pcs ?w)(g \<mapsto> Returned r)\<rparr>"
    using assms by (intro Dial_loop_run) (auto simp: Dial_def)
  then have "dial_step\<^sup>*\<^sup>* ?w \<lparr>dlr = d, pcs = (pcs w)(g \<mapsto> Returned r)\<rparr>" by simp
  with start [of w g, OF assms(1)] show ?thesis by (meson converse_rtranclp_into_rtranclp)
qed

section \<open>Properties\<close>

text \<open>A dialer after one successful call, for the witnesses.\<close>

definition demo_dialed :: "io_error dial_world" where
  "demo_dialed = \<lparr>dlr = newSessionDialer\<lparr>cur := Some 0, connected := 1\<rparr>, pcs = [0 \<mapsto> Returned (Inr 0)]\<rparr>"

definition demo_fresh :: "io_error dial_world" where
  "demo_fresh = \<lparr>dlr = newSessionDialer, pcs = [0 \<mapsto> Wants 2 None]\<rparr>"

lemma demo_fresh_reach: "reach dial_init dial_step demo_fresh"
proof -
  let ?w = "\<lparr>dlr = newSessionDialer, pcs = Map.empty\<rparr>"
  have "reach dial_init dial_step ?w" by (intro reach_init) (simp add: dial_init_def)
  moreover have "dial_step ?w demo_fresh" using start [of ?w 0] by (simp add: demo_fresh_def)
  ultimately show ?thesis by (rule reach_step)
qed

lemma demo_dialed_reach: "reach dial_init dial_step demo_dialed"
proof (rule reach_rtranclp)
  let ?w = "\<lparr>dlr = newSessionDialer, pcs = Map.empty\<rparr>"
  show "reach dial_init dial_step ?w" by (intro reach_init) (simp add: dial_init_def)
  have "Dial (\<lambda>_. \<lparr>connect_res = None, open_res = None\<rparr>) newSessionDialer =
      (Inr 0, newSessionDialer\<lparr>cur := Some 0, connected := 1\<rparr>)"
    by (simp add: Dial_def numeral_2_eq_2 session_def newSessionDialer_def)
  then show "dial_step\<^sup>*\<^sup>* ?w demo_dialed"
    using Dial_run [of ?w 0] by (simp add: demo_dialed_def)
qed

text \<open>
  C7. No session leaks and no two are alive. Whatever goroutines dial, open, fail, discard and close,
  in any interleaving, every session ever connected has been closed by the dialer unless it is the
  current one; so at most one session is alive; and once the dialer is closed there is no current
  session.
\<close>

theorem session_no_leak:
  assumes "reach dial_init dial_step w"
  shows "(\<forall>i < connected (dlr w). i \<in> released (dlr w) \<or> cur (dlr w) = Some i)
       \<and> (\<forall>i j. i < connected (dlr w) \<and> j < connected (dlr w) \<and> \<not> isClosed i (dlr w) \<and> \<not> isClosed j (dlr w)
            \<longrightarrow> i = j \<and> cur (dlr w) = Some i)
       \<and> (dialer_closed (dlr w) \<longrightarrow> cur (dlr w) = None)"
  using dial.inv_reach [OF assms] by (intro dialer_ok_no_leak) (simp add: dial_inv_def)

theorem session_no_leak_witness:
  "reach dial_init dial_step demo_dialed \<and> (0 \<in> released (dlr demo_dialed) \<or> cur (dlr demo_dialed) = Some 0)"
  using session_no_leak [OF demo_dialed_reach] demo_dialed_reach by (simp add: demo_dialed_def)

text \<open>
  One connection at a time. A step of the system connects a new session only if the dialer is open
  and every session connected before is closed, and it connects exactly one, which becomes the
  current one.
\<close>

theorem session_single_flight:
  fixes w w' :: "'e dial_world"
  assumes "reach dial_init dial_step w" and "dial_step w w'" and "connected (dlr w') \<noteq> connected (dlr w)"
  shows "connected (dlr w') = Suc (connected (dlr w)) \<and> \<not> dialer_closed (dlr w)
       \<and> (\<forall>i < connected (dlr w). isClosed i (dlr w)) \<and> cur (dlr w') = Some (connected (dlr w))"
proof -
  from dial.inv_reach [OF assms(1)] have ok: "dialer_ok (dlr w)" by (simp add: dial_inv_def)
  have new: "connected d = Suc (connected (dlr w)) \<and> \<not> dialer_closed (dlr w)
       \<and> (\<forall>i. cur (dlr w) = Some i \<longrightarrow> isClosed i (dlr w)) \<and> cur d = Some (connected (dlr w))"
    if "session res (dlr w) = (r, d)" "connected d \<noteq> connected (dlr w)" for res :: "'e option" and r d
    using that by (auto simp: session_def Let_def split: option.splits if_splits)
  have "\<exists>(res :: 'e option) r. session res (dlr w) = (r, dlr w')"
    using assms(2,3) by cases auto
  with new assms(3) have "connected (dlr w') = Suc (connected (dlr w)) \<and> \<not> dialer_closed (dlr w)
       \<and> (\<forall>i. cur (dlr w) = Some i \<longrightarrow> isClosed i (dlr w)) \<and> cur (dlr w') = Some (connected (dlr w))"
    by blast
  moreover from ok have "\<forall>i < connected (dlr w). isClosed i (dlr w) \<or> cur (dlr w) = Some i"
    by (auto simp: dialer_ok_def isClosed_def)
  ultimately show ?thesis by blast
qed

theorem session_single_flight_witness:
  "\<exists>w'. dial_step demo_fresh w' \<and> connected (dlr w') = 1 \<and> cur (dlr w') = Some 0"
proof -
  let ?w = "\<lparr>dlr = newSessionDialer\<lparr>cur := Some 0, connected := 1\<rparr>, pcs = (pcs demo_fresh)(0 \<mapsto> Opening 1 0)\<rparr>"
  have step: "dial_step demo_fresh ?w"
    by (rule got_session [of _ _ _ None None])
      (simp_all add: demo_fresh_def numeral_2_eq_2 session_def newSessionDialer_def)
  have "connected (dlr ?w) \<noteq> connected (dlr demo_fresh)" by (simp add: demo_fresh_def newSessionDialer_def)
  with step session_single_flight [OF demo_fresh_reach step] show ?thesis
    by (intro exI [of _ ?w]) (simp add: demo_fresh_def newSessionDialer_def)
qed

lemma closed_step:
  "dial_step w w' \<Longrightarrow> dial_inv w \<Longrightarrow> dialer_closed (dlr w) \<Longrightarrow>
     dialer_closed (dlr w') \<and> connected (dlr w') = connected (dlr w)"
  by (induction rule: dial_step.induct) (auto simp: session_def)

lemma closed_run:
  assumes "dial_step\<^sup>*\<^sup>* w w'" and "dial_inv w" and "dialer_closed (dlr w)"
  shows "dial_inv w' \<and> dialer_closed (dlr w') \<and> connected (dlr w') = connected (dlr w)"
  using assms by (induction rule: rtranclp_induct) (auto simp: closed_step dial_inv_step)

text \<open>
  C24. Closing is final. After \<^verbatim>\<open>Close\<close>, along every continuation, the dialer stays closed, never
  connects again, and every session it ever connected is released.
\<close>

theorem dialer_close_final:
  assumes "reach dial_init dial_step w" and "dial_step\<^sup>*\<^sup>* (w\<lparr>dlr := Close (dlr w)\<rparr>) w'"
  shows "dialer_closed (dlr w') \<and> connected (dlr w') = connected (dlr w)
       \<and> released (dlr w') = {..<connected (dlr w)}"
proof -
  have "dial_inv (w\<lparr>dlr := Close (dlr w)\<rparr>)"
    using dial_inv_step [OF closes] dial.inv_reach [OF assms(1)] by blast
  with closed_run [OF assms(2)] have "dialer_closed (dlr w')" "connected (dlr w') = connected (dlr w)"
      "dialer_ok (dlr w')"
    by (simp_all add: dial_inv_def)
  then show ?thesis by (auto simp: dialer_ok_def)
qed

theorem dialer_close_final_witness:
  "dialer_closed (Close (dlr demo_dialed)) \<and> released (Close (dlr demo_dialed)) = {0}"
  using dialer_close_final [OF demo_dialed_reach rtranclp.rtrancl_refl]
  by (simp add: demo_dialed_def lessThan_Suc)

text \<open>
  The single-goroutine reading of \<^verbatim>\<open>Dial\<close> is one of the interleavings: a call that runs without
  interruption takes the shared state from where it is to the state the loop computes, and returns
  what the loop returns.
\<close>

theorem dial_refines:
  assumes "pcs w g = None" and "Dial env (dlr w) = (r, d)"
  shows "dial_step\<^sup>*\<^sup>* w \<lparr>dlr = d, pcs = (pcs w)(g \<mapsto> Returned r)\<rparr>"
  using assms by (rule Dial_run)

theorem dial_refines_witness:
  "dial_step\<^sup>*\<^sup>* demo_dialed \<lparr>dlr = dlr demo_dialed, pcs = (pcs demo_dialed)(1 \<mapsto> Returned (Inr 0))\<rparr>"
  by (rule dial_refines [where env = "\<lambda>_. \<lparr>connect_res = None, open_res = None\<rparr>"])
    (simp_all add: demo_dialed_def Dial_def numeral_2_eq_2 session_def isClosed_def newSessionDialer_def)

lemma Dial_loop_not_nil: "n \<noteq> 0 \<or> lastErr \<noteq> None \<Longrightarrow> fst (Dial_loop n env lastErr d) \<noteq> Inl None"
  by (induction n arbitrary: lastErr d) (auto split: prod.splits sum.splits option.splits)

text \<open>
  A stale session is replaced transparently, and \<^verbatim>\<open>Dial\<close> never returns neither a stream nor an
  error. On an open dialer whose current session has died without being noticed, a \<^verbatim>\<open>Dial\<close> whose first
  \<^verbatim>\<open>open\<close> fails, whose \<^verbatim>\<open>connect\<close> succeeds and whose second \<^verbatim>\<open>open\<close> succeeds returns a stream on the new
  session; the old one is released and the new one is current.
\<close>

theorem dial_replaces_stale:
  "fst (Dial env d) \<noteq> Inl None
   \<and> (\<not> dialer_closed d \<and> cur d = Some i \<and> \<not> isClosed i d \<and> open_res (env 1) \<noteq> None
       \<and> connect_res (env 0) = None \<and> open_res (env 0) = None \<longrightarrow>
      (\<exists>d'. Dial env d = (Inr (connected d), d') \<and> cur d' = Some (connected d) \<and> i \<in> released d'))"
proof (rule conjI, goal_cases)
  case 1
  show ?case by (simp add: Dial_def Dial_loop_not_nil)
next
  case 2
  show ?case
    by (auto simp: Dial_def numeral_2_eq_2 session_def discard_def drop_cur_def close_session_def)
qed

theorem dial_replaces_stale_witness:
  "\<exists>d'. Dial (\<lambda>n. \<lparr>connect_res = None, open_res = if n = 1 then Some EOF else None\<rparr>) (dlr demo_dialed) = (Inr 1, d')
     \<and> 0 \<in> released d'"
  using dial_replaces_stale [where env = "\<lambda>n. \<lparr>connect_res = None, open_res = if n = 1 then Some EOF else None\<rparr>"
      and d = "dlr demo_dialed" and i = 0]
  by (auto simp: demo_dialed_def isClosed_def newSessionDialer_def)

end
