(* ===== verification/Transport_Client.thy ===== *)
theory Transport_Client
  imports Transport Session
begin

text \<open>
  The client's end of the transports: \<^verbatim>\<open>internal/transport/client.go\<close>, the session adapters of
  \<^verbatim>\<open>internal/transport/session.go\<close> and the client's part of \<^verbatim>\<open>internal/transport/stealth.go\<close>. The carrier
  libraries are parameters: a record of what dialling each of them yields. A function that can leave a
  connection behind also returns what it closed, so that the theorems can say that nothing is lost.
\<close>

section \<open>Dialling a carrier\<close>

datatype carrier_error =
    DialWS string io_error
  | DialTCP io_error
  | DialKCP io_error
  | CarrierCipher io_error
  | CreateStealthClient io_error
  | StealthHandshakeFailed io_error
  | Authenticate handshake_error
  | StartSmux io_error
  | DialQUIC io_error
  | OpenAuthStream io_error

text \<open>
  Dialling, by a dialer with its timeout and keep-alive period, a WebSocket URL with a handshake timeout and a TLS
  configuration, and a TCP address; dialling a KCP address with a cipher and the two
  shard counts, applying tuning calls to a KCP session, starting an smux session, creating a ShadowTLS client from its settings, and its handshake over a raw connection with the given server
  name and roots.
\<close>

record ('s, 'b, 'p, 'c) carriers =
  ca_ws :: "net_dialer \<Rightarrow> int \<Rightarrow> 'c tls_config option \<Rightarrow> string \<Rightarrow> io_error + 's"
  ca_tcp :: "net_dialer \<Rightarrow> string \<Rightarrow> io_error + 's"
  ca_aes :: "bytes \<Rightarrow> io_error + 'b"
  ca_kcp :: "string \<Rightarrow> 'b \<Rightarrow> int \<Rightarrow> int \<Rightarrow> io_error + 's"
  ca_tune :: "kcp_call list \<Rightarrow> 's \<Rightarrow> 's"
  ca_smux :: "mux_config \<Rightarrow> 's \<Rightarrow> io_error option"
  ca_smux_default :: mux_config
  ca_stealth_new :: "stealth_client_config \<Rightarrow> io_error option"
  ca_stealth :: "string \<Rightarrow> 'p option \<Rightarrow> 's \<Rightarrow> io_error + 's"

definition stealthDialTimeout :: int where "stealthDialTimeout = 2 * handshakeTimeout"

text \<open>
  \<^verbatim>\<open>dialStealth\<close>. The deadline calls' errors are ignored; the second component is a raw connection that was
  closed. The connection the library returns wraps the raw one, so that the final reset of the raw connection's
  deadline acts on it. \<^verbatim>\<open>chromeHandshake\<close>, which the library calls back, passes the server name and the roots on.
\<close>

definition chromeHandshake :: "('p, 'c) client \<Rightarrow> string \<times> 'p option" where
  "chromeHandshake c = (co_StealthSNI (cl_opts c), co_StealthRootCAs (cl_opts c))"

definition stealth_client_config_of :: "('p, 'c) client \<Rightarrow> stealth_client_config" where
  "stealth_client_config_of c =
     \<lparr>scc_Version = stealthProtocolLevel, scc_Password = co_Token (cl_opts c), scc_StrictMode = True\<rparr>"

definition dialStealth ::
  "'s conn_ops \<Rightarrow> ('s, 'b, 'p, 'c) carriers \<Rightarrow> ('p, 'c) client \<Rightarrow> net_dialer \<Rightarrow> (carrier_error + 's) \<times> 's option" where
  "dialStealth ops ca c dialer =
     (case ca_tcp ca dialer (co_ServerAddr (cl_opts c)) of
        Inl e \<Rightarrow> (Inl (DialTCP e), None)
      | Inr raw \<Rightarrow>
          (case ca_stealth_new ca (stealth_client_config_of c) of
             Some e \<Rightarrow> (Inl (CreateStealthClient e), Some (op_Close ops raw))
           | None \<Rightarrow>
               (let raw = snd (op_SetDeadline ops (Some stealthDialTimeout) raw) in
                case chromeHandshake c of (sni, roots) \<Rightarrow>
                (case ca_stealth ca sni roots raw of
                   Inl e \<Rightarrow> (Inl (StealthHandshakeFailed e), Some (op_Close ops raw))
                 | Inr conn \<Rightarrow> (Inr (snd (op_SetDeadline ops None conn)), None)))))"

text \<open>The URL as \<^verbatim>\<open>url.URL.String\<close> writes it for a path of letters.\<close>

definition ws_url :: "name \<Rightarrow> string \<Rightarrow> string" where
  "ws_url p host = (if TLS p then ''wss'' else ''ws'') @ ''://'' @ host @ ''/'' @ p"

definition dialCarrier ::
  "'s conn_ops \<Rightarrow> ('s, 'b, 'p, 'c) carriers \<Rightarrow> ('p, 'c) client \<Rightarrow> (carrier_error + 's) \<times> 's option" where
  "dialCarrier ops ca c =
     (let dialer = \<lparr>nd_Timeout = dialTimeout, nd_KeepAlive = keepAlive\<rparr>;
          p = co_Protocol (cl_opts c); addr = co_ServerAddr (cl_opts c) in
      if WebSocket p
      then (case ca_ws ca dialer dialTimeout (cl_tls c) (ws_url p addr) of
              Inl e \<Rightarrow> (Inl (DialWS (ws_url p addr) e), None)
            | Inr ws \<Rightarrow> (Inr ws, None))
      else if p = Stealth then dialStealth ops ca c dialer
      else if p = UTCPMux
      then (case kcpBlockCrypt (ca_aes ca) (co_Token (cl_opts c)) of
              Inl e \<Rightarrow> (Inl (CarrierCipher e), None)
            | Inr block \<Rightarrow>
                (let k = co_KCP (cl_opts c) in
                 case ca_kcp ca addr block (DataShards k) (ParityShards k) of
                   Inl e \<Rightarrow> (Inl (DialKCP e), None)
                 | Inr sess \<Rightarrow> (Inr (ca_tune ca (tuneKCP k) sess), None)))
      else (case ca_tcp ca dialer addr of
              Inl e \<Rightarrow> (Inl (DialTCP e), None)
            | Inr conn \<Rightarrow> (Inr conn, None)))"

text \<open>\<^verbatim>\<open>dialAuthenticated\<close>; \<open>None\<close> if the handshake does not return.\<close>

definition dialAuthenticated ::
  "'s conn_ops \<Rightarrow> ('s, 'b, 'p, 'c) carriers \<Rightarrow> entropy \<Rightarrow> ('p, 'c) client \<Rightarrow> ((carrier_error + 's) \<times> 's option) option" where
  "dialAuthenticated ops ca g c =
     (case dialCarrier ops ca c of
        (Inl e, closed) \<Rightarrow> Some (Inl e, closed)
      | (Inr conn, _) \<Rightarrow>
          (case run_io ops g (clientHandshake (co_Token (cl_opts c))) conn of
             None \<Rightarrow> None
           | Some (Some err, conn) \<Rightarrow> Some (Inl (Authenticate err), Some (op_Close ops conn))
           | Some (None, conn) \<Rightarrow> Some (Inr conn, None)))"

section \<open>Sessions\<close>

text \<open>\<^verbatim>\<open>connectMux\<close>. The session it returns stands on the returned connection.\<close>

definition connectMux ::
  "'s conn_ops \<Rightarrow> ('s, 'b, 'p, 'c) carriers \<Rightarrow> entropy \<Rightarrow> ('p, 'c) client \<Rightarrow>
     ((carrier_error + 's) \<times> 's option) option" where
  "connectMux ops ca g c =
     (case dialAuthenticated ops ca g c of
        None \<Rightarrow> None
      | Some (Inl e, closed) \<Rightarrow> Some (Inl e, closed)
      | Some (Inr conn, closed) \<Rightarrow>
          (case ca_smux ca (muxConfig (ca_smux_default ca)) conn of
             Some e \<Rightarrow> Some (Inl (StartSmux e), Some (op_Close ops conn))
           | None \<Rightarrow> Some (Inr conn, closed)))"

text \<open>
  The QUIC library: dialling an address with a TLS and a QUIC configuration, opening a stream, the error of the
  connection's context, which is set once the connection is closed, and closing it.
\<close>

record ('q, 's, 'c) quic_lib =
  qc_DialAddr :: "string \<Rightarrow> 'c tls_config option \<Rightarrow> quic_config \<Rightarrow> io_error + 'q"
  qc_OpenStreamSync :: "'q \<Rightarrow> (io_error + 's) \<times> 'q"
  qc_ContextErr :: "'q \<Rightarrow> io_error option"
  qc_CloseWithError :: "'q \<Rightarrow> 'q"

text \<open>\<^verbatim>\<open>connectQUIC\<close>; the second component is a connection that was closed.\<close>

definition connectQUIC ::
  "'s conn_ops \<Rightarrow> entropy \<Rightarrow> ('q, 's, 'c) quic_lib \<Rightarrow> ('p, 'c) client \<Rightarrow> ((carrier_error + 'q) \<times> 'q option) option" where
  "connectQUIC ops g Q c =
     (case qc_DialAddr Q (co_ServerAddr (cl_opts c)) (cl_tls c) quicConfig of
        Inl e \<Rightarrow> Some (Inl (DialQUIC e), None)
      | Inr conn \<Rightarrow>
          (case qc_OpenStreamSync Q conn of
             (Inl e, conn) \<Rightarrow> Some (Inl (OpenAuthStream e), Some (qc_CloseWithError Q conn))
           | (Inr authStream, conn) \<Rightarrow>
               (case run_io ops g (io_bind (clientHandshake (co_Token (cl_opts c))) (\<lambda>r. case r of
                       Some err \<Rightarrow> Ret (Some err)
                     | None \<Rightarrow> DoClose (Ret None))) authStream of
                  None \<Rightarrow> None
                | Some (Some err, _) \<Rightarrow> Some (Inl (Authenticate err), Some (qc_CloseWithError Q conn))
                | Some (None, _) \<Rightarrow> Some (Inr conn, None))))"

section \<open>Sessions\<close>

text \<open>
  \<^verbatim>\<open>quicSession.open\<close> after \<^verbatim>\<open>OpenStreamSync\<close>: send the marker; if that fails, cancel reading and close, which is
  the stream's \<^verbatim>\<open>Close\<close>.
\<close>

definition quic_open :: "io_error option io" where
  "quic_open =
     DoWrite [quicStreamMarker] (\<lambda>w. case w of
       Some e \<Rightarrow> DoClose (Ret (Some e))
     | None \<Rightarrow> Ret None)"

text \<open>The methods of \<^verbatim>\<open>quicSession\<close>; \<open>None\<close> if opening does not return.\<close>

definition quicSession_open ::
  "'s conn_ops \<Rightarrow> entropy \<Rightarrow> ('q, 's, 'c) quic_lib \<Rightarrow> 'q \<Rightarrow> ((io_error + 's) \<times> 'q) option" where
  "quicSession_open ops g Q conn =
     (case qc_OpenStreamSync Q conn of
        (Inl e, conn) \<Rightarrow> Some (Inl e, conn)
      | (Inr st, conn) \<Rightarrow>
          (case run_io ops g quic_open st of
             None \<Rightarrow> None
           | Some (Some e, _) \<Rightarrow> Some (Inl e, conn)
           | Some (None, st) \<Rightarrow> Some (Inr st, conn)))"

definition quicSession_isClosed :: "('q, 's, 'c) quic_lib \<Rightarrow> 'q \<Rightarrow> bool" where
  "quicSession_isClosed Q conn \<longleftrightarrow> qc_ContextErr Q conn \<noteq> None"

definition quicSession_close :: "('q, 's, 'c) quic_lib \<Rightarrow> 'q \<Rightarrow> 'q" where
  "quicSession_close Q conn = qc_CloseWithError Q conn"

text \<open>
  The smux library: starting a session on a connection, opening a stream, whether the session is closed, and closing
  it. The methods of \<^verbatim>\<open>smuxSession\<close> pass through; \<^verbatim>\<open>open\<close> wraps the stream.
\<close>

record ('x, 't, 's) smux_lib =
  sx_Client :: "'s \<Rightarrow> 'x"
  sx_OpenStream :: "'x \<Rightarrow> (io_error + 't) \<times> 'x"
  sx_IsClosed :: "'x \<Rightarrow> bool"
  sx_Close :: "'x \<Rightarrow> 'x"

datatype 't muxStream = MuxStreamOf 't

definition smuxSession_open :: "('x, 't, 's) smux_lib \<Rightarrow> 'x \<Rightarrow> (io_error + 't muxStream) \<times> 'x" where
  "smuxSession_open L sess =
     (case sx_OpenStream L sess of
        (Inl e, sess) \<Rightarrow> (Inl e, sess)
      | (Inr st, sess) \<Rightarrow> (Inr (MuxStreamOf st), sess))"

definition smuxSession_isClosed :: "('x, 't, 's) smux_lib \<Rightarrow> 'x \<Rightarrow> bool" where
  "smuxSession_isClosed L sess = sx_IsClosed L sess"

definition smuxSession_close :: "('x, 't, 's) smux_lib \<Rightarrow> 'x \<Rightarrow> 'x" where
  "smuxSession_close L sess = sx_Close L sess"

text \<open>
  The stream adapters. The two flags of a QUIC stream tell whether its sending side was closed, which is what the
  library's \<^verbatim>\<open>Close\<close> does, and whether reading was cancelled. A \<^verbatim>\<open>quicStream\<close> has both \<^verbatim>\<open>CloseWrite\<close> and \<^verbatim>\<open>Close\<close>.
\<close>

record quic_stream =
  qs_send_closed :: bool
  qs_read_cancelled :: bool

definition quicStream_CloseWrite :: "quic_stream \<Rightarrow> quic_stream" where
  "quicStream_CloseWrite st = st\<lparr>qs_send_closed := True\<rparr>"

definition quicStream_Close :: "quic_stream \<Rightarrow> quic_stream" where
  "quicStream_Close st = st\<lparr>qs_read_cancelled := True, qs_send_closed := True\<rparr>"

text \<open>
  Which carriers satisfy \<^verbatim>\<open>closeWriter\<close>, the interface that \<^verbatim>\<open>netutil.Pipe\<close> asks for: TCP connections and
  \<^verbatim>\<open>quicStream\<close> do, \<^verbatim>\<open>wsConn\<close> and \<^verbatim>\<open>muxStream\<close>, which wraps every smux stream, do not.
\<close>

definition has_CloseWrite :: "name \<Rightarrow> bool" where
  "has_CloseWrite p = (if p = QUIC then True else if Mux p then False else \<not> WebSocket p)"

datatype dialer_kind = SessionQUIC | SessionMux | PerConnection

definition newDialer :: "('p, 'c) client \<Rightarrow> dialer_kind" where
  "newDialer c =
     (if co_Protocol (cl_opts c) = QUIC then SessionQUIC
      else if Mux (co_Protocol (cl_opts c)) then SessionMux
      else PerConnection)"

section \<open>Running\<close>

datatype client_event = PipeLocal nat | CloseLocal nat

datatype client_error =
    ClientListen io_error
  | ClientUDP udp_error

text \<open>The handler of a local connection; \<open>dial\<close> is \<^verbatim>\<open>dialer.Dial\<close>, which is given the time it may take.\<close>

definition handle_local :: "(int \<Rightarrow> 'e + 't) \<Rightarrow> nat \<Rightarrow> client_event list" where
  "handle_local dial local = (case dial (dialTimeout + handshakeTimeout) of Inl _ \<Rightarrow> [CloseLocal local] | Inr _ \<Rightarrow> [PipeLocal local])"

datatype ('l, 'u) run_outcome =
    RunsRelay "('l, 'u) relay_setup"
  | RunsLoop bool "client_event list" bool
  | RunFails client_error bool

text \<open>
  \<^verbatim>\<open>Run\<close>: the last component says whether the dialer has been closed. For the UDP protocol the relay starts
  as it was set up.
\<close>

definition runUDP :: "('a, 'l, 'u) udp_net \<Rightarrow> ('p, 'c) client \<Rightarrow> udp_error + ('l, 'u) relay_setup" where
  "runUDP N c =
     (case dialUDPFunc N (co_ServerAddr (cl_opts c)) of
        Inl e \<Rightarrow> Inl e
      | Inr dial \<Rightarrow>
          (case listenUDP N (co_ListenAddr (cl_opts c)) of
             Inl e \<Rightarrow> Inl e
           | Inr conn \<Rightarrow>
               (let token = co_Token (cl_opts c) in
                Inr \<lparr>ur_listener = conn, ur_dial = dial, ur_up = client_up token, ur_down = client_down token\<rparr>)))"

definition client_Run ::
  "('a, 'l, 'u) udp_net \<Rightarrow> ('p, 'c) client \<Rightarrow> (int \<Rightarrow> string \<Rightarrow> io_error option) \<Rightarrow> ((int \<Rightarrow> 'e + 't) \<times> nat) accept_event list \<Rightarrow>
     ('l, 'u) run_outcome" where
  "client_Run N c listen evs =
     (if co_Protocol (cl_opts c) = UDP
      then (case runUDP N c of Inl e \<Rightarrow> RunFails (ClientUDP e) False | Inr relay \<Rightarrow> RunsRelay relay)
      else case listen keepAlive (co_ListenAddr (cl_opts c)) of
        Some e \<Rightarrow> RunFails (ClientListen e) True
      | None \<Rightarrow>
          (case AcceptLoop evs of (acts, returned) \<Rightarrow>
             RunsLoop returned (concat (map (\<lambda>(dial, local). handle_local dial local) (handled acts))) returned))"

section \<open>Only an authenticated server\<close>

definition server_proved :: "string \<Rightarrow> entropy \<Rightarrow> bytes \<Rightarrow> bytes \<Rightarrow> bool" where
  "server_proved token g bs rest \<longleftrightarrow> (\<exists>nc ns. length ns = NonceSize \<and> rand_Read g NonceSize = Inr nc
     \<and> bs = ns @ Sign token labelServer [nc, ns] @ rest)"

context connection
begin

lemma client_handshake_outcome:
  "\<exists>r s'. run_io ops g (clientHandshake token) s = Some (r, s')
     \<and> (r = None \<longrightarrow> server_proved token g (content s) (content s'))"
proof -
  obtain r s' where "run_io ops g (clientHandshake token) s = Some (r, s')"
    using run_io_returns [of g "clientHandshake token" s] by blast
  moreover from this have "r = None \<longrightarrow> server_proved token g (content s) (content s')"
    using clientHandshake_sound [of g token s s'] unfolding server_proved_def by blast
  ultimately show ?thesis by blast
qed

lemma dialAuthenticated_cases:
  "\<exists>r closed. dialAuthenticated ops ca g c = Some (r, closed)
     \<and> (\<forall>conn. r = Inr conn \<longrightarrow> closed = None \<and> (\<exists>raw. fst (dialCarrier ops ca c) = Inr raw
          \<and> server_proved (co_Token (cl_opts c)) g (content raw) (content conn)))
     \<and> (\<forall>e raw. r = Inl e \<and> fst (dialCarrier ops ca c) = Inr raw \<longrightarrow>
          (\<exists>d. closed = Some d \<and> content d = []))"
proof -
  obtain dc closed where dc: "dialCarrier ops ca c = (dc, closed)" by fastforce
  show ?thesis
  proof (cases dc)
    case (Inl e)
    with dc show ?thesis by (simp add: dialAuthenticated_def)
  next
    case (Inr conn)
    obtain r c1 where run: "run_io ops g (clientHandshake (co_Token (cl_opts c))) conn = Some (r, c1)"
      and ok: "r = None \<longrightarrow> server_proved (co_Token (cl_opts c)) g (content conn) (content c1)"
      using client_handshake_outcome [of g "co_Token (cl_opts c)" conn] by blast
    with Inr dc close_frame show ?thesis by (cases r) (auto simp: dialAuthenticated_def)
  qed
qed

lemma connectMux_cases:
  "\<exists>r closed. connectMux ops ca g c = Some (r, closed)
     \<and> (\<forall>conn. r = Inr conn \<longrightarrow> (\<exists>raw. fst (dialCarrier ops ca c) = Inr raw
          \<and> server_proved (co_Token (cl_opts c)) g (content raw) (content conn)))
     \<and> (\<forall>e raw. r = Inl e \<and> fst (dialCarrier ops ca c) = Inr raw \<longrightarrow>
          (\<exists>d. closed = Some d \<and> content d = []))"
proof -
  obtain r closed where da: "dialAuthenticated ops ca g c = Some (r, closed)"
    and ok: "\<forall>conn. r = Inr conn \<longrightarrow> closed = None \<and> (\<exists>raw. fst (dialCarrier ops ca c) = Inr raw
          \<and> server_proved (co_Token (cl_opts c)) g (content raw) (content conn))"
    and err: "\<forall>e raw. r = Inl e \<and> fst (dialCarrier ops ca c) = Inr raw \<longrightarrow> (\<exists>d. closed = Some d \<and> content d = [])"
    using dialAuthenticated_cases [of ca g c] by (elim exE conjE) (rule that)
  show ?thesis
  proof (cases r)
    case (Inl e)
    with da err show ?thesis by (simp add: connectMux_def)
  next
    case (Inr conn)
    with da ok close_frame show ?thesis
      by (cases "ca_smux ca (muxConfig (ca_smux_default ca)) conn") (auto simp: connectMux_def)
  qed
qed

lemma auth_stream_outcome:
  "\<exists>r s'. run_io ops g (io_bind (clientHandshake token) (\<lambda>r. case r of Some err \<Rightarrow> Ret (Some err) | None \<Rightarrow> DoClose (Ret None))) s
       = Some (r, s') \<and> (r = None \<longrightarrow> (\<exists>rest. server_proved token g (content s) rest))"
proof -
  let ?p = "io_bind (clientHandshake token) (\<lambda>r. case r of Some err \<Rightarrow> Ret (Some err) | None \<Rightarrow> DoClose (Ret None))"
  obtain r s' ws where run: "run_io ops g ?p s = Some (r, s')"
    and io: "io_run g True ?p (content s) (final s) r (content s') (final s') ws"
    using run_io_refines [of True s g ?p] by blast
  from io_run_bindD [OF io] obtain flt a c1 e1 ws1 ws2
    where hs: "io_run g True (clientHandshake token) (content s) (final s) a c1 e1 ws1"
      and k: "io_run g flt (case a of Some err \<Rightarrow> Ret (Some err) | None \<Rightarrow> DoClose (Ret None)) c1 e1 r (content s') (final s') ws2"
    by blast
  have "\<exists>rest. server_proved token g (content s) rest" if "r = None"
  proof -
    from k that have "a = None" by (cases a) auto
    with hs handshake_run_None show ?thesis
      unfolding clientHandshake_def server_proved_def by (fastforce simp: ClientHandshake_run_iff)
  qed
  with run show ?thesis by blast
qed

text \<open>The first stream of a QUIC connection on which the server proved knowledge of the token.\<close>

lemma connectQUIC_cases:
  "\<exists>r closed. connectQUIC ops g Q c = Some (r, closed)
     \<and> (\<forall>conn. r = Inr conn \<longrightarrow> closed = None \<and> (\<exists>conn0 raw rest. qc_DialAddr Q (co_ServerAddr (cl_opts c)) (cl_tls c) quicConfig = Inr conn0
          \<and> qc_OpenStreamSync Q conn0 = (Inr raw, conn) \<and> server_proved (co_Token (cl_opts c)) g (content raw) rest))
     \<and> (\<forall>e conn0. r = Inl e \<and> qc_DialAddr Q (co_ServerAddr (cl_opts c)) (cl_tls c) quicConfig = Inr conn0 \<longrightarrow>
          closed = Some (qc_CloseWithError Q (snd (qc_OpenStreamSync Q conn0))))"
proof (cases "qc_DialAddr Q (co_ServerAddr (cl_opts c)) (cl_tls c) quicConfig")
  case (Inl e)
  then show ?thesis by (simp add: connectQUIC_def)
next
  case (Inr conn0)
  obtain opened conn where st: "qc_OpenStreamSync Q conn0 = (opened, conn)" by fastforce
  show ?thesis
  proof (cases opened)
    case (Inl e)
    with Inr st show ?thesis by (simp add: connectQUIC_def)
  next
    case (Inr raw)
    with auth_stream_outcome [of g "co_Token (cl_opts c)" raw] st
      \<open>qc_DialAddr Q (co_ServerAddr (cl_opts c)) (cl_tls c) quicConfig = Inr conn0\<close>
    show ?thesis by (auto simp: connectQUIC_def split: option.splits)
  qed
qed

text \<open>Opening a QUIC stream always returns, and an open stream has carried the marker and nothing else.\<close>

lemma quicSession_open_marked:
  "\<exists>r conn'. quicSession_open ops g Q conn = Some (r, conn') \<and> conn' = snd (qc_OpenStreamSync Q conn)
     \<and> (\<forall>st. r = Inr st \<longrightarrow> (\<exists>st0. fst (qc_OpenStreamSync Q conn) = Inr st0
          \<and> sent st = sent st0 @ [[quicStreamMarker]] \<and> content st = content st0))"
proof -
  obtain opened conn' where st: "qc_OpenStreamSync Q conn = (opened, conn')" by fastforce
  show ?thesis
  proof (cases opened)
    case (Inr st0)
    obtain a st' ws where run: "run_io ops g quic_open st0 = Some (a, st')" "sent st' = sent st0 @ ws"
        "io_run g True quic_open (content st0) (final st0) a (content st') (final st') ws"
      using run_io_refines [of True st0 g quic_open] by blast
    then show ?thesis using Inr st by (cases a) (auto simp: quicSession_open_def quic_open_def)
  qed (use st in \<open>simp add: quicSession_open_def\<close>)
qed

end

section \<open>Properties\<close>

definition demo_client :: "name \<Rightarrow> (unit, unit) client" where
  "demo_client p = \<lparr>cl_opts = \<lparr>co_Protocol = p, co_ServerAddr = ''s:1'', co_ListenAddr = '':2'', co_Token = demo_token,
     co_CertPath = [], co_KCP = DefaultKCP, co_StealthSNI = ''w'', co_StealthRootCAs = None\<rparr>, cl_tls = None\<rparr>"

definition demo_server_stream :: conn where
  "demo_server_stream = conn_of [demo_ns @ Sign demo_token labelServer [demo_nc, demo_ns]]"

definition demo_carriers :: "(conn, unit, unit, unit) carriers" where
  "demo_carriers = \<lparr>ca_ws = \<lambda>_ _ _ _. Inl EOF, ca_tcp = \<lambda>_ _. Inr demo_server_stream, ca_aes = \<lambda>_. Inr (),
     ca_kcp = \<lambda>_ _ _ _. Inl EOF, ca_tune = \<lambda>_ s. s, ca_smux = \<lambda>_ _. None,
     ca_smux_default = \<lparr>mux_KeepAliveInterval = 0, mux_KeepAliveTimeout = 0, mux_MaxFrameSize = 0,
       mux_MaxReceiveBuffer = 0, mux_MaxStreamBuffer = 0\<rparr>,
     ca_stealth_new = \<lambda>_. None, ca_stealth = \<lambda>_ _ _. Inl EOF\<rparr>"

lemma demo_client_handshake:
  "\<exists>c'. run_io net_ops (Inr (\<lambda>_. 1)) (clientHandshake demo_token) demo_server_stream = Some (None, c')"
proof -
  obtain r c' ws where run: "run_io net_ops (Inr (\<lambda>_. 1)) (clientHandshake demo_token) demo_server_stream = Some (r, c')"
    and io: "io_run (Inr (\<lambda>_. 1)) False (clientHandshake demo_token) (conn_content demo_server_stream)
      (conn_final demo_server_stream) r (conn_content c') (conn_final c') ws"
    using netc.run_io_refines [of False demo_server_stream "Inr (\<lambda>_. 1)" "clientHandshake demo_token"]
    by (auto simp: demo_server_stream_def)
  have "r = None"
    using clientHandshake_run_accepts [of "Inr (\<lambda>_. 1)" demo_token demo_ns demo_nc "[]"] io
    by (simp add: demo_server_stream_def)
  with run show ?thesis by blast
qed

text \<open>
  The client uses authenticated servers only, and loses no connection. Over every carrier whose
  connections keep the contract, whatever the server sends: \<^verbatim>\<open>connectMux\<close> returns; a session it returns stands
  on a connection whose server proved knowledge of the token; and if it fails after the carrier was
  connected, for whichever reason, that connection has been closed.
\<close>

theorem client_mux_authenticated:
  assumes "connection ops content final todo sent reliable"
  shows "\<exists>r closed. connectMux ops ca g c = Some (r, closed)
     \<and> (\<forall>conn. r = Inr conn \<longrightarrow> (\<exists>raw. fst (dialCarrier ops ca c) = Inr raw
          \<and> server_proved (co_Token (cl_opts c)) g (content raw) (content conn)))
     \<and> (\<forall>e raw. r = Inl e \<and> fst (dialCarrier ops ca c) = Inr raw \<longrightarrow>
          (\<exists>d. closed = Some d \<and> content d = []))"
  using assms by (rule connection.connectMux_cases)

theorem client_mux_authenticated_witness:
  "\<exists>conn raw. connectMux net_ops demo_carriers (Inr (\<lambda>_. 1)) (demo_client TCPMux) = Some (Inr conn, None)
     \<and> server_proved demo_token (Inr (\<lambda>_. 1)) (conn_content raw) (conn_content conn)"
proof -
  obtain c' where "run_io net_ops (Inr (\<lambda>_. 1)) (clientHandshake demo_token) demo_server_stream = Some (None, c')"
    using demo_client_handshake by blast
  then have "connectMux net_ops demo_carriers (Inr (\<lambda>_. 1)) (demo_client TCPMux) = Some (Inr c', None)"
    by (simp add: connectMux_def dialAuthenticated_def dialCarrier_def demo_client_def demo_carriers_def
        WebSocket_def proto_names)
  with client_mux_authenticated [OF netc.connection_axioms, of demo_carriers "Inr (\<lambda>_. 1)" "demo_client TCPMux"]
  show ?thesis by (auto simp: demo_client_def)
qed

text \<open>
  The same for QUIC: \<^verbatim>\<open>connectQUIC\<close> returns; a session it returns is a connection whose server proved knowledge of the
  token on the first stream; and every failure after dialling closes the connection.
\<close>

theorem client_quic_authenticated:
  assumes "connection ops content final todo sent reliable"
  shows "\<exists>r closed. connectQUIC ops g Q c = Some (r, closed)
     \<and> (\<forall>conn. r = Inr conn \<longrightarrow> closed = None \<and> (\<exists>conn0 raw rest. qc_DialAddr Q (co_ServerAddr (cl_opts c)) (cl_tls c) quicConfig = Inr conn0
          \<and> qc_OpenStreamSync Q conn0 = (Inr raw, conn) \<and> server_proved (co_Token (cl_opts c)) g (content raw) rest))
     \<and> (\<forall>e conn0. r = Inl e \<and> qc_DialAddr Q (co_ServerAddr (cl_opts c)) (cl_tls c) quicConfig = Inr conn0 \<longrightarrow>
          closed = Some (qc_CloseWithError Q (snd (qc_OpenStreamSync Q conn0))))"
  using assms by (rule connection.connectQUIC_cases)

text \<open>A QUIC connection as the number of streams opened on it and whether it is closed.\<close>

definition demo_quic :: "(nat \<times> bool, conn, unit) quic_lib" where
  "demo_quic = \<lparr>qc_DialAddr = \<lambda>_ _ _. Inr (0, False),
     qc_OpenStreamSync = (\<lambda>(n, closed). (if closed then Inl ErrClosed else Inr demo_server_stream, (Suc n, closed))),
     qc_ContextErr = (\<lambda>(n, closed). if closed then Some Canceled else None), qc_CloseWithError = (\<lambda>(n, _). (n, True))\<rparr>"

theorem client_quic_authenticated_witness:
  "\<exists>r closed. connectQUIC net_ops (Inr (\<lambda>_. 1)) demo_quic (demo_client QUIC) = Some (r, closed)
     \<and> (\<forall>e. r = Inl e \<longrightarrow> closed = Some (1, True))"
  using client_quic_authenticated [OF netc.connection_axioms, of "Inr (\<lambda>_. 1)" demo_quic "demo_client QUIC"]
  by (auto simp: demo_quic_def)

end
