(* ===== verification/Client_Main.thy ===== *)
theory Client_Main
  imports Transport_Client
begin

text \<open>
  Package \<^verbatim>\<open>client\<close>: \<^verbatim>\<open>internal/client/client.go\<close> (the control connection and its reconnection loop) and
  \<^verbatim>\<open>internal/client/runner.go\<close> (the runner that owns the running transport, and its supervisor).
\<close>

section \<open>Backoff\<close>

definition minBackoff :: int where "minBackoff = 3 * second"
definition maxBackoff :: int where "maxBackoff = 60 * second"
definition controlDialTimeout :: int where "controlDialTimeout = 10 * second"
definition clientKeepAlive :: int where "clientKeepAlive = 15 * second"
definition clientHandshakeTimeout :: int where "clientHandshakeTimeout = 15 * second"

definition next_backoff :: "int \<Rightarrow> int" where
  "next_backoff d = min (2 * d) maxBackoff"

interpretation retry: backoff next_backoff minBackoff maxBackoff
  by unfold_locales (auto simp: next_backoff_def minBackoff_def maxBackoff_def second_def)

text \<open>
  \<^verbatim>\<open>sleep\<close> waits for its timer or for the end of the context, whichever comes first; which case of the \<^verbatim>\<open>select\<close> is taken is
  up to the outside.
\<close>

datatype select_case = TimerFires | ContextDone

primrec sleep :: "select_case \<Rightarrow> bool" where
  "sleep TimerFires = True"
| "sleep ContextDone = False"

section \<open>The runner\<close>

datatype client_failure =
    ReadCA io_error
  | NoCACertificates string
  | ApplyTransport transport_error
  | ControlDial io_error
  | ControlDeadline io_error
  | ControlAuth auth_error
  | ControlMessage control_error
  | ControlLost io_error
  | ControlClosed

text \<open>
  A started transport: the settings it was started with, its client, whether its context was cancelled and
  whether its \<^verbatim>\<open>done\<close> channel is closed. The runner keeps the current one; \<open>rn_runs\<close> lists every transport
  ever started, and a pointer to one is its index. \<open>rn_log\<close> records in their order the runner's own actions on
  transports: cancelling one, having received from its \<^verbatim>\<open>done\<close> channel, and starting one.
\<close>

datatype run_event = Cancels nat | AwaitsDone nat | Starts nat

record ('p, 'c) running =
  ru_settings :: control_config
  ru_client :: "('p, 'c) client"
  ru_cancelled :: bool
  ru_done :: bool

record ('p, 'c) runner =
  rn_cfg :: Client
  rn_runs :: "('p, 'c) running list"
  rn_current :: "nat option"
  rn_ctx_done :: bool
  rn_log :: "run_event list"

definition newRunner :: "Client \<Rightarrow> ('p, 'c) runner" where
  "newRunner cfg = \<lparr>rn_cfg = cfg, rn_runs = [], rn_current = None, rn_ctx_done = False, rn_log = []\<rparr>"

text \<open>The outside: reading a file, adding PEM certificates to a pool, decoding a PEM block.\<close>

record 'p client_env =
  env_read :: "string \<Rightarrow> io_error + bytes"
  env_append :: "bytes \<Rightarrow> 'p option"
  env_pem :: "bytes \<Rightarrow> (string \<times> bytes) option"

definition loadCertPool :: "'p client_env \<Rightarrow> string \<Rightarrow> client_failure + 'p" where
  "loadCertPool E path =
     (case env_read E path of
        Inl e \<Rightarrow> Inl (ReadCA e)
      | Inr pem \<Rightarrow>
          (case env_append E pem of
             None \<Rightarrow> Inl (NoCACertificates path)
           | Some pool \<Rightarrow> Inr pool))"

text \<open>
  \<^verbatim>\<open>stopLocked\<close> cancels the transport and then waits for its \<^verbatim>\<open>done\<close> channel, which its supervisor closes when it
  returns; so when the wait is over the transport is done.
\<close>

definition cancel_run :: "nat \<Rightarrow> ('p, 'c) runner \<Rightarrow> ('p, 'c) runner" where
  "cancel_run i r = r\<lparr>rn_runs := (rn_runs r)[i := (rn_runs r ! i)\<lparr>ru_cancelled := True\<rparr>], rn_log := rn_log r @ [Cancels i]\<rparr>"

definition await_done :: "nat \<Rightarrow> ('p, 'c) runner \<Rightarrow> ('p, 'c) runner" where
  "await_done i r = r\<lparr>rn_runs := (rn_runs r)[i := (rn_runs r ! i)\<lparr>ru_done := True\<rparr>], rn_log := rn_log r @ [AwaitsDone i]\<rparr>"

definition stopLocked :: "('p, 'c) runner \<Rightarrow> ('p, 'c) runner" where
  "stopLocked r =
     (case rn_current r of
        None \<Rightarrow> r
      | Some i \<Rightarrow> (await_done i (cancel_run i r))\<lparr>rn_current := None\<rparr>)"

definition client_options :: "Client \<Rightarrow> control_config \<Rightarrow> 'p option \<Rightarrow> 'p ClientOptions" where
  "client_options cfg settings pool =
     \<lparr>co_Protocol = ctl_Protocol settings, co_ServerAddr = JoinHostPort (cli_RemoteHost cfg) (ctl_Port settings),
      co_ListenAddr = cli_ListenAddress cfg, co_Token = cli_Token cfg, co_CertPath = cli_TLSCertPath cfg,
      co_KCP = (case ctl_KCP settings of None \<Rightarrow> DefaultKCP | Some k \<Rightarrow> k),
      co_StealthSNI = cli_StealthSNI cfg, co_StealthRootCAs = pool\<rparr>"

definition unchanged :: "control_config \<Rightarrow> ('p, 'c) runner \<Rightarrow> bool" where
  "unchanged settings r =
     (case rn_current r of
        None \<Rightarrow> False
      | Some i \<Rightarrow> Equal (ru_settings (rn_runs r ! i)) settings \<and> \<not> ru_done (rn_runs r ! i))"

definition start_run :: "control_config \<Rightarrow> ('p, 'c) client \<Rightarrow> ('p, 'c) runner \<Rightarrow> ('p, 'c) runner" where
  "start_run settings tr r =
     r\<lparr>rn_runs := rn_runs r @ [\<lparr>ru_settings = settings, ru_client = tr, ru_cancelled = False, ru_done = False\<rparr>],
       rn_current := Some (length (rn_runs r)), rn_log := rn_log r @ [Starts (length (rn_runs r))]\<rparr>"

definition apply_settings ::
  "'p client_env \<Rightarrow> control_config \<Rightarrow> ('p, 'c) runner \<Rightarrow> client_failure option \<times> ('p, 'c) runner" where
  "apply_settings E settings r =
     (if unchanged settings r then (None, r)
      else
        (let r = stopLocked r; cfg = rn_cfg r in
         case (if cli_StealthCAFile cfg \<noteq> [] then map_sum id Some (loadCertPool E (cli_StealthCAFile cfg)) else Inr None) of
           Inl e \<Rightarrow> (Some e, r)
         | Inr pool \<Rightarrow>
             (case NewClient (env_pem E) (env_read E) (client_options cfg settings pool) of
                Inl e \<Rightarrow> (Some (ApplyTransport e), r)
              | Inr tr \<Rightarrow> (None, start_run settings tr r))))"

text \<open>\<^verbatim>\<open>stop\<close> is \<^verbatim>\<open>stopLocked\<close> under the mutex.\<close>

definition stop :: "('p, 'c) runner \<Rightarrow> ('p, 'c) runner" where
  "stop r = stopLocked r"

text \<open>
  The supervisor of one transport, over what happens in each round: whether the context is done when the
  transport's \<^verbatim>\<open>Run\<close> has returned, and how the following sleep ends. The result: the waits, and
  whether it has returned.
\<close>

fun supervise_from :: "int \<Rightarrow> (bool \<times> select_case) list \<Rightarrow> int list \<times> bool" where
  "supervise_from delay [] = ([], False)"
| "supervise_from delay ((ctx_done, sel) # evs) =
     (if ctx_done then ([], True)
      else if \<not> sleep sel then ([delay], True)
      else (case supervise_from (next_backoff delay) evs of (ws, returned) \<Rightarrow> (delay # ws, returned)))"

definition supervise :: "(bool \<times> select_case) list \<Rightarrow> int list \<times> bool" where
  "supervise evs = supervise_from minBackoff evs"

section \<open>The control connection\<close>

definition control_login :: "string \<Rightarrow> (client_failure + control_config) io" where
  "control_login token =
     DoSetDeadline (Some clientHandshakeTimeout) (\<lambda>d. case d of
       Some e \<Rightarrow> Ret (Inl (ControlDeadline e))
     | None \<Rightarrow>
         io_bind (ClientHandshake token) (\<lambda>r. case r of
           Inl e \<Rightarrow> Ret (Inl (ControlAuth e))
         | Inr channel \<Rightarrow>
             io_bind (Receive token channel) (\<lambda>r. case r of
               Inl e \<Rightarrow> Ret (Inl (ControlMessage e))
             | Inr announced \<Rightarrow>
                 DoSetDeadline None (\<lambda>d. case d of
                   Some e \<Rightarrow> Ret (Inl (ControlDeadline e))
                 | None \<Rightarrow> Ret (Inr announced)))))"

text \<open>
  \<^verbatim>\<open>runControl\<close>: the flag \<^verbatim>\<open>established\<close> and the error, the runner, and the connection as it was left (closed,
  by the deferred call). \<open>dial\<close> is the network's \<^verbatim>\<open>DialContext\<close>; \<open>None\<close> means that a loop does not return.
\<close>

definition control_dialer :: net_dialer where
  "control_dialer = \<lparr>nd_Timeout = controlDialTimeout, nd_KeepAlive = clientKeepAlive\<rparr>"

definition runControl ::
  "'s conn_ops \<Rightarrow> 'p client_env \<Rightarrow> entropy \<Rightarrow> (net_dialer \<Rightarrow> string \<Rightarrow> io_error + 's) \<Rightarrow> ('p, 'c) runner \<Rightarrow>
     ((bool \<times> client_failure) \<times> ('p, 'c) runner \<times> 's option) option" where
  "runControl ops E g dial r =
     (case dial control_dialer (cli_ControlAddress (rn_cfg r)) of
        Inl e \<Rightarrow> Some ((False, ControlDial e), r, None)
      | Inr conn \<Rightarrow>
          (case run_io ops g (control_login (cli_Token (rn_cfg r))) conn of
             None \<Rightarrow> None
           | Some (Inl e, conn) \<Rightarrow> Some ((False, e), r, Some (op_Close ops conn))
           | Some (Inr announced, conn) \<Rightarrow>
               (case apply_settings E announced r of
                  (Some e, r) \<Rightarrow> Some ((False, e), r, Some (op_Close ops conn))
                | (None, r) \<Rightarrow>
                    (case Discard_loop (op_Read ops) conn of
                       None \<Rightarrow> None
                     | Some (err, conn) \<Rightarrow>
                         Some ((True, case err of Some e \<Rightarrow> ControlLost e | None \<Rightarrow> ControlClosed), r,
                               Some (op_Close ops conn))))))"

section \<open>Run\<close>

text \<open>
  The reconnection loop over a sequence of attempts: for each the outcome of dialling, the randomness, whether
  the context is done afterwards, and how the sleep ends. The result is the runner, the waits,
  and whether \<^verbatim>\<open>Run\<close> has returned; the deferred \<^verbatim>\<open>stop\<close> runs when it does.
\<close>

record 's control_attempt =
  at_dial :: "net_dialer \<Rightarrow> string \<Rightarrow> io_error + 's"
  at_entropy :: entropy
  at_ctx_done :: bool
  at_select :: select_case

fun Run_loop ::
  "'s conn_ops \<Rightarrow> 'p client_env \<Rightarrow> int \<Rightarrow> ('p, 'c) runner \<Rightarrow> 's control_attempt list \<Rightarrow>
     (('p, 'c) runner \<times> int list \<times> bool) option" where
  "Run_loop ops E delay r [] = Some (r, [], False)"
| "Run_loop ops E delay r (a # as) =
     (case runControl ops E (at_entropy a) (at_dial a) r of
        None \<Rightarrow> None
      | Some ((established, _), r, _) \<Rightarrow>
          if at_ctx_done a then Some (stop r, [], True)
          else
            (let delay = (if established then minBackoff else delay) in
             if \<not> sleep (at_select a) then Some (stop r, [delay], True)
             else (case Run_loop ops E (next_backoff delay) r as of
                     None \<Rightarrow> None
                   | Some (r, ws, returned) \<Rightarrow> Some (r, delay # ws, returned))))"

text \<open>
  \<^verbatim>\<open>runStatic\<close>: either an error, upon which \<^verbatim>\<open>Run\<close> stops the runner, or the transport runs until the context is
  done; \<open>ends\<close> says whether that happens.
\<close>

definition runStatic :: "'p client_env \<Rightarrow> ('p, 'c) runner \<Rightarrow> client_failure option \<times> ('p, 'c) runner" where
  "runStatic E r =
     apply_settings E \<lparr>ctl_Protocol = cli_Protocol (rn_cfg r), ctl_Port = cli_DataPort (rn_cfg r), ctl_KCP = None\<rparr> r"

definition client_main ::
  "'s conn_ops \<Rightarrow> 'p client_env \<Rightarrow> Client \<Rightarrow> 's control_attempt list \<Rightarrow>
     bool \<Rightarrow> (client_failure option \<times> ('p, 'c) runner \<times> int list \<times> bool) option" where
  "client_main ops E cfg attempts ends =
     (let r = newRunner cfg in
      if cli_Protocol cfg \<noteq> []
      then (case runStatic E r of
              (Some e, r) \<Rightarrow> Some (Some e, stop r, [], True)
            | (None, r) \<Rightarrow> if ends then Some (None, stop r, [], True) else Some (None, r, [], False))
      else (case Run_loop ops E minBackoff r attempts of
              None \<Rightarrow> None
            | Some (r, ws, returned) \<Rightarrow> Some (None, r, ws, returned)))"

section \<open>The runner as a system\<close>

lemma supervise_from_waits:
  "supervise_from delay evs = (ws, returned) \<Longrightarrow>
     ws = map (\<lambda>n. (next_backoff ^^ n) delay) [0..<length ws] \<and> (returned \<longleftrightarrow> (\<exists>ev \<in> set evs. fst ev \<or> \<not> sleep (snd ev)))"
proof (induction delay evs arbitrary: ws rule: supervise_from.induct)
  case (2 delay c t evs)
  show ?case
  proof (cases "c \<or> \<not> sleep t")
    case True
    with 2(2) show ?thesis by (auto split: if_splits)
  next
    case False
    obtain ws' ret where r: "supervise_from (next_backoff delay) evs = (ws', ret)" by fastforce
    with False 2(2) have ws: "ws = delay # ws'" "ret = returned" by auto
    from 2(1) [OF _ _ r [unfolded ws(2)]] False
    have ws': "ws' = map (\<lambda>n. (next_backoff ^^ n) (next_backoff delay)) [0..<length ws']"
      and ret: "returned \<longleftrightarrow> (\<exists>ev \<in> set evs. fst ev \<or> \<not> sleep (snd ev))" by auto
    have "map (\<lambda>n. (next_backoff ^^ n) delay) [0..<length ws] = delay # map (\<lambda>n. (next_backoff ^^ Suc n) delay) [0..<length ws']"
      by (simp add: ws map_upt_Suc del: upt_Suc funpow.simps)
    also have "\<dots> = ws" using ws' by (simp add: ws funpow_swap1)
    finally show ?thesis using ret False by auto
  qed
qed simp

text \<open>What \<^verbatim>\<open>supervise\<close> can observe while its context is done, or is not.\<close>

definition observes :: "bool \<Rightarrow> (bool \<times> select_case) list \<Rightarrow> bool" where
  "observes ctx_done evs \<longleftrightarrow> (\<forall>(seen, sel) \<in> set evs. seen \<or> sel = ContextDone \<longrightarrow> ctx_done)"

lemma supervise_returns: "supervise evs = (ws, True) \<Longrightarrow> observes ctx_done evs \<Longrightarrow> ctx_done"
proof -
  assume "supervise evs = (ws, True)" and seen: "observes ctx_done evs"
  with supervise_from_waits [of minBackoff evs ws True] obtain ev where ev: "ev \<in> set evs" "fst ev \<or> \<not> sleep (snd ev)"
    unfolding supervise_def by blast
  then have "fst ev \<or> snd ev = ContextDone" by (cases "snd ev") auto
  with ev(1) seen show ctx_done by (cases ev) (auto simp: observes_def)
qed

text \<open>
  What can happen to a runner: settings are applied, it is stopped, the surrounding context is cancelled,
  and a supervisor returns, after whatever it has observed of its context, which is done when it was cancelled or the
  surrounding one is done.
\<close>

inductive runner_step :: "('p, 'c) runner \<Rightarrow> ('p, 'c) runner \<Rightarrow> bool" where
  applies: "runner_step r (snd (apply_settings E settings r))"
| is_stopped: "runner_step r (stop r)"
| cancels: "runner_step r (r\<lparr>rn_ctx_done := True\<rparr>)"
| gives_up: "i < length (rn_runs r) \<Longrightarrow> observes (ru_cancelled (rn_runs r ! i) \<or> rn_ctx_done r) evs \<Longrightarrow>
    supervise evs = (ws, True) \<Longrightarrow>
    runner_step r (r\<lparr>rn_runs := (rn_runs r)[i := (rn_runs r ! i)\<lparr>ru_done := True\<rparr>]\<rparr>)"

definition runner_init :: "Client \<Rightarrow> ('p, 'c) runner \<Rightarrow> bool" where
  "runner_init cfg r \<longleftrightarrow> r = newRunner cfg"

text \<open>Every transport that is not done is the current one; it was started with its settings and the client's own values.\<close>

definition run_ok :: "Client \<Rightarrow> bool \<Rightarrow> nat option \<Rightarrow> nat \<Rightarrow> ('p, 'c) running \<Rightarrow> bool" where
  "run_ok cfg ctx_done active i x \<longleftrightarrow> (\<not> ru_done x \<longrightarrow> active = Some i) \<and> (ru_done x \<longrightarrow> ru_cancelled x \<or> ctx_done)
     \<and> (\<exists>pool. cl_opts (ru_client x) = client_options cfg (ru_settings x) pool)"

definition runner_inv :: "Client \<Rightarrow> ('p, 'c) runner \<Rightarrow> bool" where
  "runner_inv cfg r \<longleftrightarrow> rn_cfg r = cfg
     \<and> (\<forall>i. rn_current r = Some i \<longrightarrow> i < length (rn_runs r) \<and> \<not> ru_cancelled (rn_runs r ! i))
     \<and> (\<forall>i < length (rn_runs r). run_ok cfg (rn_ctx_done r) (rn_current r) i (rn_runs r ! i))"

lemma runner_inv_new [simp]: "runner_inv cfg (newRunner cfg)"
  by (simp add: runner_inv_def newRunner_def)

lemma stopLocked_current:
  "rn_current r = Some i \<Longrightarrow> i < length (rn_runs r) \<Longrightarrow> stopLocked r =
     r\<lparr>rn_runs := (rn_runs r)[i := (rn_runs r ! i)\<lparr>ru_cancelled := True, ru_done := True\<rparr>], rn_current := None,
       rn_log := rn_log r @ [Cancels i, AwaitsDone i]\<rparr>"
  by (simp add: stopLocked_def cancel_run_def await_done_def)

lemma stopLocked_inv: "runner_inv cfg r \<Longrightarrow> runner_inv cfg (stopLocked r)"
proof (cases "rn_current r")
  case (Some i)
  assume inv: "runner_inv cfg r"
  with Some have i: "i < length (rn_runs r)" by (simp add: runner_inv_def)
  have "run_ok cfg (rn_ctx_done r) None j ((rn_runs r)[i := (rn_runs r ! i)\<lparr>ru_cancelled := True, ru_done := True\<rparr>] ! j)"
    if j: "j < length (rn_runs r)" for j
  proof -
    from inv j have "run_ok cfg (rn_ctx_done r) (Some i) j (rn_runs r ! j)" by (simp add: runner_inv_def Some)
    then show ?thesis using i j by (cases "j = i") (auto simp: run_ok_def)
  qed
  with inv Some i show ?thesis by (simp add: runner_inv_def stopLocked_current)
qed (simp add: stopLocked_def)

lemma stopLocked_frame [simp]:
  "rn_current (stopLocked r) = None" "rn_cfg (stopLocked r) = rn_cfg r" "rn_ctx_done (stopLocked r) = rn_ctx_done r"
  "length (rn_runs (stopLocked r)) = length (rn_runs r)"
  by (auto simp: stopLocked_def cancel_run_def await_done_def split: option.splits)

lemma NewClient_opts: "NewClient dec rf o' = Inr tr \<Longrightarrow> cl_opts tr = o'"
  by (auto simp: NewClient_def split: sum.splits if_splits)

text \<open>The possible outcomes of applying settings.\<close>

lemma apply_unchanged: "unchanged settings r \<Longrightarrow> apply_settings E settings r = (None, r)"
  by (simp add: apply_settings_def)

lemma apply_changed:
  assumes "\<not> unchanged settings r" and "apply_settings E settings r = (e, r')"
  shows "(\<exists>x. e = Some x) \<and> r' = stopLocked r
    \<or> e = None \<and> (\<exists>tr pool. cl_opts tr = client_options (rn_cfg r) settings pool \<and> r' = start_run settings tr (stopLocked r))"
  using assms NewClient_opts
  by (fastforce simp: apply_settings_def Let_def split: sum.splits if_splits)

lemma run_ok_mono:
  "run_ok cfg c None i x \<Longrightarrow> run_ok cfg c active i x"
  "run_ok cfg c active i x \<Longrightarrow> run_ok cfg True active i x"
  by (auto simp: run_ok_def)

lemma run_ok_new:
  "cl_opts tr = client_options cfg settings pool \<Longrightarrow>
     run_ok cfg c (Some i) i \<lparr>ru_settings = settings, ru_client = tr, ru_cancelled = False, ru_done = False\<rparr>"
  by (auto simp: run_ok_def)

lemma runner_invD: "runner_inv cfg r \<Longrightarrow> j < length (rn_runs r) \<Longrightarrow> run_ok cfg (rn_ctx_done r) (rn_current r) j (rn_runs r ! j)"
  by (simp add: runner_inv_def)

lemma start_inv:
  assumes inv: "runner_inv cfg r" and none: "rn_current r = None" and tr: "cl_opts tr = client_options cfg settings pool"
  shows "runner_inv cfg (start_run settings tr r)"
proof -
  have "run_ok cfg (rn_ctx_done r) (Some (length (rn_runs r))) j (rn_runs (start_run settings tr r) ! j)"
    if j: "j < Suc (length (rn_runs r))" for j
  proof (cases "j = length (rn_runs r)")
    case True
    then show ?thesis using run_ok_new [OF tr] by (simp add: start_run_def)
  next
    case False
    with j have "j < length (rn_runs r)" by simp
    with runner_invD [OF inv this] none show ?thesis by (simp add: start_run_def nth_append run_ok_mono)
  qed
  with inv show ?thesis by (simp add: runner_inv_def start_run_def)
qed

lemma apply_inv:
  assumes inv: "runner_inv cfg r" and ap: "apply_settings E settings r = (e, r')"
  shows "runner_inv cfg r'"
proof (cases "unchanged settings r")
  case True
  with inv ap show ?thesis by (simp add: apply_unchanged)
next
  case False
  from inv have cfg: "rn_cfg r = cfg" by (simp add: runner_inv_def)
  from apply_changed [OF False ap] show ?thesis
  proof (elim disjE conjE exE)
    fix tr pool
    assume tr: "cl_opts tr = client_options (rn_cfg r) settings pool" and r': "r' = start_run settings tr (stopLocked r)"
    from tr cfg have "cl_opts tr = client_options cfg settings pool" by simp
    from start_inv [OF stopLocked_inv [OF inv] _ this] show ?thesis by (simp add: r')
  qed (simp add: stopLocked_inv inv)
qed

lemma cancel_inv: "runner_inv cfg r \<Longrightarrow> runner_inv cfg (r\<lparr>rn_ctx_done := True\<rparr>)"
  by (simp add: runner_inv_def) (blast intro: run_ok_mono(2))

lemma done_inv:
  assumes inv: "runner_inv cfg r" and i: "i < length (rn_runs r)" and over: "ru_cancelled (rn_runs r ! i) \<or> rn_ctx_done r"
  shows "runner_inv cfg (r\<lparr>rn_runs := (rn_runs r)[i := (rn_runs r ! i)\<lparr>ru_done := True\<rparr>]\<rparr>)"
proof -
  have "run_ok cfg (rn_ctx_done r) (rn_current r) j ((rn_runs r)[i := (rn_runs r ! i)\<lparr>ru_done := True\<rparr>] ! j)"
    if j: "j < length (rn_runs r)" for j
    using runner_invD [OF inv j] over j by (cases "j = i") (simp_all add: run_ok_def)
  moreover have "ru_cancelled ((rn_runs r)[i := (rn_runs r ! i)\<lparr>ru_done := True\<rparr>] ! j) = ru_cancelled (rn_runs r ! j)" for j
    using i by (simp add: nth_list_update)
  ultimately show ?thesis using inv by (simp add: runner_inv_def)
qed

lemma runner_inv_step: "runner_step r r' \<Longrightarrow> runner_inv cfg r \<Longrightarrow> runner_inv cfg r'"
proof (induction rule: runner_step.induct)
  case (applies r E settings)
  from apply_inv [OF applies.prems prod.collapse [symmetric]] show ?case .
next
  case (is_stopped r)
  then show ?case by (simp add: stop_def stopLocked_inv)
next
  case (cancels r)
  then show ?case by (rule cancel_inv)
next
  case (gives_up i r evs ws)
  then show ?case using supervise_returns by (blast intro: done_inv)
qed

interpretation run: invariant_system "runner_init cfg" runner_step "runner_inv cfg" for cfg
proof
  show "runner_init cfg r \<Longrightarrow> runner_inv cfg r" for r by (simp add: runner_init_def)
  show "runner_inv cfg r \<Longrightarrow> runner_step r r' \<Longrightarrow> runner_inv cfg r'" for r r' by (simp add: runner_inv_step)
qed

text \<open>After a stop every transport is done.\<close>

definition all_done :: "('p, 'c) runner \<Rightarrow> bool" where
  "all_done r \<longleftrightarrow> (\<forall>x \<in> set (rn_runs r). ru_done x)"

lemma no_current_all_done: "runner_inv cfg r \<Longrightarrow> rn_current r = None \<Longrightarrow> all_done r"
  unfolding all_done_def all_set_conv_all_nth by (simp add: runner_inv_def run_ok_def)

lemma stopLocked_all_done: "runner_inv cfg r \<Longrightarrow> all_done (stopLocked r)"
  using no_current_all_done stopLocked_inv stopLocked_frame(1) by blast

lemma unchanged_iff:
  "unchanged settings r \<longleftrightarrow> (\<exists>i. rn_current r = Some i \<and> ru_settings (rn_runs r ! i) = settings \<and> \<not> ru_done (rn_runs r ! i))"
  by (simp add: unchanged_def split: option.splits)

lemma control_config_eq_iff:
  "c = (d :: control_config) \<longleftrightarrow> ctl_Protocol c = ctl_Protocol d \<and> ctl_Port c = ctl_Port d \<and> ctl_KCP c = ctl_KCP d"
  by (cases c, cases d) auto

section \<open>What the control connection brings\<close>

text \<open>
  A stream that carries an authentic announcement for this run: the server's nonce, the server tag over both
  nonces, and a control frame bound to their transcript whose body decodes to the announcement.
\<close>

definition authentic :: "string \<Rightarrow> entropy \<Rightarrow> bytes \<Rightarrow> control_config \<Rightarrow> bool" where
  "authentic token g bs ann \<longleftrightarrow> (\<exists>nc ns body rest. length ns = NonceSize \<and> rand_Read g NonceSize = Inr nc
     \<and> decode_control body = Inr ann \<and> length body \<le> maxBodySize
     \<and> bs = ns @ Sign token labelServer [nc, ns] @ control_frame token (transcript nc ns) body @ rest)"

lemma control_login_sound:
  assumes "io_run g flt (control_login token) c e (Inr ann) c' e' ws"
  shows "authentic token g c ann"
proof -
  define k2 :: "control_error + control_config \<Rightarrow> (client_failure + control_config) io" where
    "k2 = (\<lambda>r. case r of
               Inl e \<Rightarrow> Ret (Inl (ControlMessage e))
             | Inr announced \<Rightarrow>
                 DoSetDeadline None (\<lambda>d. case d of
                   Some e \<Rightarrow> Ret (Inl (ControlDeadline e))
                 | None \<Rightarrow> Ret (Inr announced)))"
  define k where "k = (\<lambda>r :: auth_error + bytes. case r of
           Inl e \<Rightarrow> Ret (Inl (ControlAuth e)) | Inr channel \<Rightarrow> io_bind (Receive token channel) k2)"
  from assms have "io_run g flt (io_bind (ClientHandshake token) k) c e (Inr ann) c' e' ws"
    unfolding control_login_def k_def k2_def by auto
  from io_run_bindD [OF this] obtain flt1 a c1 e1 ws1 ws2
    where hs: "io_run g flt (ClientHandshake token) c e a c1 e1 ws1"
      and k: "io_run g flt1 (k a) c1 e1 (Inr ann) c' e' ws2" by blast
  from k obtain ch where a: "a = Inr ch" by (cases a) (auto simp: k_def)
  with hs obtain nc ns where hs: "length ns = NonceSize" "rand_Read g NonceSize = Inr nc" "ch = transcript nc ns"
      "c = ns @ Sign token labelServer [nc, ns] @ c1"
    by (auto simp: ClientHandshake_run_iff)
  from k a have "io_run g flt1 (io_bind (Receive token ch) k2) c1 e1 (Inr ann) c' e' ws2" by (simp add: k_def)
  from io_run_bindD [OF this] obtain flt2 b c2 e2 ws3 ws4
    where rcv: "io_run g flt1 (Receive token ch) c1 e1 b c2 e2 ws3"
      and rest: "io_run g flt2 (k2 b) c2 e2 (Inr ann) c' e' ws4" by blast
  from rest have b: "b = Inr ann" "c' = c2" by (auto simp: k2_def split: sum.splits)
  from Receive_run_sound [OF rcv [unfolded b]] hs show ?thesis unfolding authentic_def by auto
qed

text \<open>Conversely, where nothing fails an authentic announcement is received.\<close>

lemma Receive_bind_frame:
  assumes "length body \<le> maxBodySize"
  shows "io_run g flt (io_bind (Receive token ch) k) (control_frame token ch body @ rest) e r c' e' ws
    \<longleftrightarrow> io_run g flt (k (decode_control body)) rest e r c' e' ws"
proof -
  let ?h = "PutUint16 (of_nat (length body))" and ?tag = "Sign token labelConfig [ch, body]"
  have "read_result 2 (?h @ body @ ?tag @ rest) e = Inr ?h" "drop 2 (?h @ body @ ?tag @ rest) = body @ ?tag @ rest"
      "read_result (length body + TagSize) (body @ ?tag @ rest) e = Inr (body @ ?tag)"
    using assms by (auto simp: read_result_Inr_iff)
  moreover have "unat (Uint16 ?h) = length body"
    using assms by (simp add: unat_length_16)
  ultimately show ?thesis
    using assms unfolding Receive_def control_frame_def by (simp add: Let_def)
qed

lemma control_login_accepts:
  assumes "io_run g False (control_login token) (ns @ Sign token labelServer [nc, ns] @
      control_frame token (transcript nc ns) body @ rest) e r c' e' ws"
    and "length ns = NonceSize" and "rand_Read g NonceSize = Inr nc" and small: "length body \<le> maxBodySize"
    and "decode_control body = Inr ann"
  shows "r = Inr ann"
  using assms(1,2,3,5) unfolding control_login_def ClientHandshake_def
  by (auto simp: read_result_def Let_def Receive_bind_frame [OF small])

lemma control_login_authentic:
  "io_run g False (control_login token) c e r c' e' ws \<Longrightarrow> authentic token g c ann \<Longrightarrow> r = Inr ann"
  unfolding authentic_def using control_login_accepts by blast

text \<open>Every outcome of one control connection, over any connection that keeps the contract.\<close>

lemma runControl_returns:
  assumes "connection ops content final todo sent reliable"
    and dial: "dial control_dialer (cli_ControlAddress (rn_cfg r)) = Inr conn"
  shows "\<exists>est err r' s. runControl ops E g dial r = Some ((est, err), r', Some s) \<and> final s = ErrClosed
    \<and> (r' = r \<and> \<not> est \<or> (\<exists>ann. authentic (cli_Token (rn_cfg r)) g (content conn) ann
          \<and> apply_settings E ann r = (if est then None else Some err, r')))
    \<and> (\<forall>ann. reliable conn \<and> authentic (cli_Token (rn_cfg r)) g (content conn) ann \<longrightarrow>
          apply_settings E ann r = (if est then None else Some err, r'))"
proof -
  let ?p = "control_login (cli_Token (rn_cfg r))"
  let ?auth = "authentic (cli_Token (rn_cfg r)) g (content conn)"
  obtain a s1 ws where run: "run_io ops g ?p conn = Some (a, s1)"
    and io: "io_run g (\<not> reliable conn) ?p (content conn) (final conn) a (content s1) (final s1) ws"
    using connection.run_io_refines [OF assms(1), of "\<not> reliable conn" conn g ?p] by blast
  have uniq: "a = Inr ann" if "reliable conn" "?auth ann" for ann
    using control_login_authentic [of g _ "content conn"] io that by auto
  note closed = connection.close_frame [OF assms(1)]
  show ?thesis
  proof (cases a)
    case (Inl x)
    with run have "runControl ops E g dial r = Some ((False, x), r, Some (op_Close ops s1))"
      by (simp add: runControl_def dial)
    moreover have "\<not> (reliable conn \<and> ?auth ann)" for ann using uniq [of ann] Inl by auto
    ultimately show ?thesis using closed by auto
  next
    case (Inr ann)
    obtain d s2 where d: "Discard_loop (op_Read ops) s1 = Some (d, s2)"
      using byte_stream.Discard_loop_returns [OF connection.axioms(1) [OF assms(1)], of s1] by blast
    from control_login_sound [OF io [unfolded Inr]] have ok: "?auth ann" .
    have same: "reliable conn \<and> ?auth ann' \<Longrightarrow> ann' = ann" for ann' using uniq [of ann'] Inr by auto
    obtain x r' where ap: "apply_settings E ann r = (x, r')" by fastforce
    define est where "est = (x = None)"
    define err where "err = (case x of Some y \<Rightarrow> y | None \<Rightarrow> (case d of Some e \<Rightarrow> ControlLost e | None \<Rightarrow> ControlClosed))"
    have x: "x = (if est then None else Some err)" by (cases x) (simp_all add: est_def err_def)
    have "\<exists>s. runControl ops E g dial r = Some ((est, err), r', Some (op_Close ops s))"
      using run Inr ap d by (cases x) (auto simp: runControl_def dial est_def err_def)
    with ok ap x same closed show ?thesis by blast
  qed
qed

lemma runControl_inv:
  "runControl ops E g d r = Some (x, r', c) \<Longrightarrow> runner_inv cfg r \<Longrightarrow> runner_inv cfg r'"
  by (auto simp: runControl_def split: sum.splits option.splits prod.splits dest: apply_inv)

lemma Run_loop_inv:
  "Run_loop ops E delay r as = Some (r', ws, returned) \<Longrightarrow> runner_inv cfg r \<Longrightarrow>
     runner_inv cfg r' \<and> (returned \<longrightarrow> rn_current r' = None)"
proof (induction ops E delay r as arbitrary: r' ws rule: Run_loop.induct)
  case (2 ops E delay r a as)
  from 2(2) obtain est err r1 c1 where rc: "runControl ops E (at_entropy a) (at_dial a) r = Some ((est, err), r1, c1)"
    by (auto split: option.splits)
  from runControl_inv [OF this 2(3)] have inv: "runner_inv cfg r1" .
  then have stopped: "runner_inv cfg (stop r1)" by (simp add: stop_def stopLocked_inv)
  show ?case
  proof (cases "at_ctx_done a \<or> \<not> sleep (at_select a)")
    case True
    with 2(2) rc have "r' = stop r1" by (auto simp: Let_def split: if_splits)
    with stopped show ?thesis by (simp add: stop_def)
  next
    case False
    with 2(2) rc obtain ws' where "Run_loop ops E (next_backoff (if est then minBackoff else delay)) r1 as = Some (r', ws', returned)"
      by (auto simp: Let_def split: if_splits option.splits)
    from 2(1) [OF rc refl refl refl _ refl _ this inv] False show ?thesis by auto
  qed
qed auto

lemma Run_loop_returns:
  assumes "connection ops content final todo sent reliable"
  shows "\<exists>r' ws returned. Run_loop ops E delay r as = Some (r', ws, returned)"
proof (induction as arbitrary: delay r)
  case (Cons a as)
  have "\<exists>est err r1 c1. runControl ops E (at_entropy a) (at_dial a) r = Some ((est, err), r1, c1)"
  proof (cases "at_dial a control_dialer (cli_ControlAddress (rn_cfg r))")
    case (Inr conn)
    from runControl_returns [where dial = "at_dial a", OF assms this] show ?thesis by blast
  qed (auto simp: runControl_def)
  then obtain est err r1 c1 where rc: "runControl ops E (at_entropy a) (at_dial a) r = Some ((est, err), r1, c1)" by blast
  obtain r2 ws ret where "Run_loop ops E (next_backoff (if est then minBackoff else delay)) r1 as = Some (r2, ws, ret)"
    using Cons by blast
  with rc show ?case by (auto simp: Let_def)
qed auto

text \<open>Which attempts were established, and the waits between them.\<close>

fun outcomes :: "'s conn_ops \<Rightarrow> 'p client_env \<Rightarrow> ('p, 'c) runner \<Rightarrow> 's control_attempt list \<Rightarrow> bool list" where
  "outcomes ops E r [] = []"
| "outcomes ops E r (a # as) =
     (case runControl ops E (at_entropy a) (at_dial a) r of
        None \<Rightarrow> []
      | Some ((established, _), r, _) \<Rightarrow> established # outcomes ops E r as)"

lemma Run_loop_waits:
  "Run_loop ops E delay r as = Some (r', ws, returned) \<Longrightarrow> n < length ws \<Longrightarrow>
     ws ! n = (if outcomes ops E r as ! n then minBackoff else if n = 0 then delay else next_backoff (ws ! (n - 1)))"
proof (induction ops E delay r as arbitrary: r' ws n rule: Run_loop.induct)
  case (2 ops E delay r a as)
  from 2(2) obtain est err r1 c1 where rc: "runControl ops E (at_entropy a) (at_dial a) r = Some ((est, err), r1, c1)"
    by (auto split: option.splits)
  let ?d = "if est then minBackoff else delay"
  show ?case
  proof (cases "at_ctx_done a \<or> \<not> sleep (at_select a)")
    case True
    with 2(2) rc have "ws = [] \<or> ws = [?d]" by (auto simp: Let_def split: if_splits)
    with 2(3) rc show ?thesis by auto
  next
    case False
    with 2(2) rc obtain ws' where run: "Run_loop ops E (next_backoff ?d) r1 as = Some (r', ws', returned)" and ws: "ws = ?d # ws'"
      by (auto simp: Let_def split: if_splits option.splits)
    show ?thesis
    proof (cases n)
      case 0
      then show ?thesis by (simp add: ws rc)
    next
      case (Suc m)
      with 2(3) ws have "m < length ws'" by simp
      from 2(1) [OF rc refl refl refl _ refl _ run this] False
      have "ws' ! m = (if outcomes ops E r1 as ! m then minBackoff else if m = 0 then next_backoff ?d else next_backoff (ws' ! (m - 1)))"
        by auto
      then show ?thesis by (cases m) (simp_all add: ws rc Suc)
    qed
  qed
qed auto

lemma Run_loop_backoff:
  assumes run: "Run_loop ops E minBackoff r as = Some (r', ws, returned)"
    and start: "m = 0 \<or> outcomes ops E r as ! m"
    and fails: "\<And>j. m < j \<Longrightarrow> j \<le> m + k \<Longrightarrow> \<not> outcomes ops E r as ! j"
    and len: "m + k < length ws"
  shows "ws ! (m + k) = (next_backoff ^^ k) minBackoff"
  using fails len
proof (induction k)
  case 0
  then show ?case using Run_loop_waits [OF run, of m] start by auto
next
  case (Suc k)
  then show ?case using Run_loop_waits [OF run, of "m + Suc k"] by simp
qed

section \<open>Properties\<close>

text \<open>A client in static mode, and one controlled by a server, for the witnesses.\<close>

definition demo_client_env :: "unit client_env" where
  "demo_client_env = \<lparr>env_read = (\<lambda>_. Inl EOF), env_append = (\<lambda>_. None), env_pem = (\<lambda>_. None)\<rparr>"

definition demo_client_config :: Client where
  "demo_client_config = Client_zero\<lparr>cli_Token := demo_token\<rparr>"

definition demo_runner :: "(unit, unit) runner" where
  "demo_runner = snd (apply_settings demo_client_env demo_announcement (newRunner demo_client_config))"

definition demo_announced :: conn where
  "demo_announced = conn_of [demo_ns @ Sign demo_token labelServer [demo_nc, demo_ns],
     control_frame demo_token (transcript demo_nc demo_ns) (Marshal demo_announcement)]"

lemma demo_apply: "apply_settings demo_client_env demo_announcement (newRunner demo_client_config) = (None, demo_runner)"
  and demo_runs: "length (rn_runs demo_runner) = 1" "rn_current demo_runner = Some 0" "\<not> ru_done (rn_runs demo_runner ! 0)"
    "ru_settings (rn_runs demo_runner ! 0) = demo_announcement"
  by (simp_all add: demo_runner_def apply_settings_def newRunner_def unchanged_def stopLocked_def demo_client_config_def
      Client_zero_def NewClient_def client_options_def demo_announcement_def start_run_def Parse_supported supported_def
      proto_names TLS_def)

lemma demo_new_reach: "reach (runner_init cfg) runner_step (newRunner cfg)"
  by (rule reach_init) (simp add: runner_init_def)

lemma demo_runner_reach: "reach (runner_init demo_client_config) runner_step demo_runner"
  unfolding demo_runner_def by (rule reach_step [OF demo_new_reach applies])

text \<open>
  C9. At most one transport runs. In every state a runner can get into, by applying settings, being stopped, its
  context ending and supervisors returning in any order: a transport that is not done is the current one, so there
  is at most one; it was built from its settings and the client's own configuration; and a transport is done only
  after it was cancelled or the surrounding context ended, so a supervisor never gives up on its own.
\<close>

theorem runner_single:
  assumes "reach (runner_init cfg) runner_step r" and "i < length (rn_runs r)"
  shows "(\<not> ru_done (rn_runs r ! i) \<longrightarrow> rn_current r = Some i)
    \<and> (\<exists>pool. cl_opts (ru_client (rn_runs r ! i)) = client_options cfg (ru_settings (rn_runs r ! i)) pool)
    \<and> (ru_done (rn_runs r ! i) \<longrightarrow> ru_cancelled (rn_runs r ! i) \<or> rn_ctx_done r)"
  using runner_invD [OF run.inv_reach [OF assms(1)] assms(2)] by (auto simp: run_ok_def)

theorem runner_single_witness:
  "reach (runner_init demo_client_config) runner_step demo_runner \<and> \<not> ru_done (rn_runs demo_runner ! 0) \<and> rn_current demo_runner = Some 0"
  using runner_single [OF demo_runner_reach, of 0] demo_runner_reach by (simp add: demo_runs)

text \<open>
  C26. Applying settings. On a runner in a reachable state: if the current transport runs with the same protocol, the same
  port and the same KCP parameters, nothing happens. Otherwise the runner cancels the current transport, if there is one,
  waits until it is done, and only then starts another; when \<^verbatim>\<open>apply\<close> returns, every transport started before is done, and
  either exactly one new transport was started, with these settings, and is current, or an error is returned and none runs.
\<close>

theorem runner_apply:
  assumes "reach (runner_init cfg) runner_step r" and "apply_settings E settings r = (e, r')"
  shows "if \<exists>i. rn_current r = Some i \<and> \<not> ru_done (rn_runs r ! i)
         \<and> ctl_Protocol (ru_settings (rn_runs r ! i)) = ctl_Protocol settings
         \<and> ctl_Port (ru_settings (rn_runs r ! i)) = ctl_Port settings
         \<and> ctl_KCP (ru_settings (rn_runs r ! i)) = ctl_KCP settings
    then e = None \<and> r' = r
    else all_done (r'\<lparr>rn_runs := take (length (rn_runs r)) (rn_runs r')\<rparr>)
      \<and> rn_log r' = rn_log r @ (case rn_current r of None \<Rightarrow> [] | Some i \<Rightarrow> [Cancels i, AwaitsDone i])
          @ (if e = None then [Starts (length (rn_runs r))] else [])
      \<and> (if e = None then length (rn_runs r') = Suc (length (rn_runs r)) \<and> rn_current r' = Some (length (rn_runs r))
            \<and> ru_settings (last (rn_runs r')) = settings \<and> \<not> ru_done (last (rn_runs r'))
         else all_done r' \<and> rn_current r' = None)"
proof (cases "unchanged settings r")
  case True
  with assms(2) show ?thesis by (auto simp: apply_unchanged unchanged_iff)
next
  case False
  have inv: "runner_inv cfg r" by (rule run.inv_reach [OF assms(1)])
  then have "rn_log (stopLocked r) = rn_log r @ (case rn_current r of None \<Rightarrow> [] | Some i \<Rightarrow> [Cancels i, AwaitsDone i])"
    by (simp add: stopLocked_def cancel_run_def await_done_def split: option.splits)
  with apply_changed [OF False assms(2)] stopLocked_all_done [OF inv] False show ?thesis
    by (auto simp: start_run_def all_done_def unchanged_iff control_config_eq_iff)
qed

theorem runner_apply_witness:
  "\<exists>r'. apply_settings demo_client_env demo_announcement (newRunner demo_client_config) = (None, r' :: (unit, unit) runner)
     \<and> rn_current r' = Some 0 \<and> \<not> ru_done (last (rn_runs r'))"
  using runner_apply [OF demo_new_reach demo_apply] demo_apply
  by (simp add: unchanged_def newRunner_def)

text \<open>
  C5. The transport is changed by the authenticated server only. Once the configured control address, and no other, has
  been dialled, over every connection that keeps the contract and
  whatever bytes arrive, \<^verbatim>\<open>runControl\<close> returns with the connection closed, and either the runner is as before and
  the attempt does not count as established, or the bytes carry an authentic announcement for this run's nonce, and
  the runner is the result of applying that announcement; it then counts as established exactly when applying it
  succeeded. Where no write fails, an authentic announcement is always applied.
\<close>

theorem client_trusts_server_only:
  assumes "connection ops content final todo sent reliable"
    and "dial control_dialer (cli_ControlAddress (rn_cfg r)) = Inr conn"
  shows "\<exists>est err r' s. runControl ops E g dial r = Some ((est, err), r', Some s) \<and> final s = ErrClosed
    \<and> (r' = r \<and> \<not> est \<or> (\<exists>ann. authentic (cli_Token (rn_cfg r)) g (content conn) ann
          \<and> apply_settings E ann r = (if est then None else Some err, r')))
    \<and> (\<forall>ann. reliable conn \<and> authentic (cli_Token (rn_cfg r)) g (content conn) ann \<longrightarrow>
          apply_settings E ann r = (if est then None else Some err, r'))"
  using runControl_returns [where dial = dial, OF assms] .

theorem client_trusts_server_only_witness:
  "\<exists>est err r' s. runControl net_ops demo_client_env (Inr (\<lambda>_. 1)) (\<lambda>_ _. Inr demo_announced) (newRunner demo_client_config) =
       Some ((est, err), r' :: (unit, unit) runner, Some s)
     \<and> conn_final s = ErrClosed \<and> est \<and> r' = demo_runner"
proof -
  have "authentic demo_token (Inr (\<lambda>_. 1)) (conn_content demo_announced) demo_announcement"
    unfolding authentic_def
    by (rule exI [of _ demo_nc], rule exI [of _ demo_ns], rule exI [of _ "Marshal demo_announcement"], rule exI [of _ "[]"])
      (simp add: demo_announced_def decode_control_Marshal demo_announcement_ok demo_announcement_small)
  moreover have "cli_Token (rn_cfg (newRunner demo_client_config :: (unit, unit) runner)) = demo_token" "conn_reliable demo_announced"
    by (simp_all add: newRunner_def demo_client_config_def demo_announced_def)
  moreover obtain est err r' s where
    "runControl net_ops demo_client_env (Inr (\<lambda>_. 1)) (\<lambda>_ _. Inr demo_announced) (newRunner demo_client_config) =
       Some ((est, err), r' :: (unit, unit) runner, Some s)" "conn_final s = ErrClosed"
    and ap: "\<forall>ann. conn_reliable demo_announced \<and>
       authentic (cli_Token (rn_cfg (newRunner demo_client_config :: (unit, unit) runner))) (Inr (\<lambda>_. 1)) (conn_content demo_announced) ann \<longrightarrow>
       apply_settings demo_client_env ann (newRunner demo_client_config) = (if est then None else Some err, r')"
    using client_trusts_server_only [OF netc.connection_axioms, of "\<lambda>_ _. Inr demo_announced"
        "newRunner demo_client_config :: (unit, unit) runner" demo_announced demo_client_env "Inr (\<lambda>_. 1)"] by blast
  ultimately have "(if est then None else Some err, r') = (None, demo_runner)" using demo_apply by metis
  then have "est \<and> r' = demo_runner" by (simp split: if_splits)
  with \<open>conn_final s = ErrClosed\<close> \<open>runControl _ _ _ _ _ = _\<close> show ?thesis by blast
qed

text \<open>
  C28. Reconnection. For every sequence of control connections: after the first attempt, or after one that was
  established, the waits of \<^verbatim>\<open>Run\<close> are 3 s, 6 s, 12 s and so on, doubling with every further failure up to 60 s, and
  start again at 3 s after an attempt that was established.
\<close>

theorem client_run_backoff:
  assumes run: "Run_loop ops E minBackoff r as = Some (r', ws, returned)"
    and start: "m = 0 \<or> outcomes ops E r as ! m"
    and fails: "\<And>j. m < j \<Longrightarrow> j \<le> m + k \<Longrightarrow> \<not> outcomes ops E r as ! j"
    and len: "m + k < length ws"
  shows "ws ! (m + k) = min (3 * 10 ^ 9 * 2 ^ k) (60 * 10 ^ 9)"
  using Run_loop_backoff [OF run start fails len] retry.nxt_iterate [of k]
  by (simp add: minBackoff_def maxBackoff_def second_def)

theorem client_run_backoff_witness:
  "\<exists>r' ws. Run_loop net_ops demo_client_env minBackoff demo_runner
       (replicate 3 \<lparr>at_dial = \<lambda>_ _. Inl EOF, at_entropy = Inr (\<lambda>_. 1), at_ctx_done = False, at_select = TimerFires\<rparr>) = Some (r', ws, False)
     \<and> ws ! 2 = 12 * 10 ^ 9"
proof -
  let ?as = "replicate 3 \<lparr>at_dial = \<lambda>_ _. Inl EOF, at_entropy = Inr (\<lambda>_. 1), at_ctx_done = False, at_select = TimerFires\<rparr>"
  obtain ws where run: "Run_loop net_ops demo_client_env minBackoff demo_runner ?as = Some (demo_runner, ws, False)" and "length ws = 3"
    by (simp add: numeral_3_eq_3 runControl_def Let_def)
  moreover have "outcomes net_ops demo_client_env demo_runner ?as = [False, False, False]"
    by (simp add: numeral_3_eq_3 runControl_def)
  then have "\<not> outcomes net_ops demo_client_env demo_runner ?as ! j" if "j \<le> 2" for j
    using that by (auto simp: le_Suc_eq numeral_2_eq_2)
  ultimately have "ws ! (0 + 2) = min (3 * 10 ^ 9 * 2 ^ 2) (60 * 10 ^ 9)"
    by (intro client_run_backoff [OF run]) auto
  with run show ?thesis by (auto simp: numeral_eq_Suc)
qed

text \<open>
  The supervisor. It restarts a transport that stopped after waits of 3 s, 6 s and so on up to 60 s, without
  ever resetting them, and returns exactly when the context is done after a run or during a wait.
\<close>

theorem supervise_backoff:
  "fst (supervise evs) = map (\<lambda>n. min (3 * 10 ^ 9 * 2 ^ n) (60 * 10 ^ 9)) [0..<length (fst (supervise evs))]
   \<and> (snd (supervise evs) \<longleftrightarrow> (\<exists>ev \<in> set evs. fst ev \<or> \<not> sleep (snd ev)))"
proof -
  have "(\<lambda>n. (next_backoff ^^ n) minBackoff) = (\<lambda>n. min (3 * 10 ^ 9 * 2 ^ n) (60 * 10 ^ 9))"
    by (rule ext) (simp add: retry.nxt_iterate, simp add: minBackoff_def maxBackoff_def second_def)
  with supervise_from_waits [of minBackoff evs] show ?thesis
    by (cases "supervise_from minBackoff evs") (simp add: supervise_def)
qed

text \<open>
  C27. \<^verbatim>\<open>Run\<close> cleans up. Over connections that keep the contract, for every sequence of control connections, each of
  them comes to an end; and whenever \<^verbatim>\<open>Run\<close> has returned, in static mode or not, with an error or not, every
  transport it started is done.
\<close>

theorem client_run_stops:
  assumes "connection ops content final todo sent reliable"
  shows "\<exists>e r ws returned. client_main ops E cfg as ends = Some (e, r :: ('p, 'c) runner, ws, returned)
    \<and> (returned \<longrightarrow> all_done r \<and> rn_current r = None) \<and> (e \<noteq> None \<longrightarrow> returned)"
proof (cases "cli_Protocol cfg \<noteq> []")
  case True
  obtain e r where st: "runStatic E (newRunner cfg :: ('p, 'c) runner) = (e, r)" by fastforce
  then have "runner_inv cfg r" unfolding runStatic_def by (rule apply_inv [rotated]) simp
  then have "all_done (stop r)" "rn_current (stop r) = None" by (simp_all add: stop_def stopLocked_all_done)
  with st True show ?thesis by (cases e; cases ends) (auto simp: client_main_def)
next
  case False
  obtain r ws ret where run: "Run_loop ops E minBackoff (newRunner cfg :: ('p, 'c) runner) as = Some (r, ws, ret)"
    using Run_loop_returns [OF assms] by blast
  from Run_loop_inv [OF run, of cfg] no_current_all_done [of cfg r] have "ret \<longrightarrow> all_done r \<and> rn_current r = None" by simp
  with run False show ?thesis by (simp add: client_main_def)
qed

theorem client_run_stops_witness:
  "\<exists>e r ws returned. client_main net_ops demo_client_env demo_client_config
       [\<lparr>at_dial = \<lambda>_ _. Inr (conn_of []), at_entropy = Inr (\<lambda>_. 1), at_ctx_done = True, at_select = TimerFires\<rparr>] False =
     Some (e, r :: (unit, unit) runner, ws, returned) \<and> (returned \<longrightarrow> all_done r)"
  using client_run_stops [OF netc.connection_axioms, of demo_client_env demo_client_config
      "[\<lparr>at_dial = \<lambda>_ _. Inr (conn_of []), at_entropy = Inr (\<lambda>_. 1), at_ctx_done = True, at_select = TimerFires\<rparr>]" False] by blast

end
