(* ===== verification/Control_Session.thy ===== *)
theory Control_Session
  imports Server_Main Client_Main
begin

text \<open>
  The control connection between a server's \<^verbatim>\<open>handleControl\<close> and a client's \<^verbatim>\<open>runControl\<close>: both programs joined by
  two byte queues, under every schedule.
\<close>

section \<open>Sequences of programs\<close>

text \<open>A run of the first parts of two programs is a run of the whole programs.\<close>

definition continue ::
  "('a \<Rightarrow> 'c io) \<Rightarrow> ('b \<Rightarrow> 'd io) \<Rightarrow> ('a, 'b) duplex \<Rightarrow> ('c, 'd) duplex" where
  "continue f h s = \<lparr>client_prog = io_bind (client_prog s) f, server_prog = io_bind (server_prog s) h,
     to_server = to_server s, to_client = to_client s\<rparr>"

lemma party_step_bind:
  "party_step g p inb = Some (p', rest, out) \<Longrightarrow> party_step g (io_bind p f) inb = Some (io_bind p' f, rest, out)"
  by (cases p) (auto split: if_splits)

lemma continue_step:
  assumes "duplex_step gc gs s t"
  shows "duplex_step gc gs (continue f h s) (continue f h t)"
proof (cases s)
  case (fields p q xs ys)
  from duplex_step_cases [OF assms [unfolded fields]] show ?thesis
    by (elim disjE exE conjE) (simp_all add: fields continue_def client_step server_step party_step_bind)
qed

lemma continue_run: "(duplex_step gc gs)\<^sup>*\<^sup>* s t \<Longrightarrow> (duplex_step gc gs)\<^sup>*\<^sup>* (continue f h s) (continue f h t)"
  by (induction rule: rtranclp_induct) (auto intro: rtranclp.rtrancl_into_rtrancl continue_step)

section \<open>One control session\<close>

definition session_start :: "string \<Rightarrow> control_config \<Rightarrow> (client_failure + control_config, control_outcome) duplex" where
  "session_start token ann =
     \<lparr>client_prog = control_login token, server_prog = handleControl token ann, to_server = [], to_client = []\<rparr>"

text \<open>The client has the announcement; the server waits for the client to go.\<close>

definition session_up :: "control_config \<Rightarrow> (client_failure + control_config, control_outcome) duplex" where
  "session_up ann =
     \<lparr>client_prog = Ret (Inr ann), server_prog = DoDiscard (\<lambda>e. closing (ClientGone e)), to_server = [], to_client = []\<rparr>"

text \<open>What the two programs do after the handshake.\<close>

definition after_login :: "string \<Rightarrow> auth_error + bytes \<Rightarrow> (client_failure + control_config) io" where
  "after_login token r = (case r of
           Inl e \<Rightarrow> Ret (Inl (ControlAuth e))
         | Inr channel \<Rightarrow>
             io_bind (Receive token channel) (\<lambda>r. case r of
               Inl e \<Rightarrow> Ret (Inl (ControlMessage e))
             | Inr announced \<Rightarrow>
                 DoSetDeadline None (\<lambda>d. case d of
                   Some e \<Rightarrow> Ret (Inl (ControlDeadline e))
                 | None \<Rightarrow> Ret (Inr announced))))"

definition after_accept :: "string \<Rightarrow> control_config \<Rightarrow> auth_error + bytes \<Rightarrow> control_outcome io" where
  "after_accept token ann r = (case r of
           Inl e \<Rightarrow> closing (ControlRejected e)
         | Inr channel \<Rightarrow>
             io_bind (Send token channel ann) (\<lambda>w. case w of
               Some e \<Rightarrow> closing (SendFailed e)
             | None \<Rightarrow>
                 DoSetDeadline None (\<lambda>d. case d of
                   Some e \<Rightarrow> closing (NoResetDeadline e)
                 | None \<Rightarrow> DoDiscard (\<lambda>e. closing (ClientGone e)))))"

lemma session_opens:
  "(duplex_step gc gs)\<^sup>*\<^sup>* (session_start token ann)
     (continue (after_login token) (after_accept token ann) (handshake_start token token))"
proof -
  let ?m = "(session_start token ann)\<lparr>client_prog := io_bind (ClientHandshake token) (after_login token)\<rparr>"
  have "duplex_step gc gs (session_start token ann) ?m"
    unfolding duplex_step_iff by (simp add: session_start_def control_login_def after_login_def [abs_def])
  moreover have "duplex_step gc gs ?m (continue (after_login token) (after_accept token ann) (handshake_start token token))"
    unfolding duplex_step_iff
    by (simp add: session_start_def handleControl_def after_accept_def [abs_def] continue_def handshake_start_def)
  ultimately show ?thesis by (meson rtranclp.rtrancl_into_rtrancl rtranclp.rtrancl_refl)
qed

lemma Receive_stages:
  assumes "length body \<le> maxBodySize"
  shows "\<exists>k0 k1. Receive token ch = DoReadFull 2 k0
    \<and> k0 (Inr (PutUint16 (of_nat (length body)))) = DoReadFull (length body + TagSize) k1
    \<and> k1 (Inr (body @ Sign token labelConfig [ch, body])) = Ret (decode_control body)"
  unfolding Receive_def using assms by (simp add: Let_def unat_length_16)

text \<open>The rest of the session, on a schedule on which the server moves first.\<close>

lemma session_announces:
  assumes ok: "control_ok ann" and small: "length (Marshal ann) \<le> maxBodySize"
  shows "(duplex_step gc gs)\<^sup>*\<^sup>* (continue (after_login token) (after_accept token ann) (handshake_done nc ns)) (session_up ann)"
proof -
  let ?ch = "transcript nc ns" and ?body = "Marshal ann"
  let ?tagged = "?body @ Sign token labelConfig [?ch, ?body]" and ?h = "PutUint16 (of_nat (length ?body))"
  define waits :: "control_outcome io" where "waits = DoDiscard (\<lambda>e. closing (ClientGone e))"
  define resets where "resets = DoSetDeadline None (\<lambda>d. case d of Some e \<Rightarrow> closing (NoResetDeadline e) | None \<Rightarrow> waits)"
  define got :: "control_error + control_config \<Rightarrow> (client_failure + control_config) io" where
    "got = (\<lambda>r. case r of Inl e \<Rightarrow> Ret (Inl (ControlMessage e)) | Inr announced \<Rightarrow>
       DoSetDeadline None (\<lambda>d. case d of Some e \<Rightarrow> Ret (Inl (ControlDeadline e)) | None \<Rightarrow> Ret (Inr announced)))"
  obtain k0 k1 where k: "Receive token ?ch = DoReadFull 2 k0" "k0 (Inr ?h) = DoReadFull (length ?body + TagSize) k1"
      "k1 (Inr ?tagged) = Ret (decode_control ?body)"
    using Receive_stages [OF small] by blast
  let ?st = "\<lambda>p q i. \<lparr>client_prog = p, server_prog = q, to_server = [], to_client = i\<rparr>
    :: (client_failure + control_config, control_outcome) duplex"
  have s0: "continue (after_login token) (after_accept token ann) (handshake_done nc ns) =
      ?st (DoReadFull 2 (\<lambda>r. io_bind (k0 r) got)) (DoWrite (?h @ ?tagged) (\<lambda>w. io_bind (case w of Some e \<Rightarrow> Ret (Some (SendConfig e))
        | None \<Rightarrow> Ret None) (\<lambda>w. case w of Some e \<Rightarrow> closing (SendFailed e) | None \<Rightarrow> resets))) []"
    unfolding got_def resets_def waits_def using small
    by (simp add: continue_def handshake_done_def after_login_def after_accept_def Send_def Let_def k control_frame_def)
  have "duplex_step gc gs (continue (after_login token) (after_accept token ann) (handshake_done nc ns))
      (?st (DoReadFull 2 (\<lambda>r. io_bind (k0 r) got)) resets (?h @ ?tagged))"
    unfolding s0 by (simp add: duplex_step_iff)
  moreover have "duplex_step gc gs (?st (DoReadFull 2 (\<lambda>r. io_bind (k0 r) got)) resets (?h @ ?tagged))
      (?st (DoReadFull (length ?body + TagSize) (\<lambda>r. io_bind (k1 r) got)) resets ?tagged)"
    by (simp add: duplex_step_iff k)
  moreover have "duplex_step gc gs (?st (DoReadFull (length ?body + TagSize) (\<lambda>r. io_bind (k1 r) got)) resets ?tagged)
      (?st (got (Inr ann)) resets [])"
    using k(3) ok by (simp add: duplex_step_iff decode_control_Marshal)
  moreover have "duplex_step gc gs (?st (got (Inr ann)) resets []) (?st (Ret (Inr ann)) resets [])"
    by (simp add: duplex_step_iff got_def)
  moreover have "duplex_step gc gs (?st (Ret (Inr ann)) resets []) (session_up ann)"
    by (simp add: duplex_step_iff resets_def waits_def session_up_def)
  ultimately show ?thesis by (meson rtranclp.rtrancl_into_rtrancl rtranclp.rtrancl_refl)
qed

lemma session_up_stuck: "\<not> duplex_step gc gs (session_up ann) t"
  by (simp add: duplex_step_iff session_up_def)

lemma session_runs:
  assumes "control_ok ann" and "length (Marshal ann) \<le> maxBodySize"
  shows "(duplex_step (Inr draws_c) (Inr draws_s))\<^sup>*\<^sup>* (session_start token ann) (session_up ann)"
  using session_opens continue_run [OF handshake_runs] session_announces [OF assms] by (meson rtranclp_trans)

text \<open>What a loaded server announces can be decoded.\<close>

lemma digit_ord: "48 \<le> (of_char c :: nat) \<Longrightarrow> (of_char c :: nat) \<le> 57 \<Longrightarrow> ord c < 128"
  by (simp add: ord_def)

lemma port_ok_ascii: "port_ok p \<Longrightarrow> ascii p"
  by (auto simp: port_ok_def Atoi_def split_sign_def is_digit_def ascii_def Let_def list_all_iff digit_ord ord_def [of "CHR ''+''"]
      split: option.splits if_splits list.splits)

lemma announcement_ok:
  assumes "LoadServer fs path = Inr cfg"
  shows "control_ok (announcement cfg)"
  using LoadServer_ok [OF assms] LoadServer_typed [OF assms]
  by (auto simp: control_ok_def announcement_def server_ok_def port_ok_ascii split: option.splits)

section \<open>The length of an announcement\<close>

lemma nat_digits_length: "n < 10 ^ Suc k \<Longrightarrow> length (nat_digits n) \<le> Suc k"
proof (induction k arbitrary: n)
  case (Suc k)
  then have "n div 10 < 10 ^ Suc k" by (simp add: div_less_iff_less_mult mult.commute)
  from Suc.IH [OF this] show ?case by (subst nat_digits.simps) simp
qed (simp add: nat_digits.simps)

lemma Itoa_length: "int64 n \<Longrightarrow> length (Itoa n) \<le> 21"
  using nat_digits_length [of "nat n" 19] nat_digits_length [of "nat (- n)" 19] by (auto simp: int64_def Itoa_def nat_less_iff)

text \<open>The characters of a port or a protocol name need no escape in JSON.\<close>

definition verbatim_char :: "char \<Rightarrow> bool" where
  "verbatim_char c \<longleftrightarrow> ord c < 0x80 \<and> quote_ascii c = [c]"

lemma quote_verbatim: "list_all verbatim_char s \<Longrightarrow> quote s = CHR 0x22 # s @ [CHR 0x22]"
proof -
  have "quote_body s = s" if "list_all verbatim_char s"
    using that by (induction s) (simp_all add: quote_body.simps [of "[]"] quote_body.simps [of "_ # _"] verbatim_char_def)
  then show "list_all verbatim_char s \<Longrightarrow> quote s = CHR 0x22 # s @ [CHR 0x22]" by (simp add: quote_def)
qed

lemma port_verbatim: "port_ok p \<Longrightarrow> list_all verbatim_char p"
  using Atoi_chars [of p]
  by (fastforce simp: port_ok_def list_all_iff verbatim_char_def quote_ascii_def is_digit_def ord_def Let_def split: option.splits)

lemma supported_verbatim: "n \<in> set supported \<Longrightarrow> list_all verbatim_char n \<and> length n \<le> 10"
  by (cases rule: supported_cases; assumption?) (simp_all add: proto_names, code_simp+)

lemma member_names_verbatim:
  "list_all (list_all verbatim_char) [''protocol'', ''port'', ''kcp'', ''NoDelay'', ''Interval'', ''Resend'', ''NoCongestion'', ''SndWnd'',
     ''RcvWnd'', ''DataShards'', ''ParityShards'']"
  by code_simp

lemma KCP_json_length: "KCP_int64 k \<Longrightarrow> length (print_json (KCP_json k)) \<le> 400"
  using Itoa_length [of "NoDelay k"] Itoa_length [of "Interval k"] Itoa_length [of "Resend k"] Itoa_length [of "NoCongestion k"]
    Itoa_length [of "SndWnd k"] Itoa_length [of "RcvWnd k"] Itoa_length [of "DataShards k"] Itoa_length [of "ParityShards k"]
    member_names_verbatim
  by (simp add: KCP_json_def KCP_int64_def quote_verbatim)

text \<open>An announcement is short unless its port is written with thousands of leading zeros.\<close>

lemma Marshal_length:
  assumes "list_all verbatim_char (ctl_Protocol a)" "length (ctl_Protocol a) \<le> 10" "list_all verbatim_char (ctl_Port a)"
    and "KCP_typed (ctl_KCP a)"
  shows "length (Marshal a) \<le> length (ctl_Port a) + 500"
  using assms KCP_json_length member_names_verbatim
  by (cases "ctl_KCP a") (fastforce simp: Marshal_def control_json_def quote_verbatim KCP_typed_def)+

lemma announcement_fits:
  assumes "LoadServer fs path = Inr cfg" and "length (srv_DataPort cfg) \<le> 3500"
  shows "length (Marshal (announcement cfg)) \<le> maxBodySize"
proof -
  from LoadServer_ok [OF assms(1)] LoadServer_typed [OF assms(1)]
  have "srv_Protocol cfg \<in> set supported" "port_ok (srv_DataPort cfg)" "KCP_typed (srv_KCP cfg)"
    by (auto simp: server_ok_def KCP_typed_def)
  then have "length (Marshal (announcement cfg)) \<le> length (srv_DataPort cfg) + 500"
    using Marshal_length [of "announcement cfg"] supported_verbatim port_verbatim
    by (simp add: announcement_def KCP_typed_def)
  with assms(2) show ?thesis by (simp add: maxBodySize_def)
qed

section \<open>The handshake of a data connection\<close>

text \<open>\<^verbatim>\<open>clientHandshake\<close> and \<^verbatim>\<open>serverHandshake\<close>, the handshake between two changes of the deadline, against each other.\<close>

definition data_start :: "string \<Rightarrow> (handshake_error option, handshake_error option) duplex" where
  "data_start token =
     \<lparr>client_prog = clientHandshake token, server_prog = serverHandshake token, to_server = [], to_client = []\<rparr>"

definition data_up :: "(handshake_error option, handshake_error option) duplex" where
  "data_up = \<lparr>client_prog = Ret None, server_prog = Ret None, to_server = [], to_client = []\<rparr>"

definition after_data_handshake :: "auth_error + bytes \<Rightarrow> handshake_error option io" where
  "after_data_handshake r = (case r of
       Inl e \<Rightarrow> Ret (Some (HandshakeError e))
     | Inr _ \<Rightarrow> DoSetDeadline None (\<lambda>d. case d of Some e \<Rightarrow> Ret (Some (DeadlineError e)) | None \<Rightarrow> Ret None))"

lemma data_opens:
  "(duplex_step gc gs)\<^sup>*\<^sup>* (data_start token) (continue after_data_handshake after_data_handshake (handshake_start token token))"
proof -
  let ?m = "(data_start token)\<lparr>client_prog := io_bind (ClientHandshake token) after_data_handshake\<rparr>"
  have "duplex_step gc gs (data_start token) ?m"
    unfolding duplex_step_iff
    by (simp add: data_start_def clientHandshake_def handshake_def after_data_handshake_def [abs_def])
  moreover have "duplex_step gc gs ?m (continue after_data_handshake after_data_handshake (handshake_start token token))"
    unfolding duplex_step_iff
    by (simp add: data_start_def serverHandshake_def handshake_def after_data_handshake_def [abs_def] continue_def
        handshake_start_def)
  ultimately show ?thesis by (meson rtranclp.rtrancl_into_rtrancl rtranclp.rtrancl_refl)
qed

lemma data_closes:
  "(duplex_step gc gs)\<^sup>*\<^sup>* (continue after_data_handshake after_data_handshake (handshake_done nc ns)) data_up"
proof -
  let ?s = "continue after_data_handshake after_data_handshake (handshake_done nc ns)"
  have "duplex_step gc gs ?s (?s\<lparr>client_prog := Ret None\<rparr>)"
    by (simp add: duplex_step_iff continue_def handshake_done_def after_data_handshake_def)
  moreover have "duplex_step gc gs (?s\<lparr>client_prog := Ret None\<rparr>) data_up"
    by (simp add: duplex_step_iff continue_def handshake_done_def after_data_handshake_def data_up_def)
  ultimately show ?thesis by (meson rtranclp.rtrancl_into_rtrancl rtranclp.rtrancl_refl)
qed

lemma data_up_stuck: "\<not> duplex_step gc gs data_up t"
  by (simp add: duplex_step_iff data_up_def)

lemma data_runs: "(duplex_step (Inr draws_c) (Inr draws_s))\<^sup>*\<^sup>* (data_start token) data_up"
  using data_opens continue_run [OF handshake_runs] data_closes by (meson rtranclp_trans)

section \<open>Properties\<close>

text \<open>
  C14. Every data connection between a client and a server with the same token gets through its handshake. Under every
  schedule of the two sides, with the changes of the deadline, from every state it can reach the exchange still
  reaches the state in which both sides have returned without an error and no byte is left over; there is no
  infinite run.
\<close>

theorem data_handshake_completes:
  "((duplex_step (Inr draws_c) (Inr draws_s))\<^sup>*\<^sup>* (data_start token) s \<longrightarrow> (duplex_step (Inr draws_c) (Inr draws_s))\<^sup>*\<^sup>* s data_up)
   \<and> \<not> (\<exists>f. f 0 = data_start token \<and> (\<forall>i. duplex_step (Inr draws_c) (Inr draws_s) (f i) (f (Suc i))))"
  by (rule dx.confluent_end [OF data_up_stuck data_runs])

theorem data_handshake_completes_witness:
  "(duplex_step (Inr (\<lambda>_. 1)) (Inr (\<lambda>_. 2)))\<^sup>*\<^sup>* (data_start demo_token) data_up"
  using data_handshake_completes [where draws_c = "\<lambda>_. 1" and draws_s = "\<lambda>_. 2" and token = demo_token
      and s = "data_start demo_token"] by blast

text \<open>
  C4. A control session between a loaded server and a client with the same token succeeds, provided the announcement fits
  the 4096 bytes of a control message. Under every schedule of the two sides, from every state the session can reach, it
  still reaches the state in which the client has exactly the server's announcement and the server waits for the client to
  go, with no byte left over; there is no infinite run. It fits unless the file writes the data port with thousands of
  leading zeros, at least if the port is at most 3500 characters long. If it does not fit, the server's \<^verbatim>\<open>Send\<close> refuses it and
  writes nothing, although the configuration was accepted.
\<close>

theorem control_session_completes:
  assumes "LoadServer fs path = Inr cfg"
  shows "(if length (Marshal (announcement cfg)) \<le> maxBodySize
          then ((duplex_step (Inr draws_c) (Inr draws_s))\<^sup>*\<^sup>* (session_start (srv_Token cfg) (announcement cfg)) s \<longrightarrow>
                  (duplex_step (Inr draws_c) (Inr draws_s))\<^sup>*\<^sup>* s (session_up (announcement cfg)))
             \<and> \<not> (\<exists>f. f 0 = session_start (srv_Token cfg) (announcement cfg)
                    \<and> (\<forall>i. duplex_step (Inr draws_c) (Inr draws_s) (f i) (f (Suc i))))
          else run_io ops g (Send token ch (announcement cfg)) c =
                 Some (Some (ConfigTooLarge (length (Marshal (announcement cfg)))), c))
    \<and> (length (srv_DataPort cfg) \<le> 3500 \<longrightarrow> length (Marshal (announcement cfg)) \<le> maxBodySize)"
proof (cases "length (Marshal (announcement cfg)) \<le> maxBodySize")
  case True
  with dx.confluent_end [OF session_up_stuck session_runs [OF announcement_ok [OF assms] True]] show ?thesis by simp
next
  case False
  with announcement_fits [OF assms] show ?thesis by (simp add: Send_def Let_def run_io.simps) blast
qed

theorem control_session_completes_witness:
  "(duplex_step (Inr (\<lambda>_. 1)) (Inr (\<lambda>_. 2)))\<^sup>*\<^sup>* (session_start (srv_Token demo_config) (announcement demo_config))
     (session_up (announcement demo_config))"
proof -
  have "length (srv_DataPort demo_config) \<le> 3500" by (simp add: demo_config_def)
  with control_session_completes [OF demo_file_loads, where s = "session_start (srv_Token demo_config) (announcement demo_config)"
      and draws_c = "\<lambda>_. 1" and draws_s = "\<lambda>_. 2" and ops = net_ops and g = "Inl EOF" and token = "[]" and ch = "[]"
      and c = "conn_of []"]
  show ?thesis by (simp split: if_splits)
qed

text \<open>
  C31. The KCP parameters are usable wherever they come from. Those of a server that runs from a file, given there or
  filled in, and those of a client, announced by any server or filled in, are 64-bit integers with a positive
  interval and positive windows and no negative number of shards; the server's pointer to them is never nil.
\<close>

theorem kcp_parameters_typed:
  "(LoadServer fs path = Inr cfg \<longrightarrow> (\<exists>so. server_options cfg = Some so \<and> KCP_int64 (so_KCP so) \<and> kcp_ok (so_KCP so)))
   \<and> (decode_control body = Inr ann \<longrightarrow>
        KCP_int64 (co_KCP (client_options ccfg ann pool)) \<and> kcp_ok (co_KCP (client_options ccfg ann pool)))"
proof (intro conjI impI)
  assume load: "LoadServer fs path = Inr cfg"
  from LoadServer_ok [OF load] LoadServer_typed [OF load]
  show "\<exists>so. server_options cfg = Some so \<and> KCP_int64 (so_KCP so) \<and> kcp_ok (so_KCP so)"
    by (auto simp: server_options_def server_ok_def)
next
  assume "decode_control body = Inr ann"
  from decode_control_typed [OF this] decode_control_valid [OF this] DefaultKCP_int64 DefaultKCP_ok
  show "KCP_int64 (co_KCP (client_options ccfg ann pool))" and "kcp_ok (co_KCP (client_options ccfg ann pool))"
    by (auto simp: client_options_def KCP_typed_def split: option.splits)
qed

theorem kcp_parameters_typed_witness:
  "\<exists>so. server_options demo_config = Some so \<and> KCP_int64 (so_KCP so) \<and> kcp_ok (so_KCP so)"
  using kcp_parameters_typed demo_file_loads by blast

end
