(* ===== verification/Cmd.thy ===== *)
theory Cmd
  imports Control_Session
begin

text \<open>
  The three commands, \<^verbatim>\<open>cmd/g-tun-server\<close>, \<^verbatim>\<open>cmd/g-tun-client\<close> and \<^verbatim>\<open>cmd/g-tun-gencert\<close>, and \<^verbatim>\<open>internal/logging\<close>:
  from the parsed flags to what is printed, the error, or the running program. The flag values are inputs, as
  \<^verbatim>\<open>flag.Parse\<close> leaves them.
\<close>

section \<open>Flags and logging\<close>

record flags =
  fl_config :: string
  fl_debug :: bool
  fl_check :: bool
  fl_version :: bool

definition server_flags :: flags where
  "server_flags = \<lparr>fl_config = ''server_config.json'', fl_debug = False, fl_check = False, fl_version = False\<rparr>"

definition client_flags :: flags where
  "client_flags = \<lparr>fl_config = ''client_config.json'', fl_debug = False, fl_check = False, fl_version = False\<rparr>"

datatype log_level = LevelInfo | LevelDebug

definition Init :: "bool \<Rightarrow> log_level" where
  "Init debug = (if debug then LevelDebug else LevelInfo)"

section \<open>The commands\<close>

text \<open>What \<^verbatim>\<open>run\<close> comes to: a line on standard output, an error of the configuration, or the program itself.\<close>

datatype 'r outcome = Prints string | Fails config_error | Starts 'r

text \<open>
  \<^verbatim>\<open>server.Run\<close> up to the point where its goroutines run: the transport and the state of the listeners. \<open>None\<close> is
  the panic on a nil pointer.
\<close>

definition server_Run ::
  "(string \<Rightarrow> string \<Rightarrow> io_error + 'c) \<Rightarrow> Server \<Rightarrow> (transport_error + 'c server \<times> run_state) option" where
  "server_Run loadX509KeyPair cfg =
     (case server_options cfg of
        None \<Rightarrow> None
      | Some o' \<Rightarrow>
          (case NewServer loadX509KeyPair o' of
             Inl e \<Rightarrow> Some (Inl e)
           | Inr data \<Rightarrow> Some (Inr (data, run_start (srv_Protocol cfg)))))"

definition server_run ::
  "string \<Rightarrow> files \<Rightarrow> (Server \<Rightarrow> 'r) \<Rightarrow> flags \<Rightarrow> log_level option \<times> 'r outcome" where
  "server_run version fs Run fl =
     (if fl_version fl then (None, Prints version)
      else (Some (Init (fl_debug fl)),
            case LoadServer fs (fl_config fl) of
              Inl e \<Rightarrow> Fails e
            | Inr cfg \<Rightarrow> if fl_check fl then Prints ''configuration is valid'' else Starts (Run cfg)))"

definition client_run ::
  "string \<Rightarrow> files \<Rightarrow> (Client \<Rightarrow> 'r) \<Rightarrow> flags \<Rightarrow> log_level option \<times> 'r outcome" where
  "client_run version fs Run fl =
     (if fl_version fl then (None, Prints version)
      else (Some (Init (fl_debug fl)),
            case LoadClient fs (fl_config fl) of
              Inl e \<Rightarrow> Fails e
            | Inr cfg \<Rightarrow> if fl_check fl then Prints ''configuration is valid'' else Starts (Run cfg)))"

text \<open>The exit code of \<^verbatim>\<open>main\<close>, once what was started has returned an error or none.\<close>

definition exit_code :: "('r \<Rightarrow> bool) \<Rightarrow> 'r outcome \<Rightarrow> nat" where
  "exit_code failed r = (case r of Prints _ \<Rightarrow> 0 | Fails _ \<Rightarrow> 1 | Starts x \<Rightarrow> if failed x then 1 else 0)"

text \<open>The two \<^verbatim>\<open>main\<close> functions.\<close>

definition server_command :: "('r \<Rightarrow> bool) \<Rightarrow> string \<Rightarrow> files \<Rightarrow> (Server \<Rightarrow> 'r) \<Rightarrow> flags \<Rightarrow> nat" where
  "server_command failed version fs Run fl = exit_code failed (snd (server_run version fs Run fl))"

definition client_command :: "('r \<Rightarrow> bool) \<Rightarrow> string \<Rightarrow> files \<Rightarrow> (Client \<Rightarrow> 'r) \<Rightarrow> flags \<Rightarrow> nat" where
  "client_command failed version fs Run fl = exit_code failed (snd (client_run version fs Run fl))"

definition gencert_main ::
  "'k crypto \<Rightarrow> mode \<Rightarrow> write_outcome \<Rightarrow> write_outcome \<Rightarrow> string \<Rightarrow> string \<Rightarrow> filesystem \<Rightarrow>
     nat \<times> string option \<times> filesystem" where
  "gencert_main C umask key_out cert_out certPath keyPath fs =
     (case GenerateSelfSigned C umask key_out cert_out certPath keyPath fs of
        (Some _, fs) \<Rightarrow> (1, None, fs)
      | (None, fs) \<Rightarrow> (0, Some (''wrote '' @ certPath @ '' and '' @ keyPath), fs))"

section \<open>Properties\<close>

text \<open>
  With \<^verbatim>\<open>-check\<close> a command exits with 0 exactly if its configuration file loads, whatever the program would do.
\<close>

theorem check_exit_code:
  "server_command failed version fs Run (fl\<lparr>fl_version := False, fl_check := True\<rparr>) = 0
     \<longleftrightarrow> (\<exists>cfg. LoadServer fs (fl_config fl) = Inr cfg)"
  "client_command failed version fs Run' (fl\<lparr>fl_version := False, fl_check := True\<rparr>) = 0
     \<longleftrightarrow> (\<exists>cfg. LoadClient fs (fl_config fl) = Inr cfg)"
  by (auto simp: server_command_def server_run_def client_command_def client_run_def exit_code_def split: sum.splits)

text \<open>A configuration the server accepts gets as far as loading the certificate.\<close>

lemma loaded_server_runs:
  assumes "LoadServer fs path = Inr cfg"
  shows "\<exists>r. server_Run lp cfg = Some r
    \<and> (\<forall>e. r = Inl e \<longrightarrow> TLS (srv_Protocol cfg) \<and> (\<exists>x. lp (srv_TLSCertPath cfg) (srv_TLSKeyPath cfg) = Inl x \<and> e = TransportTLS (LoadKeyPair x)))
    \<and> (\<forall>s rs. r = Inr (s, rs) \<longrightarrow> (\<exists>kind. Serve s = Inr kind) \<and> so_Protocol (srv_opts s) = srv_Protocol cfg
         \<and> live rs = (if srv_Protocol cfg = Stealth then [DataListener] else [DataListener, ControlListener]))"
proof -
  from LoadServer_ok [OF assms] have ok: "server_ok cfg" .
  then obtain k where k: "srv_KCP cfg = Some k" by (auto simp: server_ok_def split: option.splits)
  from ok have p: "srv_Protocol cfg \<in> set supported"
    and st: "srv_Protocol cfg = Stealth \<Longrightarrow> \<exists>hp. SplitHostPort (srv_StealthHandshakeServer cfg) = Inr hp"
    by (auto simp: server_ok_def hostport_ok_def split: sum.splits)
  obtain o' where o': "server_options cfg = Some o'" "so_Protocol o' = srv_Protocol cfg"
      "so_StealthHandshake o' = srv_StealthHandshakeServer cfg" "so_CertPath o' = srv_TLSCertPath cfg" "so_KeyPath o' = srv_TLSKeyPath cfg"
    using k by (simp add: server_options_def)
  show ?thesis
  proof (cases "NewServer lp o'")
    case (Inl e)
    with p st o' have "TLS (srv_Protocol cfg) \<and> (\<exists>x. lp (srv_TLSCertPath cfg) (srv_TLSKeyPath cfg) = Inl x \<and> e = TransportTLS (LoadKeyPair x))"
      by (auto simp: NewServer_def ServerConfig_def Parse_supported split: sum.splits if_splits)
    with Inl o' show ?thesis by (simp add: server_Run_def)
  next
    case (Inr s)
    then have opts: "srv_opts s = o'" by (auto simp: NewServer_def split: sum.splits if_splits)
    from opts p o' have "\<exists>kind. Serve s = Inr kind" by (auto simp: Serve_def Let_def supported_def)
    with Inr o' opts show ?thesis by (simp add: server_Run_def run_start_def run_listeners_def)
  qed
qed

text \<open>
  C39. What \<^verbatim>\<open>g-tun-server -check\<close> promises. If it reports a valid configuration, then the same file loads without
  \<^verbatim>\<open>-check\<close>, and up to the start of its listeners the server does not panic and fails for one reason only: the protocol of
  that configuration uses TLS and its own certificate and key files do not load. Otherwise it starts the data listener,
  for which there is an implementation, and the control listener exactly if the protocol is not stealth. Opening the ports comes
  after that and may fail.
\<close>

theorem checked_server_starts:
  assumes "snd (server_run version fs (server_Run lp) (fl\<lparr>fl_check := True, fl_version := False\<rparr>)) = Prints out"
  shows "\<exists>cfg r. LoadServer fs (fl_config fl) = Inr cfg
    \<and> snd (server_run version fs (server_Run lp) (fl\<lparr>fl_check := False, fl_version := False\<rparr>)) = Starts (Some r)
    \<and> (\<forall>e. r = Inl e \<longrightarrow> TLS (srv_Protocol cfg)
          \<and> (\<exists>x. lp (srv_TLSCertPath cfg) (srv_TLSKeyPath cfg) = Inl x \<and> e = TransportTLS (LoadKeyPair x)))
    \<and> (\<forall>s rs. r = Inr (s, rs) \<longrightarrow> (\<exists>kind. Serve s = Inr kind) \<and> so_Protocol (srv_opts s) = srv_Protocol cfg
          \<and> live rs = (if srv_Protocol cfg = Stealth then [DataListener] else [DataListener, ControlListener]))"
proof -
  from assms obtain cfg where load: "LoadServer fs (fl_config fl) = Inr cfg"
    by (cases "LoadServer fs (fl_config fl)") (auto simp: server_run_def)
  from loaded_server_runs [OF load, of lp] obtain r where r: "server_Run lp cfg = Some r"
      "\<forall>e. r = Inl e \<longrightarrow> TLS (srv_Protocol cfg)
         \<and> (\<exists>x. lp (srv_TLSCertPath cfg) (srv_TLSKeyPath cfg) = Inl x \<and> e = TransportTLS (LoadKeyPair x))"
      "\<forall>s rs. r = Inr (s, rs) \<longrightarrow> (\<exists>kind. Serve s = Inr kind) \<and> so_Protocol (srv_opts s) = srv_Protocol cfg
         \<and> live rs = (if srv_Protocol cfg = Stealth then [DataListener] else [DataListener, ControlListener])"
    by blast
  moreover have "snd (server_run version fs (server_Run lp) (fl\<lparr>fl_check := False, fl_version := False\<rparr>)) = Starts (Some r)"
    using load r(1) by (simp add: server_run_def)
  ultimately show ?thesis using load by blast
qed

theorem checked_server_starts_witness:
  "\<exists>r. snd (server_run ''dev'' (\<lambda>_. Inr (bytes_of (print_json demo_file))) (server_Run (\<lambda>_ _. Inr ()))
       (server_flags\<lparr>fl_config := ''f'', fl_check := False, fl_version := False\<rparr>)) = Starts (Some (Inr r))
     \<and> live (snd r) = [DataListener, ControlListener]"
proof -
  have "snd (server_run ''dev'' (\<lambda>_. Inr (bytes_of (print_json demo_file))) (server_Run (\<lambda>_ _. Inr ()))
      (server_flags\<lparr>fl_config := ''f'', fl_check := True, fl_version := False\<rparr>)) = Prints ''configuration is valid''"
    using demo_file_loads by (simp add: server_run_def)
  from checked_server_starts [OF this] demo_file_loads obtain r where
    r: "snd (server_run ''dev'' (\<lambda>_. Inr (bytes_of (print_json demo_file))) (server_Run (\<lambda>_ _. Inr ()))
       (server_flags\<lparr>fl_config := ''f'', fl_check := False, fl_version := False\<rparr>)) = Starts (Some r)"
    "\<forall>e. r \<noteq> Inl e"
    "\<forall>s rs. r = Inr (s, rs) \<longrightarrow> live rs = (if srv_Protocol demo_config = Stealth then [DataListener] else [DataListener, ControlListener])"
    by auto
  from r(2) obtain s rs where "r = Inr (s, rs)" by (cases r) auto
  moreover have "srv_Protocol demo_config \<noteq> Stealth" by (simp add: demo_config_def proto_names)
  ultimately show ?thesis using r(1,3) by auto
qed

text \<open>The same for the client: only files that validation does not open can make it fail.\<close>

definition file_failure :: "Client \<Rightarrow> client_failure \<Rightarrow> bool" where
  "file_failure cfg e \<longleftrightarrow>
     (case e of
        ReadCA _ \<Rightarrow> cli_StealthCAFile cfg \<noteq> []
      | NoCACertificates p \<Rightarrow> cli_StealthCAFile cfg \<noteq> [] \<and> p = cli_StealthCAFile cfg
      | ApplyTransport (TransportTLS _) \<Rightarrow> TLS (cli_Protocol cfg)
      | _ \<Rightarrow> False)"

lemma file_failure_CA [simp]:
  "file_failure cfg (ReadCA x) \<longleftrightarrow> cli_StealthCAFile cfg \<noteq> []"
  "file_failure cfg (NoCACertificates p) \<longleftrightarrow> cli_StealthCAFile cfg \<noteq> [] \<and> p = cli_StealthCAFile cfg"
  by (simp_all add: file_failure_def)

lemma static_client_fails:
  assumes ok: "client_ok cfg" and static: "cli_Protocol cfg \<noteq> []"
    and run: "runStatic E (newRunner cfg :: ('p, 'c) runner) = (Some e, r)"
  shows "file_failure cfg e"
proof -
  let ?settings = "\<lparr>ctl_Protocol = cli_Protocol cfg, ctl_Port = cli_DataPort cfg, ctl_KCP = None\<rparr>"
  from ok static have p: "cli_Protocol cfg \<in> set supported" "cli_Protocol cfg = Stealth \<longrightarrow> cli_StealthSNI cfg \<noteq> []"
    by (auto simp: client_ok_def)
  have tls: "file_failure cfg (ApplyTransport x)"
    if "NewClient dec rf (client_options cfg ?settings pool) = (Inl x :: transport_error + ('p, 'c) client)" for dec rf pool x
    using that p by (auto simp: NewClient_def client_options_def Parse_supported file_failure_def split: sum.splits if_splits)
  show ?thesis
    using run tls unfolding runStatic_def apply_settings_def loadCertPool_def
    by (auto simp: unchanged_def newRunner_def stopLocked_def Let_def
        split: sum.splits if_splits option.splits)
qed

text \<open>
  What \<^verbatim>\<open>g-tun-client -check\<close> promises. If it reports a valid configuration, then starting the client with the
  same file never fails under a control connection, whatever the network does; in static mode it fails at
  most because of a file that validation does not open, the CA file or the pinned certificate of a TLS
  protocol.
\<close>

theorem checked_client_starts:
  assumes "connection ops content final todo sent reliable"
    and "snd (client_run version fs (\<lambda>cfg. client_main ops E cfg as ends :: (client_failure option \<times> ('p, 'c) runner \<times> int list \<times> bool) option)
          (fl\<lparr>fl_check := True, fl_version := False\<rparr>)) = Prints out"
  shows "\<exists>cfg e r ws returned.
     snd (client_run version fs (\<lambda>cfg. client_main ops E cfg as ends) (fl\<lparr>fl_check := False, fl_version := False\<rparr>)) =
       Starts (Some (e, r :: ('p, 'c) runner, ws, returned))
     \<and> LoadClient fs (fl_config fl) = Inr cfg
     \<and> (\<forall>x. e = Some x \<longrightarrow> cli_Protocol cfg \<noteq> [] \<and> file_failure cfg x)"
proof -
  from assms(2) obtain cfg where load: "LoadClient fs (fl_config fl) = Inr cfg"
    by (cases "LoadClient fs (fl_config fl)") (auto simp: client_run_def)
  have "\<exists>e r ws returned. client_main ops E cfg as ends = Some (e, r :: ('p, 'c) runner, ws, returned)
      \<and> (\<forall>x. e = Some x \<longrightarrow> cli_Protocol cfg \<noteq> [] \<and> file_failure cfg x)"
  proof (cases "cli_Protocol cfg \<noteq> []")
    case True
    obtain e r where st: "runStatic E (newRunner cfg :: ('p, 'c) runner) = (e, r)" by fastforce
    with static_client_fails [OF LoadClient_ok [OF load] True] True show ?thesis
      by (cases e; cases ends) (auto simp: client_main_def)
  next
    case False
    obtain r ws ret where "Run_loop ops E minBackoff (newRunner cfg :: ('p, 'c) runner) as = Some (r, ws, ret)"
      using Run_loop_returns [OF assms(1)] by blast
    with False show ?thesis by (simp add: client_main_def)
  qed
  with load show ?thesis by (auto simp: client_run_def)
qed

definition demo_client_file :: json where
  "demo_client_file = JObj [(''remote_server_ip'', JStr ''s''), (''local_listen_port'', JStr '':1080''), (''protocol'', JStr ''tcp''),
     (''data_port'', JStr ''8081''), (''token'', JStr ''0123456789abcdef'')]"

definition demo_static :: Client where
  "demo_static = Client_zero\<lparr>cli_RemoteHost := ''s'', cli_ListenAddress := '':1080'', cli_Protocol := ''tcp'',
     cli_DataPort := ''8081'', cli_Token := ''0123456789abcdef'', cli_TLSCertPath := ''cert.pem''\<rparr>"

lemma demo_client_loads: "LoadClient (\<lambda>_. Inr (bytes_of (print_json demo_client_file))) ''f'' = Inr demo_static"
proof -
  have "plain maxNestingDepth demo_client_file"
    by (simp add: demo_client_file_def maxNestingDepth_def ord_def)
  moreover have "decode_struct ClientFields demo_client_file Client_zero = (demo_static\<lparr>cli_TLSCertPath := []\<rparr>, False)"
    by (simp add: demo_client_file_def ClientFields_def store_member_def find_field_def Client_zero_def demo_static_def)
  ultimately have "Decode ClientFields Client_zero (print_json demo_client_file) = Inr (demo_static\<lparr>cli_TLSCertPath := []\<rparr>)"
    by (rule Decode_print)
  moreover have "client_ok demo_static" by code_simp
  moreover have "Join2 (Dir ''f'') ''cert.pem'' = ''cert.pem''" by code_simp
  ultimately show ?thesis
    by (simp add: LoadClient_Inr load_Inr) (simp add: demo_static_def Client_zero_def)
qed

theorem checked_client_starts_witness:
  "\<exists>e r ws returned.
     snd (client_run ''dev'' (\<lambda>_. Inr (bytes_of (print_json demo_client_file))) (\<lambda>cfg. client_main net_ops demo_client_env cfg [] True)
       (client_flags\<lparr>fl_config := ''f'', fl_check := False, fl_version := False\<rparr>)) =
       Starts (Some (e, r :: (unit, unit) runner, ws, returned))
     \<and> (\<forall>x. e = Some x \<longrightarrow> file_failure demo_static x)"
proof -
  have "snd (client_run ''dev'' (\<lambda>_. Inr (bytes_of (print_json demo_client_file)))
      (\<lambda>cfg. client_main net_ops demo_client_env cfg [] True :: (client_failure option \<times> (unit, unit) runner \<times> int list \<times> bool) option)
      (client_flags\<lparr>fl_config := ''f'', fl_check := True, fl_version := False\<rparr>)) = Prints ''configuration is valid''"
    using demo_client_loads by (simp add: client_run_def)
  from checked_client_starts [OF netc.connection_axioms this] demo_client_loads show ?thesis by auto
qed

end
