(* ===== verification/Tunnel.thy ===== *)
theory Tunnel
  imports Transport_Server Transport_Client
begin

text \<open>
  One tunnelled connection from end to end: the pipe that the client's \<^verbatim>\<open>Run\<close> starts between an application's
  connection and a stream of the tunnel (\<^verbatim>\<open>internal/transport/client.go\<close>), the carrier of that stream, and the pipe
  that the server's \<^verbatim>\<open>handleStream\<close> starts between the stream and the connection to the target
  (\<^verbatim>\<open>internal/transport/server.go\<close>). Both pipes are \<^verbatim>\<open>netutil.Pipe\<close>; they run concurrently with the carrier.
\<close>

section \<open>Two pipes and a carrier\<close>

text \<open>
  End \<open>a\<close> of the client's pipe is the application, end \<open>b\<close> the stream; end \<open>a\<close> of the server's pipe is the stream, end
  \<open>b\<close> the target. What the carrier has handed to an end of the stream, and what is still on its way:
\<close>

record tunnel =
  cl_pipe :: pipe
  sv_pipe :: pipe

definition arrived :: "endpoint \<Rightarrow> bytes" where
  "arrived ep = ep_read ep @ ep_in ep"

definition in_flight :: "endpoint \<Rightarrow> endpoint \<Rightarrow> bytes" where
  "in_flight sender receiver = drop (length (arrived receiver)) (ep_out sender)"

definition deliver :: "nat \<Rightarrow> endpoint \<Rightarrow> endpoint \<Rightarrow> endpoint" where
  "deliver n sender receiver = receiver\<lparr>ep_in := ep_in receiver @ take n (in_flight sender receiver)\<rparr>"

text \<open>
  The end of the stream is seen at one end when the other one has finished sending and everything has arrived, or
  when the end itself has been closed; a broken carrier (\<open>flt\<close>) ends the stream at any time.
\<close>

definition sees_end :: "bool \<Rightarrow> endpoint \<Rightarrow> endpoint \<Rightarrow> bool" where
  "sees_end flt sender receiver \<longleftrightarrow> flt \<or> ep_closed receiver \<or> (\<not> write_open sender \<and> in_flight sender receiver = [])"

inductive tunnel_step :: "bool \<Rightarrow> tunnel \<Rightarrow> tunnel \<Rightarrow> bool" for flt :: bool where
  client_moves: "pipe_step flt (cl_pipe t) p \<Longrightarrow>
    b_to_a (cl_pipe t) = Copying \<and> b_to_a p = Finishing \<longrightarrow> sees_end flt (end_a (sv_pipe t)) (end_b (cl_pipe t)) \<Longrightarrow>
    tunnel_step flt t (t\<lparr>cl_pipe := p\<rparr>)"
| server_moves: "pipe_step flt (sv_pipe t) q \<Longrightarrow>
    a_to_b (sv_pipe t) = Copying \<and> a_to_b q = Finishing \<longrightarrow> sees_end flt (end_b (cl_pipe t)) (end_a (sv_pipe t)) \<Longrightarrow>
    tunnel_step flt t (t\<lparr>sv_pipe := q\<rparr>)"
| carries_up: "in_flight (end_b (cl_pipe t)) (end_a (sv_pipe t)) \<noteq> [] \<Longrightarrow> 0 < n \<Longrightarrow>
    tunnel_step flt t (t\<lparr>sv_pipe := (sv_pipe t)\<lparr>end_a := deliver n (end_b (cl_pipe t)) (end_a (sv_pipe t))\<rparr>\<rparr>)"
| carries_down: "in_flight (end_a (sv_pipe t)) (end_b (cl_pipe t)) \<noteq> [] \<Longrightarrow> 0 < n \<Longrightarrow>
    tunnel_step flt t (t\<lparr>cl_pipe := (cl_pipe t)\<lparr>end_b := deliver n (end_a (sv_pipe t)) (end_b (cl_pipe t))\<rparr>\<rparr>)"

text \<open>
  The start: the application and the target speak TCP and can be closed half; whether the stream can depends on the
  protocol. Nothing has been sent on the stream yet.
\<close>

definition tunnel_start :: "name \<Rightarrow> bytes \<Rightarrow> bytes \<Rightarrow> tunnel" where
  "tunnel_start p request reply = \<lparr>cl_pipe = Pipe (new_endpoint True request) (new_endpoint (has_CloseWrite p) []),
     sv_pipe = Pipe (new_endpoint (has_CloseWrite p) []) (new_endpoint True reply)\<rparr>"

definition tunnel_init :: "name \<Rightarrow> bytes \<Rightarrow> bytes \<Rightarrow> tunnel \<Rightarrow> bool" where
  "tunnel_init p request reply t \<longleftrightarrow> t = tunnel_start p request reply"

section \<open>Prefixes\<close>

text \<open>
  What arrives is a prefix of what was sent, in every interleaving and whatever fails. The two pipes keep their
  own invariant for the bytes that have arrived so far.
\<close>

definition tunnel_inv :: "bytes \<Rightarrow> bytes \<Rightarrow> tunnel \<Rightarrow> bool" where
  "tunnel_inv request reply t \<longleftrightarrow>
     pipe_inv request (arrived (end_b (cl_pipe t))) (cl_pipe t)
     \<and> pipe_inv (arrived (end_a (sv_pipe t))) reply (sv_pipe t)
     \<and> prefix (arrived (end_a (sv_pipe t))) (ep_out (end_b (cl_pipe t)))
     \<and> prefix (arrived (end_b (cl_pipe t))) (ep_out (end_a (sv_pipe t)))"

lemma pipe_inv_arrived: "pipe_inv from_a from_b p \<Longrightarrow> arrived (end_a p) = from_a \<and> arrived (end_b p) = from_b"
  by (simp add: pipe_inv_def half_ok_def arrived_def)

lemma pipe_step_arrived:
  assumes "pipe_step flt p p'" and "pipe_inv from_a from_b p"
  shows "arrived (end_a p') = arrived (end_a p)" and "arrived (end_b p') = arrived (end_b p)"
  using pipe_inv_arrived [OF assms(2)] pipe_inv_arrived [OF pipe_inv_step [OF assms]] by simp_all

lemma copy_step_out: "copy_step flt (src, dst, pc) (src', dst', pc') \<Longrightarrow> prefix (ep_out dst) (ep_out dst')"
  by (erule copy_stepE) (auto simp: finish_dst_def)

lemma pipe_step_out:
  "pipe_step flt p p' \<Longrightarrow> prefix (ep_out (end_a p)) (ep_out (end_a p')) \<and> prefix (ep_out (end_b p)) (ep_out (end_b p'))"
proof (induction rule: pipe_step.induct)
  case (step_ab p a b pc)
  from copy_step_out [OF step_ab.hyps(2)] copy_step_frame [OF step_ab.hyps(2)] show ?case by simp
next
  case (step_ba p b a pc)
  from copy_step_out [OF step_ba.hyps(2)] copy_step_frame [OF step_ba.hyps(2)] show ?case by simp
qed simp

lemma arrived_deliver [simp]: "arrived (deliver n s r) = arrived r @ take n (in_flight s r)"
  by (simp add: arrived_def deliver_def)

lemma deliver_simps [simp]:
  "ep_out (deliver n s r) = ep_out r" "ep_read (deliver n s r) = ep_read r" "ep_closed (deliver n s r) = ep_closed r"
  "ep_wclosed (deliver n s r) = ep_wclosed r" "ep_closeWriter (deliver n s r) = ep_closeWriter r"
  by (simp_all add: deliver_def)

lemma prefix_in_flight: "prefix (arrived r) (ep_out s) \<Longrightarrow> ep_out s = arrived r @ in_flight s r"
  by (auto simp: in_flight_def elim: prefixE)

lemma prefix_deliver: "prefix (arrived r) (ep_out s) \<Longrightarrow> prefix (arrived (deliver n s r)) (ep_out s)"
  using prefix_in_flight [of r s] by (metis arrived_deliver same_prefix_prefix take_is_prefix)

lemma pipe_inv_deliver:
  "pipe_inv x from_b p \<Longrightarrow> pipe_inv (arrived (deliver n s (end_a p))) from_b (p\<lparr>end_a := deliver n s (end_a p)\<rparr>)"
  "pipe_inv from_a x p \<Longrightarrow> pipe_inv from_a (arrived (deliver n s (end_b p))) (p\<lparr>end_b := deliver n s (end_b p)\<rparr>)"
  by (auto simp: pipe_inv_def half_ok_def arrived_def deliver_def)

lemma tunnel_inv_step: "tunnel_step flt t t' \<Longrightarrow> tunnel_inv request reply t \<Longrightarrow> tunnel_inv request reply t'"
proof (induction rule: tunnel_step.induct)
  case (client_moves t p)
  then have inv: "pipe_inv request (arrived (end_b (cl_pipe t))) (cl_pipe t)" by (simp add: tunnel_inv_def)
  with client_moves pipe_inv_step [OF client_moves.hyps(1) inv] pipe_step_arrived [OF client_moves.hyps(1) inv]
    pipe_step_out [OF client_moves.hyps(1)] show ?case
    by (auto simp: tunnel_inv_def intro: prefix_order.trans)
next
  case (server_moves t q)
  then have inv: "pipe_inv (arrived (end_a (sv_pipe t))) reply (sv_pipe t)" by (simp add: tunnel_inv_def)
  with server_moves pipe_inv_step [OF server_moves.hyps(1) inv] pipe_step_arrived [OF server_moves.hyps(1) inv]
    pipe_step_out [OF server_moves.hyps(1)] show ?case
    by (auto simp: tunnel_inv_def intro: prefix_order.trans)
next
  case (carries_up t n)
  then show ?case
    using prefix_deliver [of "end_a (sv_pipe t)" "end_b (cl_pipe t)" n]
    by (auto simp: tunnel_inv_def simp del: arrived_deliver intro: pipe_inv_deliver)
next
  case (carries_down t n)
  then show ?case
    using prefix_deliver [of "end_b (cl_pipe t)" "end_a (sv_pipe t)" n]
    by (auto simp: tunnel_inv_def simp del: arrived_deliver intro: pipe_inv_deliver)
qed

interpretation tunnels: invariant_system "tunnel_init p request reply" "tunnel_step flt" "tunnel_inv request reply"
  for p request reply flt
proof
  show "tunnel_init p request reply t \<Longrightarrow> tunnel_inv request reply t" for t
    by (simp add: tunnel_init_def tunnel_start_def Pipe_def new_endpoint_def tunnel_inv_def pipe_inv_def half_ok_def
        arrived_def)
  show "tunnel_inv request reply t \<Longrightarrow> tunnel_step flt t t' \<Longrightarrow> tunnel_inv request reply t'" for t t'
    by (rule tunnel_inv_step)
qed

section \<open>Delivery\<close>

text \<open>
  When the stream can be closed half and nothing fails, each pipe is in the state \<open>pipe_full\<close> for what has arrived, and
  a copy out of the stream has ended only after everything sent on it had arrived.
\<close>

definition drained :: "copy_pc \<Rightarrow> endpoint \<Rightarrow> endpoint \<Rightarrow> bool" where
  "drained pc sender receiver \<longleftrightarrow>
     (pc \<in> {Finishing, CopyDone} \<longrightarrow> \<not> write_open sender \<and> in_flight sender receiver = [])"

definition tunnel_full :: "bytes \<Rightarrow> bytes \<Rightarrow> tunnel \<Rightarrow> bool" where
  "tunnel_full request reply t \<longleftrightarrow> tunnel_inv request reply t
     \<and> pipe_full request (arrived (end_b (cl_pipe t))) (cl_pipe t)
     \<and> pipe_full (arrived (end_a (sv_pipe t))) reply (sv_pipe t)
     \<and> drained (a_to_b (sv_pipe t)) (end_b (cl_pipe t)) (end_a (sv_pipe t))
     \<and> drained (b_to_a (cl_pipe t)) (end_a (sv_pipe t)) (end_b (cl_pipe t))"

text \<open>An end that is closed for writing stays so, and without faults nothing more is written to it.\<close>

lemma copy_step_shut:
  "copy_step flt (src, dst, pc) (src', dst', pc') \<Longrightarrow>
     (write_open src' = write_open src) \<and> (\<not> write_open dst \<longrightarrow> \<not> write_open dst' \<and> (\<not> flt \<longrightarrow> ep_out dst' = ep_out dst))
     \<and> (pc' = CopyDone \<longrightarrow> \<not> write_open dst')"
  by (erule copy_stepE) (auto simp: finish_dst_def write_open_def)

lemma pipe_step_shut:
  "pipe_step flt p p' \<Longrightarrow> (\<not> write_open (end_a p) \<longrightarrow> \<not> write_open (end_a p') \<and> (\<not> flt \<longrightarrow> ep_out (end_a p') = ep_out (end_a p)))
     \<and> (\<not> write_open (end_b p) \<longrightarrow> \<not> write_open (end_b p') \<and> (\<not> flt \<longrightarrow> ep_out (end_b p') = ep_out (end_b p)))"
proof (induction rule: pipe_step.induct)
  case (step_ab p a b pc)
  from copy_step_shut [OF step_ab.hyps(2)] copy_step_frame [OF step_ab.hyps(2)] show ?case by simp
next
  case (step_ba p b a pc)
  from copy_step_shut [OF step_ba.hyps(2)] copy_step_frame [OF step_ba.hyps(2)] show ?case by simp
qed (simp add: write_open_def)

text \<open>A copy that leaves its loop was reading; one that has left it does not come back.\<close>

lemma copy_step_pc:
  "copy_step flt (src, dst, pc) (src', dst', pc') \<Longrightarrow>
     (pc \<in> {Finishing, CopyDone} \<longrightarrow> pc' \<in> {Finishing, CopyDone})
     \<and> (pc' \<in> {Finishing, CopyDone} \<longrightarrow> pc \<in> {Finishing, CopyDone} \<or> (pc = Copying \<and> pc' = Finishing) \<or> flt \<or> \<not> write_open dst)"
  by (erule copy_stepE) auto

lemma pipe_full_leaves:
  assumes "pipe_step False p p'" and "pipe_full from_a from_b p"
  shows "b_to_a p' \<in> {Finishing, CopyDone} \<Longrightarrow> b_to_a p \<in> {Finishing, CopyDone} \<or> (b_to_a p = Copying \<and> b_to_a p' = Finishing)"
    and "a_to_b p' \<in> {Finishing, CopyDone} \<Longrightarrow> a_to_b p \<in> {Finishing, CopyDone} \<or> (a_to_b p = Copying \<and> a_to_b p' = Finishing)"
  using assms
  by (induction rule: pipe_step.induct)
    (auto simp: pipe_full_def half_full_def write_open_def dest!: copy_step_pc)

lemma in_flight_cong: "ep_out s' = ep_out s \<Longrightarrow> arrived r' = arrived r \<Longrightarrow> in_flight s' r' = in_flight s r"
  by (simp add: in_flight_def)

lemma pipe_full_deliver:
  assumes "in_flight s r \<noteq> []"
  shows "end_a p = r \<Longrightarrow> drained (a_to_b p) s r \<Longrightarrow> pipe_full x from_b p \<Longrightarrow>
      pipe_full (arrived (deliver n s r)) from_b (p\<lparr>end_a := deliver n s r\<rparr>)"
    and "end_b p = r \<Longrightarrow> drained (b_to_a p) s r \<Longrightarrow> pipe_full from_a x p \<Longrightarrow>
      pipe_full from_a (arrived (deliver n s r)) (p\<lparr>end_b := deliver n s r\<rparr>)"
  using assms pipe_inv_deliver [of x from_b p n s] pipe_inv_deliver(2) [of from_a x p n s]
  by (auto simp: pipe_full_def half_full_def drained_def simp del: arrived_deliver)

text \<open>The parts of \<open>tunnel_full\<close> that a step of one pipe touches.\<close>

lemma drained_sender:
  "pipe_step False p p' \<Longrightarrow> pipe_inv from_a from_b p \<Longrightarrow> drained pc (end_a p) r \<Longrightarrow> drained pc (end_a p') r"
  "pipe_step False p p' \<Longrightarrow> pipe_inv from_a from_b p \<Longrightarrow> drained pc (end_b p) r \<Longrightarrow> drained pc (end_b p') r"
  using pipe_step_shut [of False p p'] by (auto simp: drained_def in_flight_def)

lemma drained_receiver:
  assumes step: "pipe_step False p p'" and full: "pipe_full from_a from_b p"
  shows "b_to_a p = Copying \<and> b_to_a p' = Finishing \<longrightarrow> sees_end False s (end_b p) \<Longrightarrow>
      drained (b_to_a p) s (end_b p) \<Longrightarrow> drained (b_to_a p') s (end_b p')"
    and "a_to_b p = Copying \<and> a_to_b p' = Finishing \<longrightarrow> sees_end False s (end_a p) \<Longrightarrow>
      drained (a_to_b p) s (end_a p) \<Longrightarrow> drained (a_to_b p') s (end_a p')"
proof -
  from full have inv: "pipe_inv from_a from_b p" by (simp add: pipe_full_def)
  have "\<not> pipe_done p" using step by (cases rule: pipe_step.cases) auto
  with full have opened: "\<not> ep_closed (end_a p)" "\<not> ep_closed (end_b p)" by (auto simp: pipe_full_def)
  note same = pipe_step_arrived [OF step inv, THEN in_flight_cong [OF refl]]
  from pipe_full_leaves [OF step full] opened same [of s]
  show "b_to_a p = Copying \<and> b_to_a p' = Finishing \<longrightarrow> sees_end False s (end_b p) \<Longrightarrow>
      drained (b_to_a p) s (end_b p) \<Longrightarrow> drained (b_to_a p') s (end_b p')"
    and "a_to_b p = Copying \<and> a_to_b p' = Finishing \<longrightarrow> sees_end False s (end_a p) \<Longrightarrow>
      drained (a_to_b p) s (end_a p) \<Longrightarrow> drained (a_to_b p') s (end_a p')"
    unfolding drained_def sees_end_def by metis+
qed

lemma drained_deliver:
  "drained pc s r \<Longrightarrow> in_flight s r \<noteq> [] \<Longrightarrow> drained pc s (deliver n s r)"
  "drained pc s r \<Longrightarrow> drained pc (deliver n s' s) r"
  by (auto simp: drained_def in_flight_def write_open_def)

lemma tunnel_full_step:
  "tunnel_step False t t' \<Longrightarrow> tunnel_full request reply t \<Longrightarrow> tunnel_full request reply t'"
proof (induction rule: tunnel_step.induct)
  case (client_moves t p)
  then have full: "pipe_full request (arrived (end_b (cl_pipe t))) (cl_pipe t)" by (simp add: tunnel_full_def)
  then have inv: "pipe_inv request (arrived (end_b (cl_pipe t))) (cl_pipe t)" by (simp add: pipe_full_def)
  have "tunnel_inv request reply (t\<lparr>cl_pipe := p\<rparr>)"
    using client_moves by (intro tunnel_inv_step [OF tunnel_step.client_moves]) (auto simp: tunnel_full_def)
  with client_moves pipe_full_step [OF client_moves.hyps(1) full] pipe_step_arrived [OF client_moves.hyps(1) inv]
    drained_sender(2) [OF client_moves.hyps(1) inv] drained_receiver(1) [OF client_moves.hyps(1) full client_moves.hyps(2)]
  show ?case by (simp add: tunnel_full_def)
next
  case (server_moves t q)
  then have full: "pipe_full (arrived (end_a (sv_pipe t))) reply (sv_pipe t)" by (simp add: tunnel_full_def)
  then have inv: "pipe_inv (arrived (end_a (sv_pipe t))) reply (sv_pipe t)" by (simp add: pipe_full_def)
  have "tunnel_inv request reply (t\<lparr>sv_pipe := q\<rparr>)"
    using server_moves by (intro tunnel_inv_step [OF tunnel_step.server_moves]) (auto simp: tunnel_full_def)
  with server_moves pipe_full_step [OF server_moves.hyps(1) full] pipe_step_arrived [OF server_moves.hyps(1) inv]
    drained_sender(1) [OF server_moves.hyps(1) inv] drained_receiver(2) [OF server_moves.hyps(1) full server_moves.hyps(2)]
  show ?case by (simp add: tunnel_full_def)
next
  case (carries_up t n)
  have "tunnel_inv request reply (t\<lparr>sv_pipe := (sv_pipe t)\<lparr>end_a := deliver n (end_b (cl_pipe t)) (end_a (sv_pipe t))\<rparr>\<rparr>)"
    using carries_up by (intro tunnel_inv_step [OF tunnel_step.carries_up]) (auto simp: tunnel_full_def)
  with carries_up show ?case
    by (auto simp: tunnel_full_def simp del: arrived_deliver intro: pipe_full_deliver drained_deliver)
next
  case (carries_down t n)
  have "tunnel_inv request reply (t\<lparr>cl_pipe := (cl_pipe t)\<lparr>end_b := deliver n (end_a (sv_pipe t)) (end_b (cl_pipe t))\<rparr>\<rparr>)"
    using carries_down by (intro tunnel_inv_step [OF tunnel_step.carries_down]) (auto simp: tunnel_full_def)
  with carries_down show ?case
    by (auto simp: tunnel_full_def simp del: arrived_deliver intro: pipe_full_deliver drained_deliver)
qed

interpretation full_tunnels: invariant_system "\<lambda>t. has_CloseWrite p \<and> tunnel_init p request reply t" "tunnel_step False"
  "tunnel_full request reply" for p request reply
proof
  show "has_CloseWrite p \<and> tunnel_init p request reply t \<Longrightarrow> tunnel_full request reply t" for t
    using tunnels.inv_init [of p request reply t]
    by (auto simp: tunnel_init_def tunnel_start_def Pipe_def new_endpoint_def tunnel_full_def pipe_full_def pipe_inv_def
        half_ok_def half_full_def arrived_def drained_def)
  show "tunnel_full request reply t \<Longrightarrow> tunnel_step False t t' \<Longrightarrow> tunnel_full request reply t'" for t t'
    by (rule tunnel_full_step)
qed

lemma tunnel_reach_full:
  "has_CloseWrite p \<Longrightarrow> reach (tunnel_init p request reply) (tunnel_step False) t \<Longrightarrow> tunnel_full request reply t"
  using full_tunnels.inv_reach [of p request reply t] by simp

definition tunnel_done :: "tunnel \<Rightarrow> bool" where
  "tunnel_done t \<longleftrightarrow> pipe_done (cl_pipe t) \<and> pipe_done (sv_pipe t)"

lemma tunnel_full_delivers:
  assumes "tunnel_full request reply t" and "tunnel_done t"
  shows "ep_out (end_b (sv_pipe t)) = request \<and> ep_out (end_a (cl_pipe t)) = reply"
proof -
  from assms have cl: "a_to_b (cl_pipe t) = CopyDone" "b_to_a (cl_pipe t) = CopyDone"
    and sv: "a_to_b (sv_pipe t) = CopyDone" "b_to_a (sv_pipe t) = CopyDone"
    by (auto simp: tunnel_full_def tunnel_done_def pipe_full_def pipe_inv_def)
  with assms(1) have "in_flight (end_b (cl_pipe t)) (end_a (sv_pipe t)) = []"
      "in_flight (end_a (sv_pipe t)) (end_b (cl_pipe t)) = []" by (auto simp: tunnel_full_def drained_def)
  with assms(1) have "ep_out (end_b (cl_pipe t)) = arrived (end_a (sv_pipe t))"
      "ep_out (end_a (sv_pipe t)) = arrived (end_b (cl_pipe t))"
    using prefix_in_flight by (fastforce simp: tunnel_full_def tunnel_inv_def)+
  with assms(1) cl sv show ?thesis
    by (auto simp: tunnel_full_def pipe_full_def pipe_inv_def half_full_def half_ok_def arrived_def)
qed

section \<open>Termination\<close>

text \<open>
  How far one direction is from its end. A byte costs most before it is read, less on the stream and least when it has
  arrived, so that every step of a copy and of the carrier makes progress.
\<close>

definition dir_rank :: "endpoint \<Rightarrow> copy_pc \<Rightarrow> endpoint \<Rightarrow> endpoint \<Rightarrow> copy_pc \<Rightarrow> nat" where
  "dir_rank src pc sender receiver pc' = 5 * length (ep_in src) + 3 * length (held pc) + copy_rank pc
     + 3 * length (in_flight sender receiver) + 2 * length (ep_in receiver) + copy_rank pc'"

lemma dir_rank_cong:
  "ep_in src' = ep_in src \<Longrightarrow> ep_out sender' = ep_out sender \<Longrightarrow> arrived receiver' = arrived receiver \<Longrightarrow>
     ep_in receiver' = ep_in receiver \<Longrightarrow> dir_rank src' pc sender' receiver' pc' = dir_rank src pc sender receiver pc'"
  by (simp add: dir_rank_def in_flight_def)

lemma copy_step_first:
  assumes "copy_step flt (src, sender, pc) (src', sender', pc')"
  shows "5 * length (ep_in src') + 3 * length (held pc') + copy_rank pc' + 3 * length (ep_out sender')
    < 5 * length (ep_in src) + 3 * length (held pc) + copy_rank pc + 3 * length (ep_out sender)"
  using assms
proof cases
  case (copy_read bs rest)
  moreover from this have "1 \<le> length bs" by (cases bs) simp_all
  ultimately show ?thesis by simp
qed (simp_all add: finish_dst_def)

lemma dir_rank_first:
  assumes "copy_step flt (src, sender, pc) (src', sender', pc')" and "prefix (arrived receiver) (ep_out sender)"
  shows "dir_rank src' pc' sender' receiver q < dir_rank src pc sender receiver q"
  using copy_step_first [OF assms(1)] prefix_length_le [OF assms(2)] prefix_length_le [OF copy_step_out [OF assms(1)]]
  by (simp add: dir_rank_def in_flight_def)

lemma dir_rank_second:
  assumes "copy_step flt (receiver, dst, q) (receiver', dst', q')"
  shows "dir_rank src pc sender receiver' q' < dir_rank src pc sender receiver q"
proof -
  have "arrived receiver' = arrived receiver" using assms by (elim copy_stepE) (auto simp: arrived_def)
  with copy_step_decreases [OF assms] show ?thesis by (simp add: dir_rank_def in_flight_def)
qed

lemma dir_rank_deliver:
  assumes "in_flight sender receiver \<noteq> []" and "0 < n"
  shows "dir_rank src pc sender (deliver n sender receiver) q < dir_rank src pc sender receiver q"
proof -
  define k where "k = min n (length (in_flight sender receiver))"
  have "length (in_flight sender (deliver n sender receiver)) = length (in_flight sender receiver) - k"
    by (simp add: in_flight_def [of _ "deliver n sender receiver"] k_def) (simp add: in_flight_def)
  moreover have "length (ep_in (deliver n sender receiver)) = length (ep_in receiver) + k"
    by (simp add: deliver_def k_def min.commute)
  moreover have "1 \<le> k" "k \<le> length (in_flight sender receiver)"
    using assms by (auto simp: k_def Suc_le_eq)
  ultimately show ?thesis unfolding dir_rank_def by linarith
qed

definition tunnel_rank :: "tunnel \<Rightarrow> nat" where
  "tunnel_rank t =
     (let c = cl_pipe t; s = sv_pipe t in
      dir_rank (end_a c) (a_to_b c) (end_b c) (end_a s) (a_to_b s)
      + dir_rank (end_b s) (b_to_a s) (end_a s) (end_b c) (b_to_a c)
      + (if pipe_done c then 0 else 1) + (if pipe_done s then 0 else 1))"

lemma copy_step_receiver:
  "copy_step flt (src, dst, pc) (src', dst', pc') \<Longrightarrow> arrived dst' = arrived dst \<and> arrived src' = arrived src"
  by (erule copy_stepE) (auto simp: arrived_def finish_dst_def)

text \<open>Every step of the tunnel makes progress; in a faulty tunnel too.\<close>

lemma pipe_step_up:
  assumes "pipe_step flt c c'" and "prefix (arrived r) (ep_out (end_b c))"
  shows "dir_rank (end_a c') (a_to_b c') (end_b c') r q + dir_rank s pc m (end_b c') (b_to_a c') + (if pipe_done c' then 0 else 1)
    < dir_rank (end_a c) (a_to_b c) (end_b c) r q + dir_rank s pc m (end_b c) (b_to_a c) + (if pipe_done c then 0 else 1)"
  using assms
proof (induction rule: pipe_step.induct)
  case (step_ab p a b pc')
  note f = copy_step_frame [OF step_ab.hyps(2)] copy_step_receiver [OF step_ab.hyps(2)]
  from f have "dir_rank s pc m b (b_to_a p) = dir_rank s pc m (end_b p) (b_to_a p)" by (intro dir_rank_cong) auto
  with dir_rank_first [OF step_ab.hyps(2) step_ab.prems, of q] step_ab.hyps(1) show ?case by simp
next
  case (step_ba p b a pc')
  note f = copy_step_frame [OF step_ba.hyps(2)] copy_step_receiver [OF step_ba.hyps(2)]
  from f have "dir_rank a (a_to_b p) b r q = dir_rank (end_a p) (a_to_b p) (end_b p) r q" by (intro dir_rank_cong) auto
  with dir_rank_second [OF step_ba.hyps(2), of s pc m] step_ba.hyps(1) show ?case by simp
next
  case (step_done p)
  then show ?case by (simp add: dir_rank_def in_flight_def arrived_def)
qed

lemma pipe_step_down:
  assumes "pipe_step flt c c'" and "prefix (arrived r) (ep_out (end_a c))"
  shows "dir_rank (end_b c') (b_to_a c') (end_a c') r q + dir_rank s pc m (end_a c') (a_to_b c') + (if pipe_done c' then 0 else 1)
    < dir_rank (end_b c) (b_to_a c) (end_a c) r q + dir_rank s pc m (end_a c) (a_to_b c) + (if pipe_done c then 0 else 1)"
  using assms
proof (induction rule: pipe_step.induct)
  case (step_ba p b a pc')
  note f = copy_step_frame [OF step_ba.hyps(2)] copy_step_receiver [OF step_ba.hyps(2)]
  from f have "dir_rank s pc m a (a_to_b p) = dir_rank s pc m (end_a p) (a_to_b p)" by (intro dir_rank_cong) auto
  with dir_rank_first [OF step_ba.hyps(2) step_ba.prems, of q] step_ba.hyps(1) show ?case by simp
next
  case (step_ab p a b pc')
  note f = copy_step_frame [OF step_ab.hyps(2)] copy_step_receiver [OF step_ab.hyps(2)]
  from f have "dir_rank b (b_to_a p) a r q = dir_rank (end_b p) (b_to_a p) (end_a p) r q" by (intro dir_rank_cong) auto
  with dir_rank_second [OF step_ab.hyps(2), of s pc m] step_ab.hyps(1) show ?case by simp
next
  case (step_done p)
  then show ?case by (simp add: dir_rank_def in_flight_def arrived_def)
qed

lemma tunnel_step_decreases:
  "tunnel_step flt t t' \<Longrightarrow> tunnel_inv request reply t \<Longrightarrow> tunnel_rank t' < tunnel_rank t"
proof (induction rule: tunnel_step.induct)
  case (client_moves t p)
  then have "prefix (arrived (end_a (sv_pipe t))) (ep_out (end_b (cl_pipe t)))" by (simp add: tunnel_inv_def)
  from pipe_step_up [OF client_moves.hyps(1) this, of "a_to_b (sv_pipe t)" "end_b (sv_pipe t)" "b_to_a (sv_pipe t)"
      "end_a (sv_pipe t)"] show ?case by (simp add: tunnel_rank_def Let_def)
next
  case (server_moves t q)
  then have "prefix (arrived (end_b (cl_pipe t))) (ep_out (end_a (sv_pipe t)))" by (simp add: tunnel_inv_def)
  from pipe_step_down [OF server_moves.hyps(1) this, of "b_to_a (cl_pipe t)" "end_a (cl_pipe t)" "a_to_b (cl_pipe t)"
      "end_b (cl_pipe t)"] show ?case by (simp add: tunnel_rank_def Let_def)
next
  case (carries_up t n)
  let ?s = "end_b (cl_pipe t)" and ?r = "end_a (sv_pipe t)"
  have "dir_rank s pc (deliver n ?s ?r) r q = dir_rank s pc ?r r q" for s pc r q
    by (simp add: dir_rank_def in_flight_def)
  with dir_rank_deliver [OF carries_up.hyps] show ?case by (simp add: tunnel_rank_def Let_def)
next
  case (carries_down t n)
  let ?s = "end_a (sv_pipe t)" and ?r = "end_b (cl_pipe t)"
  have "dir_rank s pc (deliver n ?s ?r) r q = dir_rank s pc ?r r q" for s pc r q
    by (simp add: dir_rank_def in_flight_def)
  with dir_rank_deliver [OF carries_down.hyps] show ?case by (simp add: tunnel_rank_def Let_def)
qed

section \<open>Progress\<close>

text \<open>A copy that has returned has shut down the end it wrote to, so that its peer sees the end of the stream.\<close>

definition pipe_shut :: "pipe \<Rightarrow> bool" where
  "pipe_shut p \<longleftrightarrow> (a_to_b p = CopyDone \<longrightarrow> \<not> write_open (end_b p)) \<and> (b_to_a p = CopyDone \<longrightarrow> \<not> write_open (end_a p))
     \<and> (pipe_done p \<longrightarrow> a_to_b p = CopyDone \<and> b_to_a p = CopyDone)"

lemma pipe_shut_step: "pipe_step flt p p' \<Longrightarrow> pipe_shut p \<Longrightarrow> pipe_shut p'"
proof (induction rule: pipe_step.induct)
  case (step_ab p a b pc)
  with copy_step_shut [OF step_ab.hyps(2)] show ?case by (auto simp: pipe_shut_def)
next
  case (step_ba p b a pc)
  with copy_step_shut [OF step_ba.hyps(2)] show ?case by (auto simp: pipe_shut_def)
qed (simp add: pipe_shut_def write_open_def)

definition tunnel_shut :: "tunnel \<Rightarrow> bool" where
  "tunnel_shut t \<longleftrightarrow> pipe_shut (cl_pipe t) \<and> pipe_shut (sv_pipe t)"

lemma tunnel_shut_step: "tunnel_step flt t t' \<Longrightarrow> tunnel_shut t \<Longrightarrow> tunnel_shut t'"
  by (induction rule: tunnel_step.induct) (auto simp: tunnel_shut_def dest: pipe_shut_step, auto simp: pipe_shut_def write_open_def)

interpretation shut_tunnels: invariant_system "tunnel_init p request reply" "tunnel_step flt" tunnel_shut
  for p request reply flt
proof
  show "tunnel_init p request reply t \<Longrightarrow> tunnel_shut t" for t
    by (simp add: tunnel_init_def tunnel_start_def Pipe_def tunnel_shut_def pipe_shut_def)
  show "tunnel_shut t \<Longrightarrow> tunnel_step flt t t' \<Longrightarrow> tunnel_shut t'" for t t' by (rule tunnel_shut_step)
qed

lemma client_can_move:
  "pipe_step flt (cl_pipe t) p \<Longrightarrow> b_to_a p \<noteq> Finishing \<or> b_to_a (cl_pipe t) \<noteq> Copying \<or>
     sees_end flt (end_a (sv_pipe t)) (end_b (cl_pipe t)) \<Longrightarrow> \<exists>t'. tunnel_step flt t t'"
  using client_moves by blast

lemma server_can_move:
  "pipe_step flt (sv_pipe t) p \<Longrightarrow> a_to_b p \<noteq> Finishing \<or> a_to_b (sv_pipe t) \<noteq> Copying \<or>
     sees_end flt (end_b (cl_pipe t)) (end_a (sv_pipe t)) \<Longrightarrow> \<exists>t'. tunnel_step flt t t'"
  using server_moves by blast

text \<open>The copies out of the application and out of the target are never blocked.\<close>

lemma request_copy_enabled:
  assumes "\<not> pipe_done (cl_pipe t)" and "a_to_b (cl_pipe t) \<noteq> CopyDone"
  shows "\<exists>t'. tunnel_step flt t t'"
proof -
  obtain a b pc where "copy_step flt (end_a (cl_pipe t), end_b (cl_pipe t), a_to_b (cl_pipe t)) (a, b, pc)"
    using copy_step_enabled [OF assms(2)] by (metis prod_cases3)
  from client_can_move [OF step_ab [OF assms(1) this]] show ?thesis by fastforce
qed

lemma reply_copy_enabled:
  assumes "\<not> pipe_done (sv_pipe t)" and "b_to_a (sv_pipe t) \<noteq> CopyDone"
  shows "\<exists>t'. tunnel_step flt t t'"
proof -
  obtain b a pc where "copy_step flt (end_b (sv_pipe t), end_a (sv_pipe t), b_to_a (sv_pipe t)) (b, a, pc)"
    using copy_step_enabled [OF assms(2)] by (metis prod_cases3)
  from server_can_move [OF step_ba [OF assms(1) this]] show ?thesis by fastforce
qed

text \<open>The copies out of the stream wait for it only while the carrier or the other end can move.\<close>

lemma client_pipe_enabled:
  assumes "\<not> pipe_done (cl_pipe t)" and "tunnel_shut t"
  shows "\<exists>t'. tunnel_step flt t t'"
proof -
  let ?c = "cl_pipe t" and ?s = "sv_pipe t"
  consider (up) "a_to_b ?c \<noteq> CopyDone" | (fin) "a_to_b ?c = CopyDone" "b_to_a ?c = CopyDone"
    | (down) "b_to_a ?c \<noteq> CopyDone" "sees_end flt (end_a ?s) (end_b ?c)"
    | (carry) "in_flight (end_a ?s) (end_b ?c) \<noteq> []" | (reply) "write_open (end_a ?s)"
    by (auto simp: sees_end_def)
  then show ?thesis
  proof cases
    case fin
    from client_can_move [OF step_done [OF assms(1) fin]] fin show ?thesis by simp
  next
    case down
    obtain b a pc where "copy_step flt (end_b ?c, end_a ?c, b_to_a ?c) (b, a, pc)"
      using copy_step_enabled [OF down(1)] by (metis prod_cases3)
    from client_can_move [OF step_ba [OF assms(1) this]] down(2) show ?thesis by blast
  next
    case carry
    from carries_down [OF this zero_less_one] show ?thesis by blast
  next
    case reply
    with assms(2) show ?thesis by (intro reply_copy_enabled) (auto simp: tunnel_shut_def pipe_shut_def)
  qed (use assms request_copy_enabled in blast)
qed

lemma server_pipe_enabled:
  assumes "\<not> pipe_done (sv_pipe t)" and "tunnel_shut t"
  shows "\<exists>t'. tunnel_step flt t t'"
proof -
  let ?c = "cl_pipe t" and ?s = "sv_pipe t"
  consider (down) "b_to_a ?s \<noteq> CopyDone" | (fin) "a_to_b ?s = CopyDone" "b_to_a ?s = CopyDone"
    | (up) "a_to_b ?s \<noteq> CopyDone" "sees_end flt (end_b ?c) (end_a ?s)"
    | (carry) "in_flight (end_b ?c) (end_a ?s) \<noteq> []" | (request) "write_open (end_b ?c)"
    by (auto simp: sees_end_def)
  then show ?thesis
  proof cases
    case fin
    from server_can_move [OF step_done [OF assms(1) fin]] fin show ?thesis by simp
  next
    case up
    obtain a b pc where "copy_step flt (end_a ?s, end_b ?s, a_to_b ?s) (a, b, pc)"
      using copy_step_enabled [OF up(1)] by (metis prod_cases3)
    from server_can_move [OF step_ab [OF assms(1) this]] up(2) show ?thesis by blast
  next
    case carry
    from carries_up [OF this zero_less_one] show ?thesis by blast
  next
    case request
    with assms(2) show ?thesis by (intro request_copy_enabled) (auto simp: tunnel_shut_def pipe_shut_def)
  qed (use assms reply_copy_enabled in blast)
qed

lemma tunnel_enabled: "tunnel_shut t \<Longrightarrow> \<not> tunnel_done t \<Longrightarrow> \<exists>t'. tunnel_step flt t t'"
  using client_pipe_enabled server_pipe_enabled by (auto simp: tunnel_done_def)

definition tunnel_ok :: "bytes \<Rightarrow> bytes \<Rightarrow> tunnel \<Rightarrow> bool" where
  "tunnel_ok request reply t \<longleftrightarrow> tunnel_inv request reply t \<and> tunnel_shut t"

interpretation ending_tunnels: terminating_system "tunnel_init p request reply" "tunnel_step flt" "tunnel_ok request reply"
  tunnel_rank tunnel_done for p request reply flt
proof
  show "tunnel_init p request reply t \<Longrightarrow> tunnel_ok request reply t" for t
    using tunnels.inv_init shut_tunnels.inv_init by (auto simp: tunnel_ok_def)
  show "tunnel_ok request reply t \<Longrightarrow> tunnel_step flt t t' \<Longrightarrow> tunnel_ok request reply t'" for t t'
    using tunnel_inv_step tunnel_shut_step by (auto simp: tunnel_ok_def)
  show "tunnel_ok request reply t \<Longrightarrow> tunnel_step flt t t' \<Longrightarrow> tunnel_rank t' < tunnel_rank t" for t t'
    using tunnel_step_decreases by (auto simp: tunnel_ok_def)
  show "tunnel_ok request reply t \<Longrightarrow> \<not> tunnel_done t \<Longrightarrow> \<exists>t'. tunnel_step flt t t'" for t
    using tunnel_enabled by (auto simp: tunnel_ok_def)
qed

lemma tunnel_start_reach: "reach (tunnel_init p request reply) (tunnel_step flt) (tunnel_start p request reply)"
  by (rule reach_init) (simp add: tunnel_init_def)

section \<open>Without half-close\<close>

text \<open>A client's pipe that has returned is not moved again; what the application received stays.\<close>

lemma client_returned:
  "tunnel_step flt t t' \<Longrightarrow> pipe_done (cl_pipe t) \<and> ep_out (end_a (cl_pipe t)) = bs \<Longrightarrow>
     pipe_done (cl_pipe t') \<and> ep_out (end_a (cl_pipe t')) = bs"
proof (induction rule: tunnel_step.induct)
  case (client_moves t p)
  from client_moves.hyps(1) have "\<not> pipe_done (cl_pipe t)" by (cases rule: pipe_step.cases) auto
  with client_moves show ?case by simp
qed simp_all

lemma client_returned_run:
  "(tunnel_step flt)\<^sup>*\<^sup>* t t' \<Longrightarrow> pipe_done (cl_pipe t) \<and> ep_out (end_a (cl_pipe t)) = bs \<Longrightarrow>
     pipe_done (cl_pipe t') \<and> ep_out (end_a (cl_pipe t')) = bs"
  by (induction rule: rtranclp_induct) (use client_returned in blast)+

text \<open>
  An application that finishes sending before the reply arrives: the client's pipe closes the whole stream and returns,
  and the reply goes nowhere.
\<close>

lemma truncating_tunnel:
  assumes "\<not> has_CloseWrite p"
  shows "\<exists>t. reach (tunnel_init p [] reply) (tunnel_step False) t \<and> pipe_done (cl_pipe t) \<and> ep_out (end_a (cl_pipe t)) = []"
proof -
  let ?a = "new_endpoint True []" and ?b = "new_endpoint (has_CloseWrite p) []"
  define part where "part q = (tunnel_start p [] reply)\<lparr>cl_pipe := q\<rparr>" for q
  have "tunnel_step False (part q) (part q')"
    if "pipe_step False q q'" "b_to_a q = Copying \<and> b_to_a q' = Finishing \<longrightarrow> ep_closed (end_b q)" for q q'
    using tunnel_step.client_moves [of False "part q" q'] that by (simp add: part_def sees_end_def)
  with truncating_chain [of ?a ?b "tunnel_step False" part] assms obtain q
    where q: "(tunnel_step False)\<^sup>*\<^sup>* (part (Pipe ?a ?b)) (part q)" "pipe_done q" "ep_out (end_a q) = []"
    by (auto simp: new_endpoint_def)
  have "part (Pipe ?a ?b) = tunnel_start p [] reply" by (simp add: part_def tunnel_start_def)
  with q(1) have "reach (tunnel_init p [] reply) (tunnel_step False) (part q)"
    by (intro reach_rtranclp [OF _ tunnel_start_reach]) simp
  with q show ?thesis by (intro exI [of _ "part q"]) (simp add: part_def)
qed

section \<open>Properties\<close>

text \<open>
  C16. What a tunnelled connection delivers, from end to end. For every protocol, in every interleaving of the two pipes with
  the carrier, and whatever fails at whichever moment: what the target has received is a prefix of what the application
  sent, and what the application has received is a prefix of what the target sent. When both pipes have returned all
  four connections are closed; the tunnel always gets there, and no run goes on for ever.
\<close>

theorem tunnel_prefix:
  assumes "reach (tunnel_init p request reply) (tunnel_step flt) t"
  shows "prefix (ep_out (end_b (sv_pipe t))) request \<and> prefix (ep_out (end_a (cl_pipe t))) reply
    \<and> (tunnel_done t \<longrightarrow> ep_closed (end_a (cl_pipe t)) \<and> ep_closed (end_b (cl_pipe t))
         \<and> ep_closed (end_a (sv_pipe t)) \<and> ep_closed (end_b (sv_pipe t)))
    \<and> (\<exists>t'. (tunnel_step flt)\<^sup>*\<^sup>* t t' \<and> tunnel_done t')
    \<and> \<not> (\<exists>f. f 0 = t \<and> (\<forall>i. tunnel_step flt (f i) (f (Suc i))))"
proof (intro conjI)
  from tunnels.inv_reach [OF assms] have inv: "tunnel_inv request reply t" .
  then show "prefix (ep_out (end_b (sv_pipe t))) request" "prefix (ep_out (end_a (cl_pipe t))) reply"
    unfolding tunnel_inv_def using pipe_inv_prefix by (meson prefix_order.trans)+
  from inv show "tunnel_done t \<longrightarrow> ep_closed (end_a (cl_pipe t)) \<and> ep_closed (end_b (cl_pipe t))
         \<and> ep_closed (end_a (sv_pipe t)) \<and> ep_closed (end_b (sv_pipe t))"
    by (auto simp: tunnel_inv_def tunnel_done_def pipe_inv_def)
  note ok = ending_tunnels.inv_reach [OF assms]
  from ending_tunnels.runs_to_end [OF ok] show "\<exists>t'. (tunnel_step flt)\<^sup>*\<^sup>* t t' \<and> tunnel_done t'" .
  from ending_tunnels.no_infinite_run [OF ok]
  show "\<not> (\<exists>f. f 0 = t \<and> (\<forall>i. tunnel_step flt (f i) (f (Suc i))))" .
qed

theorem tunnel_prefix_witness:
  "\<exists>t. (tunnel_step True)\<^sup>*\<^sup>* (tunnel_start WSMux [1, 2] [3]) t \<and> tunnel_done t"
  using tunnel_prefix [OF tunnel_start_reach, of WSMux "[1, 2]" "[3]" True] by blast

text \<open>
  C15. A tunnelled connection over \<^verbatim>\<open>tcp\<close> or \<^verbatim>\<open>quic\<close> delivers everything. When nothing fails, every run can be continued until
  both pipes have returned; and whenever both have returned, or no step is left, the target has received exactly what the
  application sent and the application exactly what the target sent, also when one side finishes sending long before the
  other.
\<close>

theorem tunnel_delivers:
  assumes "p = TCP \<or> p = QUIC" and "reach (tunnel_init p request reply) (tunnel_step False) t"
  shows "(\<exists>t'. (tunnel_step False)\<^sup>*\<^sup>* t t' \<and> tunnel_done t')
    \<and> (\<forall>t'. (tunnel_step False)\<^sup>*\<^sup>* t t' \<and> (\<nexists>u. tunnel_step False t' u) \<longrightarrow>
         ep_out (end_b (sv_pipe t')) = request \<and> ep_out (end_a (cl_pipe t')) = reply)
    \<and> (tunnel_done t \<longrightarrow> ep_out (end_b (sv_pipe t)) = request \<and> ep_out (end_a (cl_pipe t)) = reply)"
proof -
  from assms(1) have cw: "has_CloseWrite p" by (auto simp: has_CloseWrite_def Mux_def WebSocket_def proto_names)
  note full = tunnel_reach_full [OF cw]
  note ok = ending_tunnels.inv_reach [OF assms(2)]
  have "ep_out (end_b (sv_pipe t')) = request \<and> ep_out (end_a (cl_pipe t')) = reply"
    if "(tunnel_step False)\<^sup>*\<^sup>* t t'" "\<nexists>u. tunnel_step False t' u" for t'
    using tunnel_full_delivers [OF full [OF reach_rtranclp [OF that(1) assms(2)]]]
      ending_tunnels.enabled [OF ending_tunnels.inv_run [OF that(1) ok]] that(2) by blast
  with ending_tunnels.runs_to_end [OF ok] tunnel_full_delivers [OF full [OF assms(2)]] show ?thesis by blast
qed

theorem tunnel_delivers_witness:
  "\<exists>t. reach (tunnel_init QUIC [1, 2] [3]) (tunnel_step False) t \<and> tunnel_done t
     \<and> ep_out (end_b (sv_pipe t)) = [1, 2] \<and> ep_out (end_a (cl_pipe t)) = [3]"
proof -
  let ?r = "reach (tunnel_init QUIC [1, 2] [3]) (tunnel_step False)"
  obtain t where t: "(tunnel_step False)\<^sup>*\<^sup>* (tunnel_start QUIC [1, 2] [3]) t" "tunnel_done t"
    using tunnel_delivers [OF disjI2 tunnel_start_reach, of QUIC "[1, 2]" "[3]"] by blast
  with tunnel_delivers [OF disjI2 reach_rtranclp [OF t(1) tunnel_start_reach]] reach_rtranclp [OF t(1) tunnel_start_reach]
  show ?thesis by blast
qed

lemma has_CloseWrite_iff: "p \<in> set supported \<Longrightarrow> p \<noteq> UDP \<Longrightarrow> has_CloseWrite p \<longleftrightarrow> p = TCP \<or> p = QUIC"
  by (erule supported_cases) (simp_all add: has_CloseWrite_def proto_classes proto_names)

text \<open>
  C36. Which protocols carry half-closed connections. When nothing fails, a tunnelled connection whose two pipes have returned
  has delivered in both directions everything that was sent, in every interleaving, if the protocol is \<^verbatim>\<open>tcp\<close> or \<^verbatim>\<open>quic\<close>; for
  every other stream protocol there is an interleaving in which a reply is lost that the target sent in full, because the
  application had finished sending first.
\<close>

theorem half_close_by_protocol:
  assumes "p \<in> set supported" and "p \<noteq> UDP"
  shows "(\<forall>request reply t. reach (tunnel_init p request reply) (tunnel_step False) t \<and> tunnel_done t \<longrightarrow>
            ep_out (end_b (sv_pipe t)) = request \<and> ep_out (end_a (cl_pipe t)) = reply) \<longleftrightarrow> p = TCP \<or> p = QUIC"
    (is "?all \<longleftrightarrow> _")
proof (cases "has_CloseWrite p")
  case True
  with assms show ?thesis using tunnel_reach_full [OF True] tunnel_full_delivers has_CloseWrite_iff by blast
next
  case False
  obtain t where t: "reach (tunnel_init p [] [1]) (tunnel_step False) t" "pipe_done (cl_pipe t)" "ep_out (end_a (cl_pipe t)) = []"
    using truncating_tunnel [OF False] by blast
  obtain t' where t': "(tunnel_step False)\<^sup>*\<^sup>* t t'" "tunnel_done t'"
    using ending_tunnels.runs_to_end [OF ending_tunnels.inv_reach [OF t(1)]] by blast
  have lost: "ep_out (end_a (cl_pipe t')) \<noteq> [1]" using client_returned_run [OF t'(1)] t(2,3) by simp
  have "\<not> ?all"
  proof
    assume ?all
    then have "ep_out (end_a (cl_pipe t')) = [1]" using reach_rtranclp [OF t'(1) t(1)] t'(2) by blast
    with lost show False ..
  qed
  moreover have "\<not> (p = TCP \<or> p = QUIC)" using has_CloseWrite_iff [OF assms] False by blast
  ultimately show ?thesis by blast
qed

theorem half_close_by_protocol_witness:
  "\<not> (\<forall>request reply t. reach (tunnel_init WSS request reply) (tunnel_step False) t \<and> tunnel_done t \<longrightarrow>
        ep_out (end_b (sv_pipe t)) = request \<and> ep_out (end_a (cl_pipe t)) = reply)"
proof -
  have "WSS \<in> set supported" "WSS \<noteq> UDP" "WSS \<noteq> TCP" "WSS \<noteq> QUIC" by (simp_all add: supported_def proto_names)
  then show ?thesis using half_close_by_protocol by blast
qed

text \<open>
  The marker crosses the tunnel and stops there. When a client has opened a stream on its QUIC session, the server's
  handler of that stream, which receives what the client has written since, relays it and leaves to the pipe exactly
  what follows the marker, also when that is nothing.
\<close>

theorem quic_stream_crosses:
  assumes cl: "connection ops content final todo sent reliable"
    and sv: "connection ops' content' final' todo' sent' reliable'"
    and op: "quicSession_open ops g Q conn = Some (Inr st, conn')"
    and fresh: "\<And>st0. fst (qc_OpenStreamSync Q conn) = Inr st0 \<Longrightarrow> sent st0 = []"
    and arrives: "content' peer = concat (sent st) @ later"
  shows "\<exists>peer'. handleQUICStream ops' g' s dial (i, peer) = Some (handleStream s dial (QuicStream i), peer')
    \<and> content' peer' = later"
proof -
  have "sent st = [[quicStreamMarker]]"
    using connection.quicSession_open_marked [OF cl, of g Q conn] op fresh by auto
  with arrives have "content' peer = quicStreamMarker # later" by simp
  with quic_marker_stripped [OF sv, of g' s dial i peer] show ?thesis by auto
qed

theorem quic_stream_crosses_witness:
  "\<exists>st peer'. quicSession_open net_ops (Inr (\<lambda>_. 0)) demo_quic (0, False) = Some (Inr st, (1, False))
     \<and> handleQUICStream net_ops (Inr (\<lambda>_. 0)) (demo_server QUIC) (\<lambda>_ _ _. None) (1, conn_of (tx st @ [[42]])) =
         Some (handleStream (demo_server QUIC) (\<lambda>_ _ _. None) (QuicStream 1), peer')
     \<and> conn_content peer' = [42]"
proof -
  have "\<exists>st. quicSession_open net_ops (Inr (\<lambda>_. 0)) demo_quic (0, False) = Some (Inr st, (1, False))"
    by (simp add: quicSession_open_def demo_quic_def quic_open_def demo_server_stream_def net_ops_def
        conn_Write_def conn_of_def)
  then obtain st where op: "quicSession_open net_ops (Inr (\<lambda>_. 0)) demo_quic (0, False) = Some (Inr st, (1, False))" ..
  show ?thesis
    using op quic_stream_crosses [OF netc.connection_axioms netc.connection_axioms op,
        of "conn_of (tx st @ [[42]])" "[42]" "Inr (\<lambda>_. 0)" "demo_server QUIC" "\<lambda>_ _ _. None" 1]
    by (auto simp: demo_quic_def demo_server_stream_def)
qed

end
