(* ===== verification/Dialer.thy ===== *)
theory Dialer
  imports Transport_Client
begin

text \<open>
  The dialers of \<^verbatim>\<open>internal/transport/session.go\<close> over real sessions. Theory \<open>Session\<close> treats a session as a number with a
  closed flag; here a session is an object of its own, an smux session or a QUIC connection behind the interface
  \<^verbatim>\<open>muxSession\<close>, \<^verbatim>\<open>connect\<close> is the client's \<^verbatim>\<open>connectMux\<close> or \<^verbatim>\<open>connectQUIC\<close>, and \<^verbatim>\<open>Dial\<close> returns a stream. The system of
  goroutines over the objects is shown to be simulated by the one of theory \<open>Session\<close>, whose theorems thus hold for it.
\<close>

section \<open>Interfaces\<close>

text \<open>The methods of \<^verbatim>\<open>muxSession\<close>; \<^verbatim>\<open>open\<close> yields \<open>None\<close> if it does not return. A closed session stays closed.\<close>

record ('x, 't) muxSession =
  ms_open :: "'x \<Rightarrow> ((io_error + 't) \<times> 'x) option"
  ms_isClosed :: "'x \<Rightarrow> bool"
  ms_close :: "'x \<Rightarrow> 'x"

locale mux_sessions =
  fixes M :: "('x, 't) muxSession"
  assumes close_closes: "ms_isClosed M (ms_close M x)"
    and open_closed: "ms_isClosed M x \<Longrightarrow> ms_open M x = Some (r, x') \<Longrightarrow> ms_isClosed M x'"

text \<open>\<^verbatim>\<open>dialerFunc\<close>: \<^verbatim>\<open>Dial\<close> calls the function and \<^verbatim>\<open>Close\<close> has nothing to close.\<close>

definition dialerFunc_Dial :: "('g \<Rightarrow> 'r) \<Rightarrow> 'g \<Rightarrow> 'r" where
  "dialerFunc_Dial f ctx = f ctx"

definition dialerFunc_Close :: "('g \<Rightarrow> 'r) \<Rightarrow> io_error option" where
  "dialerFunc_Close f = None"

section \<open>The dialer over session objects\<close>

text \<open>
  Sessions live in a heap in the order in which they were connected; a pointer to one is its index. \<open>sd_origin\<close> keeps
  each session as \<^verbatim>\<open>connect\<close> returned it and \<open>sd_released\<close> those the dialer closed.
\<close>

record 'x sessionDialer =
  sd_cur :: "nat option"
  sd_closed :: bool
  sd_heap :: "'x list"
  sd_origin :: "'x list"
  sd_released :: "nat set"

definition sd_new :: "'x sessionDialer" where
  "sd_new = \<lparr>sd_cur = None, sd_closed = False, sd_heap = [], sd_origin = [], sd_released = {}\<rparr>"

definition sd_drop :: "('x, 't) muxSession \<Rightarrow> 'x sessionDialer \<Rightarrow> 'x sessionDialer" where
  "sd_drop M d =
     (case sd_cur d of
        None \<Rightarrow> d
      | Some i \<Rightarrow> d\<lparr>sd_cur := None, sd_heap := (sd_heap d)[i := ms_close M (sd_heap d ! i)],
                    sd_released := insert i (sd_released d)\<rparr>)"

definition sd_connect :: "'e + 'x \<Rightarrow> 'x sessionDialer \<Rightarrow> ('e dial_error + nat) \<times> 'x sessionDialer" where
  "sd_connect res d =
     (case res of
        Inl e \<Rightarrow> (Inl (ConnectFailed e), d)
      | Inr sess \<Rightarrow>
          (Inr (length (sd_heap d)),
           d\<lparr>sd_cur := Some (length (sd_heap d)), sd_heap := sd_heap d @ [sess], sd_origin := sd_origin d @ [sess]\<rparr>))"

definition sd_session ::
  "('x, 't) muxSession \<Rightarrow> 'e + 'x \<Rightarrow> 'x sessionDialer \<Rightarrow> ('e dial_error + nat) \<times> 'x sessionDialer" where
  "sd_session M res d =
     (if sd_closed d then (Inl DialerClosed, d)
      else case sd_cur d of
        None \<Rightarrow> sd_connect res d
      | Some i \<Rightarrow> if \<not> ms_isClosed M (sd_heap d ! i) then (Inr i, d) else sd_connect res (sd_drop M d))"

definition sd_discard :: "('x, 't) muxSession \<Rightarrow> nat \<Rightarrow> 'x sessionDialer \<Rightarrow> 'x sessionDialer" where
  "sd_discard M i d = (if sd_cur d = Some i then sd_drop M d else d)"

definition sd_Close :: "('x, 't) muxSession \<Rightarrow> 'x sessionDialer \<Rightarrow> 'x sessionDialer" where
  "sd_Close M d = sd_drop M (d\<lparr>sd_closed := True\<rparr>)"

text \<open>
  Where a goroutine inside \<^verbatim>\<open>Dial\<close> is, as in theory \<open>Session\<close>; a goroutine that returned a stream has the stream and the
  session it was opened on.
\<close>

datatype ('e, 't) go_pc =
    GWants nat "'e dial_error option"
  | GOpening nat nat
  | GDiscarding nat nat "'e dial_error"
  | GReturned "'e dial_error option + nat \<times> 't"

record ('x, 'e, 't) go_world =
  gw_dialer :: "'x sessionDialer"
  gw_pcs :: "nat \<rightharpoonup> ('e, 't) go_pc"

text \<open>
  The steps. \<open>connects\<close> tells what \<^verbatim>\<open>connect\<close> may return. A session may change on its own at any time, but does not come
  back once it is closed.
\<close>

inductive go_step ::
  "('x, 't) muxSession \<Rightarrow> ('e + 'x \<Rightarrow> bool) \<Rightarrow> ('x, 'e, 't) go_world \<Rightarrow> ('x, 'e, 't) go_world \<Rightarrow> bool"
  for M :: "('x, 't) muxSession" and connects :: "'e + 'x \<Rightarrow> bool" where
  go_start: "gw_pcs w g = None \<Longrightarrow> go_step M connects w (w\<lparr>gw_pcs := (gw_pcs w)(g \<mapsto> GWants 2 None)\<rparr>)"
| go_give_up: "gw_pcs w g = Some (GWants 0 lastErr) \<Longrightarrow>
    go_step M connects w (w\<lparr>gw_pcs := (gw_pcs w)(g \<mapsto> GReturned (Inl lastErr))\<rparr>)"
| go_no_session: "gw_pcs w g = Some (GWants (Suc n) lastErr) \<Longrightarrow> connects res \<Longrightarrow>
    sd_session M res (gw_dialer w) = (Inl e, d) \<Longrightarrow>
    go_step M connects w \<lparr>gw_dialer = d, gw_pcs = (gw_pcs w)(g \<mapsto> GReturned (Inl (Some e)))\<rparr>"
| go_got_session: "gw_pcs w g = Some (GWants (Suc n) lastErr) \<Longrightarrow> connects res \<Longrightarrow>
    sd_session M res (gw_dialer w) = (Inr i, d) \<Longrightarrow>
    go_step M connects w \<lparr>gw_dialer = d, gw_pcs = (gw_pcs w)(g \<mapsto> GOpening n i)\<rparr>"
| go_opened: "gw_pcs w g = Some (GOpening n i) \<Longrightarrow> ms_open M (sd_heap (gw_dialer w) ! i) = Some (Inr st, x) \<Longrightarrow>
    go_step M connects w \<lparr>gw_dialer = (gw_dialer w)\<lparr>sd_heap := (sd_heap (gw_dialer w))[i := x]\<rparr>,
      gw_pcs = (gw_pcs w)(g \<mapsto> GReturned (Inr (i, st)))\<rparr>"
| go_open_fails: "gw_pcs w g = Some (GOpening n i) \<Longrightarrow> ms_open M (sd_heap (gw_dialer w) ! i) = Some (Inl e, x) \<Longrightarrow>
    go_step M connects w \<lparr>gw_dialer = (gw_dialer w)\<lparr>sd_heap := (sd_heap (gw_dialer w))[i := x]\<rparr>,
      gw_pcs = (gw_pcs w)(g \<mapsto> GDiscarding n i (OpenFailed e))\<rparr>"
| go_discards: "gw_pcs w g = Some (GDiscarding n i e) \<Longrightarrow>
    go_step M connects w \<lparr>gw_dialer = sd_discard M i (gw_dialer w), gw_pcs = (gw_pcs w)(g \<mapsto> GWants n (Some e))\<rparr>"
| go_closes: "go_step M connects w (w\<lparr>gw_dialer := sd_Close M (gw_dialer w)\<rparr>)"
| go_changes: "i < length (sd_heap (gw_dialer w)) \<Longrightarrow>
    ms_isClosed M (sd_heap (gw_dialer w) ! i) \<longrightarrow> ms_isClosed M x \<Longrightarrow>
    go_step M connects w (w\<lparr>gw_dialer := (gw_dialer w)\<lparr>sd_heap := (sd_heap (gw_dialer w))[i := x]\<rparr>\<rparr>)"

definition go_init :: "('x, 'e, 't) go_world \<Rightarrow> bool" where
  "go_init w \<longleftrightarrow> w = \<lparr>gw_dialer = sd_new, gw_pcs = Map.empty\<rparr>"

section \<open>Simulation\<close>

text \<open>What theory \<open>Session\<close> sees of a dialer over objects.\<close>

definition abs_dialer :: "('x, 't) muxSession \<Rightarrow> 'x sessionDialer \<Rightarrow> dialer" where
  "abs_dialer M d = \<lparr>cur = sd_cur d, dialer_closed = sd_closed d, connected = length (sd_heap d),
     gone = {i. i < length (sd_heap d) \<and> ms_isClosed M (sd_heap d ! i)}, released = sd_released d\<rparr>"

fun abs_pc :: "('e, 't) go_pc \<Rightarrow> 'e dial_pc" where
  "abs_pc (GWants n e) = Wants n e"
| "abs_pc (GOpening n i) = Opening n i"
| "abs_pc (GDiscarding n i e) = Discarding n i e"
| "abs_pc (GReturned (Inl e)) = Returned (Inl e)"
| "abs_pc (GReturned (Inr (i, st))) = Returned (Inr i)"

definition abs_world :: "('x, 't) muxSession \<Rightarrow> ('x, 'e, 't) go_world \<Rightarrow> 'e dial_world" where
  "abs_world M w = \<lparr>dlr = abs_dialer M (gw_dialer w), pcs = map_option abs_pc \<circ> gw_pcs w\<rparr>"

text \<open>The dialer's pointer is into the heap.\<close>

definition sd_ok :: "'x sessionDialer \<Rightarrow> bool" where
  "sd_ok d \<longleftrightarrow> (\<forall>i. sd_cur d = Some i \<longrightarrow> i < length (sd_heap d))"

lemma abs_pcs_upd [simp]: "map_option abs_pc \<circ> P(g \<mapsto> pc) = (map_option abs_pc \<circ> P)(g \<mapsto> abs_pc pc)"
  by auto

text \<open>A new session may be closed by the time it is connected; theory \<open>Session\<close> then sees it die right away.\<close>

definition dies_or_same :: "dialer \<Rightarrow> dialer \<Rightarrow> bool" where
  "dies_or_same d d' \<longleftrightarrow> d' = d \<or> (\<exists>i < connected d. d' = d\<lparr>gone := insert i (gone d)\<rparr>)"

lemma dies_or_same_run: "dies_or_same d d' \<Longrightarrow> dial_step\<^sup>*\<^sup>* \<lparr>dlr = d, pcs = P\<rparr> \<lparr>dlr = d', pcs = P\<rparr>"
  unfolding dies_or_same_def using dies [of _ "\<lparr>dlr = d, pcs = P\<rparr>"] by (auto intro: r_into_rtranclp)

definition connect_error :: "'e + 'y \<Rightarrow> 'e option" where
  "connect_error res = (case res of Inl e \<Rightarrow> Some e | Inr _ \<Rightarrow> None)"

context mux_sessions
begin

lemma abs_drop: "sd_ok d \<Longrightarrow> abs_dialer M (sd_drop M d) = drop_cur (abs_dialer M d)"
  by (auto simp: abs_dialer_def sd_drop_def drop_cur_def close_session_def sd_ok_def nth_list_update close_closes
      split: option.splits)

lemma abs_discard: "sd_ok d \<Longrightarrow> abs_dialer M (sd_discard M i d) = discard i (abs_dialer M d)"
  by (simp add: sd_discard_def discard_def abs_drop) (simp add: abs_dialer_def)

lemma abs_Close: "sd_ok d \<Longrightarrow> abs_dialer M (sd_Close M d) = Close (abs_dialer M d)"
  using abs_drop [of "d\<lparr>sd_closed := True\<rparr>"] by (simp add: sd_Close_def Close_def sd_ok_def) (simp add: abs_dialer_def)

lemma abs_change:
  assumes "i < length (sd_heap d)" and "ms_isClosed M (sd_heap d ! i) \<longrightarrow> ms_isClosed M x"
  shows "dies_or_same (abs_dialer M d) (abs_dialer M (d\<lparr>sd_heap := (sd_heap d)[i := x]\<rparr>))"
proof (cases "ms_isClosed M x")
  case True
  then have "abs_dialer M (d\<lparr>sd_heap := (sd_heap d)[i := x]\<rparr>) = (abs_dialer M d)\<lparr>gone := insert i (gone (abs_dialer M d))\<rparr>"
    using assms by (auto simp: abs_dialer_def nth_list_update)
  with assms show ?thesis by (auto simp: dies_or_same_def abs_dialer_def)
next
  case False
  with assms have "{j. j < length (sd_heap d) \<and> ms_isClosed M ((sd_heap d)[i := x] ! j)} =
      {j. j < length (sd_heap d) \<and> ms_isClosed M (sd_heap d ! j)}"
    by (auto simp: nth_list_update)
  then show ?thesis by (simp add: dies_or_same_def abs_dialer_def)
qed

lemma abs_connect:
  assumes "sd_connect res d = (r, d')" and "\<not> sd_closed d" and "sd_cur d = None"
  shows "\<exists>a. session (connect_error res) (abs_dialer M d) = (r, a) \<and> dies_or_same a (abs_dialer M d')"
proof (cases res)
  case (Inl e)
  with assms show ?thesis
    by (simp add: sd_connect_def session_def abs_dialer_def connect_error_def dies_or_same_def)
next
  case (Inr x)
  let ?n = "length (sd_heap d)"
  let ?a = "(abs_dialer M d)\<lparr>cur := Some ?n, connected := Suc ?n\<rparr>"
  from Inr assms have d': "r = Inr ?n" "d' = d\<lparr>sd_cur := Some ?n, sd_heap := sd_heap d @ [x], sd_origin := sd_origin d @ [x]\<rparr>"
    by (simp_all add: sd_connect_def)
  have "session (connect_error res) (abs_dialer M d) = (r, ?a)"
    using Inr assms d'(1) by (simp add: session_def connect_error_def abs_dialer_def)
  moreover have "abs_dialer M d' = ?a\<lparr>gone := (if ms_isClosed M x then insert ?n (gone ?a) else gone ?a)\<rparr>"
    using d'(2) by (auto simp: abs_dialer_def nth_append less_Suc_eq)
  then have "dies_or_same ?a (abs_dialer M d')" by (auto simp: dies_or_same_def)
  ultimately show ?thesis by blast
qed

lemma abs_session:
  assumes ok: "sd_ok d" and run: "sd_session M res d = (r, d')"
  shows "\<exists>a. session (connect_error res) (abs_dialer M d) = (r, a) \<and> dies_or_same a (abs_dialer M d')"
proof -
  consider (closed) "sd_closed d" | (none) "\<not> sd_closed d" "sd_cur d = None"
    | (alive) i where "\<not> sd_closed d" "sd_cur d = Some i" "\<not> ms_isClosed M (sd_heap d ! i)"
    | (dead) i where "\<not> sd_closed d" "sd_cur d = Some i" "ms_isClosed M (sd_heap d ! i)"
    by fastforce
  then show ?thesis
  proof cases
    case closed
    with run show ?thesis by (simp add: sd_session_def session_def abs_dialer_def dies_or_same_def)
  next
    case none
    with run show ?thesis by (intro abs_connect) (simp_all add: sd_session_def)
  next
    case alive
    with run show ?thesis by (simp add: sd_session_def session_def abs_dialer_def isClosed_def dies_or_same_def)
  next
    case dead
    have "\<exists>a. session (connect_error res) (abs_dialer M (sd_drop M d)) = (r, a) \<and> dies_or_same a (abs_dialer M d')"
      using dead run by (intro abs_connect) (simp_all add: sd_session_def sd_drop_def)
    moreover have "session (connect_error res) (drop_cur (abs_dialer M d)) = session (connect_error res) (abs_dialer M d)"
      using dead ok by (auto simp: session_def abs_dialer_def isClosed_def sd_ok_def Let_def)
    ultimately show ?thesis using abs_drop [OF ok] by simp
  qed
qed

lemma abs_world_eq: "abs_world M \<lparr>gw_dialer = d, gw_pcs = P\<rparr> = \<lparr>dlr = abs_dialer M d, pcs = map_option abs_pc \<circ> P\<rparr>"
  by (simp add: abs_world_def)

lemma abs_ok: "dialer_ok (abs_dialer M d) \<Longrightarrow> sd_ok d"
  by (auto simp: dialer_ok_def abs_dialer_def sd_ok_def)

lemma sim_session:
  assumes "gw_pcs w g = Some (GWants (Suc n) lastErr)" and "sd_session M res (gw_dialer w) = (r, d)" and "sd_ok (gw_dialer w)"
    and step: "\<And>a. session (connect_error res) (dlr (abs_world M w)) = (r, a) \<Longrightarrow>
      dial_step (abs_world M w) \<lparr>dlr = a, pcs = (pcs (abs_world M w))(g \<mapsto> abs_pc pc)\<rparr>"
  shows "dial_step\<^sup>*\<^sup>* (abs_world M w) (abs_world M \<lparr>gw_dialer = d, gw_pcs = (gw_pcs w)(g \<mapsto> pc)\<rparr>)"
proof -
  from abs_session [OF assms(3,2)] obtain a
    where a: "session (connect_error res) (dlr (abs_world M w)) = (r, a)" "dies_or_same a (abs_dialer M d)"
    by (auto simp: abs_world_def)
  have "(pcs (abs_world M w))(g \<mapsto> abs_pc pc) = map_option abs_pc \<circ> (gw_pcs w)(g \<mapsto> pc)" by (simp add: abs_world_def)
  with converse_rtranclp_into_rtranclp [OF step [OF a(1)] dies_or_same_run [OF a(2)]] show ?thesis
    by (simp only: abs_world_eq)
qed

lemma sim_open:
  assumes g: "gw_pcs w g = Some (GOpening n i)" and o: "ms_open M (sd_heap (gw_dialer w) ! i) = Some (r, x)"
    and i: "i < length (sd_heap (gw_dialer w))"
    and pc: "\<And>v. pcs v g = Some (Opening n i) \<Longrightarrow> dial_step v (v\<lparr>pcs := (pcs v)(g \<mapsto> abs_pc pc)\<rparr>)"
  shows "dial_step\<^sup>*\<^sup>* (abs_world M w) (abs_world M
        \<lparr>gw_dialer = (gw_dialer w)\<lparr>sd_heap := (sd_heap (gw_dialer w))[i := x]\<rparr>, gw_pcs = (gw_pcs w)(g \<mapsto> pc)\<rparr>)"
proof -
  let ?P = "map_option abs_pc \<circ> gw_pcs w"
  let ?d = "abs_dialer M ((gw_dialer w)\<lparr>sd_heap := (sd_heap (gw_dialer w))[i := x]\<rparr>)"
  have "dial_step\<^sup>*\<^sup>* (abs_world M w) \<lparr>dlr = ?d, pcs = ?P\<rparr>"
    unfolding abs_world_def using open_closed o by (intro dies_or_same_run abs_change i) blast
  moreover have "dial_step \<lparr>dlr = ?d, pcs = ?P\<rparr> (\<lparr>dlr = ?d, pcs = ?P\<rparr>\<lparr>pcs := (pcs \<lparr>dlr = ?d, pcs = ?P\<rparr>)(g \<mapsto> abs_pc pc)\<rparr>)"
    using g by (intro pc) simp
  ultimately show ?thesis by (simp add: abs_world_eq)
qed

text \<open>Every step over objects is matched by steps of theory \<open>Session\<close>.\<close>

lemma go_step_simulated:
  assumes step: "go_step M connects w w'" and inv: "dial_inv (abs_world M w)"
  shows "dial_step\<^sup>*\<^sup>* (abs_world M w) (abs_world M w')"
proof -
  from inv have ok: "sd_ok (gw_dialer w)" by (intro abs_ok) (simp add: dial_inv_def abs_world_def)
  have idx: "i < length (sd_heap (gw_dialer w))" if "gw_pcs w g = Some (GOpening n i)" for g n i
    using dial_inv_pc [OF inv, of g "Opening n i"] that by (simp add: abs_world_def abs_dialer_def)
  from step show ?thesis
  proof cases
    case (go_start g)
    then show ?thesis using start [of "abs_world M w" g] by (simp add: abs_world_def r_into_rtranclp)
  next
    case (go_give_up g lastErr)
    then show ?thesis using give_up [of "abs_world M w" g lastErr] by (simp add: abs_world_def r_into_rtranclp)
  next
    case (go_no_session g n lastErr res e d)
    then show ?thesis
      using no_session [of "abs_world M w" g n lastErr "connect_error res" e]
      by (simp only:) (rule sim_session [OF _ _ ok], auto simp: abs_world_def)
  next
    case (go_got_session g n lastErr res i d)
    then show ?thesis
      using got_session [of "abs_world M w" g n lastErr "connect_error res" i]
      by (simp only:) (rule sim_session [OF _ _ ok], auto simp: abs_world_def)
  next
    case (go_opened g n i st x)
    show ?thesis
      unfolding go_opened(1) by (rule sim_open [OF go_opened(2,3) idx [OF go_opened(2)]]) (simp add: opened)
  next
    case (go_open_fails g n i e x)
    show ?thesis
      unfolding go_open_fails(1) by (rule sim_open [OF go_open_fails(2,3) idx [OF go_open_fails(2)]]) (simp add: open_fails)
  next
    case (go_discards g n i e)
    then show ?thesis using discards [of "abs_world M w" g n i e]
      by (simp add: abs_world_def abs_discard [OF ok] r_into_rtranclp)
  next
    case go_closes
    then show ?thesis using closes [of "abs_world M w"] by (simp add: abs_world_def abs_Close [OF ok] r_into_rtranclp)
  next
    case (go_changes i x)
    then show ?thesis by (simp add: abs_world_def abs_change dies_or_same_run)
  qed
qed

lemma go_reach_simulated: "reach go_init (go_step M connects) w \<Longrightarrow> reach dial_init dial_step (abs_world M w)"
proof (induction rule: reach.induct)
  case (reach_init w)
  then show ?case
    by (intro reach.reach_init) (simp add: go_init_def dial_init_def abs_world_def abs_dialer_def sd_new_def newSessionDialer_def)
next
  case (reach_step w w')
  from go_step_simulated [OF reach_step.hyps(2) dial.inv_reach [OF reach_step.IH]] reach_step.IH show ?case
    by (rule reach_rtranclp)
qed

text \<open>What the theorems of theory \<open>Session\<close> say about the objects.\<close>

lemma go_no_leak:
  assumes "reach go_init (go_step M connects) w"
  shows "(\<forall>i < length (sd_heap (gw_dialer w)). sd_cur (gw_dialer w) = Some i
            \<or> (i \<in> sd_released (gw_dialer w) \<and> ms_isClosed M (sd_heap (gw_dialer w) ! i)))
       \<and> (sd_closed (gw_dialer w) \<longrightarrow> sd_cur (gw_dialer w) = None)"
proof -
  from dial.inv_reach [OF go_reach_simulated [OF assms]] have ok: "dialer_ok (abs_dialer M (gw_dialer w))"
    by (simp add: dial_inv_def abs_world_def)
  then have "sd_released (gw_dialer w) \<subseteq> {i. ms_isClosed M (sd_heap (gw_dialer w) ! i)}"
    by (auto simp: dialer_ok_def abs_dialer_def)
  with dialer_ok_no_leak [OF ok] show ?thesis by (auto simp: abs_dialer_def)
qed

end

section \<open>Where streams come from\<close>

text \<open>
  Every session in the heap was returned by \<^verbatim>\<open>connect\<close>, and every stream that \<^verbatim>\<open>Dial\<close> returned was opened on one of them.
\<close>

definition go_inv :: "('x, 't) muxSession \<Rightarrow> ('e + 'x \<Rightarrow> bool) \<Rightarrow> ('x, 'e, 't) go_world \<Rightarrow> bool" where
  "go_inv M connects w \<longleftrightarrow>
     length (sd_origin (gw_dialer w)) = length (sd_heap (gw_dialer w))
     \<and> (\<forall>x \<in> set (sd_origin (gw_dialer w)). connects (Inr x))
     \<and> (\<forall>i. sd_cur (gw_dialer w) = Some i \<longrightarrow> i < length (sd_heap (gw_dialer w)))
     \<and> (\<forall>g n i. gw_pcs w g = Some (GOpening n i) \<longrightarrow> i < length (sd_heap (gw_dialer w)))
     \<and> (\<forall>g i st. gw_pcs w g = Some (GReturned (Inr (i, st))) \<longrightarrow>
          i < length (sd_heap (gw_dialer w)) \<and> (\<exists>x x'. ms_open M x = Some (Inr st, x')))"

lemma sd_drop_simps [simp]:
  "length (sd_heap (sd_drop M d)) = length (sd_heap d)" "sd_origin (sd_drop M d) = sd_origin d" "sd_cur (sd_drop M d) = None"
  by (auto simp: sd_drop_def split: option.splits)

lemma sd_session_origin:
  assumes "sd_session M res d = (r, d')" and "\<forall>i. sd_cur d = Some i \<longrightarrow> i < length (sd_heap d)"
    and "length (sd_origin d) = length (sd_heap d)"
  shows "length (sd_heap d) \<le> length (sd_heap d') \<and> length (sd_origin d') = length (sd_heap d')
    \<and> (\<forall>x \<in> set (sd_origin d'). x \<in> set (sd_origin d) \<or> res = Inr x)
    \<and> (\<forall>i. r = Inr i \<or> sd_cur d' = Some i \<longrightarrow> i < length (sd_heap d'))"
  using assms by (auto simp: sd_session_def sd_connect_def split: if_splits option.splits sum.splits)

lemma go_inv_step: "go_step M connects w w' \<Longrightarrow> go_inv M connects w \<Longrightarrow> go_inv M connects w'"
proof (induction rule: go_step.induct)
  case (go_no_session w g n lastErr res e d)
  with sd_session_origin [OF go_no_session.hyps(3)] show ?case
    unfolding go_inv_def by (auto; meson less_le_trans)
next
  case (go_got_session w g n lastErr res i d)
  with sd_session_origin [OF go_got_session.hyps(3)] show ?case
    unfolding go_inv_def by (auto; meson less_le_trans)
next
  case (go_discards w g n i e)
  then show ?case by (auto simp: go_inv_def sd_discard_def)
next
  case (go_closes w)
  then show ?case by (auto simp: go_inv_def sd_Close_def)
qed (auto simp: go_inv_def)

interpretation go: invariant_system go_init "go_step M connects" "go_inv M connects" for M connects
proof
  show "go_init w \<Longrightarrow> go_inv M connects w" for w by (simp add: go_init_def go_inv_def sd_new_def)
  show "go_inv M connects w \<Longrightarrow> go_step M connects w w' \<Longrightarrow> go_inv M connects w'" for w w' by (rule go_inv_step)
qed

section \<open>The client's dialer\<close>

text \<open>The two implementations of \<^verbatim>\<open>muxSession\<close>, and the methods by dynamic dispatch.\<close>

datatype ('x, 'q) session_object = SmuxSession 'x | QuicSession 'q
datatype ('t, 's) session_stream = StreamOfSmux "'t muxStream" | StreamOfQuic 's

definition client_sessions ::
  "'s conn_ops \<Rightarrow> entropy \<Rightarrow> ('x, 't, 's) smux_lib \<Rightarrow> ('q, 's, 'c) quic_lib \<Rightarrow>
     (('x, 'q) session_object, ('t, 's) session_stream) muxSession" where
  "client_sessions ops g L Q =
     \<lparr>ms_open = (\<lambda>x. case x of
        SmuxSession s \<Rightarrow> (case smuxSession_open L s of (r, s') \<Rightarrow> Some (map_sum id StreamOfSmux r, SmuxSession s'))
      | QuicSession q \<Rightarrow> (case quicSession_open ops g Q q of
            None \<Rightarrow> None
          | Some (r, q') \<Rightarrow> Some (map_sum id StreamOfQuic r, QuicSession q'))),
      ms_isClosed = (\<lambda>x. case x of SmuxSession s \<Rightarrow> smuxSession_isClosed L s | QuicSession q \<Rightarrow> quicSession_isClosed Q q),
      ms_close = (\<lambda>x. case x of SmuxSession s \<Rightarrow> SmuxSession (smuxSession_close L s)
                             | QuicSession q \<Rightarrow> QuicSession (quicSession_close Q q))\<rparr>"

lemma smuxSession_open_state: "smuxSession_open L x = (r, x') \<Longrightarrow> x' = snd (sx_OpenStream L x)"
  by (auto simp: smuxSession_open_def split: prod.splits sum.splits)

lemma quicSession_open_state: "quicSession_open ops g Q q = Some (r, q') \<Longrightarrow> q' = snd (qc_OpenStreamSync Q q)"
  by (auto simp: quicSession_open_def split: prod.splits sum.splits option.splits)

text \<open>
  What the two libraries promise about closing: a session or connection that was closed says so, and opening a stream
  does not bring a closed one back.
\<close>

locale session_libraries =
  fixes L :: "('x, 't, 's) smux_lib"
    and Q :: "('q, 's, 'c) quic_lib"
  assumes smux_close: "sx_IsClosed L (sx_Close L x)"
    and smux_open: "sx_IsClosed L x \<Longrightarrow> sx_IsClosed L (snd (sx_OpenStream L x))"
    and quic_close: "qc_ContextErr Q (qc_CloseWithError Q q) \<noteq> None"
    and quic_open: "qc_ContextErr Q q \<noteq> None \<Longrightarrow> qc_ContextErr Q (snd (qc_OpenStreamSync Q q)) \<noteq> None"

sublocale session_libraries \<subseteq> sessions: mux_sessions "client_sessions ops g L Q" for ops g
proof
  show "ms_isClosed (client_sessions ops g L Q) (ms_close (client_sessions ops g L Q) x)" for x
    using smux_close quic_close
    by (cases x) (simp_all add: client_sessions_def smuxSession_isClosed_def smuxSession_close_def
        quicSession_isClosed_def quicSession_close_def)
  show "ms_isClosed (client_sessions ops g L Q) x'"
    if "ms_isClosed (client_sessions ops g L Q) x" "ms_open (client_sessions ops g L Q) x = Some (r, x')" for x r x'
    using that smux_open quic_open
    by (cases x) (auto simp: client_sessions_def smuxSession_isClosed_def quicSession_isClosed_def
        dest: smuxSession_open_state quicSession_open_state split: prod.splits option.splits)
qed

context session_libraries
begin

lemma client_mux_sessions: "mux_sessions (client_sessions ops g L Q)"
  by (rule sessions.mux_sessions_axioms)

end

text \<open>
  The function that \<^verbatim>\<open>newDialer\<close> hands to \<^verbatim>\<open>newSessionDialer\<close>, and the one behind \<^verbatim>\<open>dialerFunc\<close>.
\<close>

definition client_connect ::
  "'s conn_ops \<Rightarrow> ('s, 'b, 'p, 'c) carriers \<Rightarrow> ('x, 't, 's) smux_lib \<Rightarrow> ('q, 's, 'c) quic_lib \<Rightarrow> ('p, 'c) client \<Rightarrow> entropy \<Rightarrow>
     (carrier_error + ('x, 'q) session_object) option" where
  "client_connect ops ca L Q c g =
     (if newDialer c = SessionQUIC
      then map_option (\<lambda>(r, _). map_sum id QuicSession r) (connectQUIC ops g Q c)
      else map_option (\<lambda>(r, _). map_sum id (SmuxSession \<circ> sx_Client L) r) (connectMux ops ca g c))"

text \<open>
  What \<^verbatim>\<open>connect\<close> may return during a run of the client: the network may answer every attempt differently, in any of the
  ways in \<open>nets\<close>, each a behaviour of the carriers and of dialling QUIC.
\<close>

definition may_connect ::
  "'s conn_ops \<Rightarrow> (('s, 'b, 'p, 'c) carriers \<times> (string \<Rightarrow> 'c tls_config option \<Rightarrow> quic_config \<Rightarrow> io_error + 'q)) set \<Rightarrow>
     ('x, 't, 's) smux_lib \<Rightarrow> ('q, 's, 'c) quic_lib \<Rightarrow> ('p, 'c) client \<Rightarrow> carrier_error + ('x, 'q) session_object \<Rightarrow> bool" where
  "may_connect ops nets L Q c res \<longleftrightarrow>
     (\<exists>(ca, dial) \<in> nets. \<exists>g. client_connect ops ca L (Q\<lparr>qc_DialAddr := dial\<rparr>) c g = Some res)"

definition client_dial_once ::
  "'s conn_ops \<Rightarrow> ('s, 'b, 'p, 'c) carriers \<Rightarrow> ('p, 'c) client \<Rightarrow> entropy \<Rightarrow> (carrier_error + 's) option" where
  "client_dial_once ops ca c = dialerFunc_Dial (\<lambda>g. map_option fst (dialAuthenticated ops ca g c))"

text \<open>A connection, or a session, of a server that proved knowledge of the token to this client.\<close>

definition carrier_proved ::
  "('s \<Rightarrow> bytes) \<Rightarrow> 's conn_ops \<Rightarrow> ('s, 'b, 'p, 'c) carriers \<Rightarrow> ('p, 'c) client \<Rightarrow> 's \<Rightarrow> bool" where
  "carrier_proved content ops ca c conn \<longleftrightarrow> (\<exists>g raw. fst (dialCarrier ops ca c) = Inr raw
     \<and> server_proved (co_Token (cl_opts c)) g (content raw) (content conn))"

definition session_proved ::
  "('s \<Rightarrow> bytes) \<Rightarrow> 's conn_ops \<Rightarrow> ('s, 'b, 'p, 'c) carriers \<Rightarrow> ('x, 't, 's) smux_lib \<Rightarrow> ('q, 's, 'c) quic_lib \<Rightarrow> ('p, 'c) client \<Rightarrow>
     ('x, 'q) session_object \<Rightarrow> bool" where
  "session_proved content ops ca L Q c x \<longleftrightarrow>
     (case x of
        SmuxSession sess \<Rightarrow> newDialer c = SessionMux \<and> (\<exists>conn. sess = sx_Client L conn \<and> carrier_proved content ops ca c conn)
      | QuicSession conn \<Rightarrow> newDialer c = SessionQUIC
          \<and> (\<exists>g conn0 raw rest. qc_DialAddr Q (co_ServerAddr (cl_opts c)) (cl_tls c) quicConfig = Inr conn0
               \<and> qc_OpenStreamSync Q conn0 = (Inr raw, conn) \<and> server_proved (co_Token (cl_opts c)) g (content raw) rest))"

lemma map_sum_eq_Inr: "map_sum f h x = Inr y \<longleftrightarrow> (\<exists>z. x = Inr z \<and> y = h z)"
  by (cases x) auto

context connection
begin

lemma client_connect_proved:
  assumes "client_connect ops ca L Q c g = Some (Inr x)" and "newDialer c \<noteq> PerConnection"
  shows "session_proved content ops ca L Q c x"
proof (cases "newDialer c = SessionQUIC")
  case True
  with assms(1) obtain conn closed where "x = QuicSession conn" "connectQUIC ops g Q c = Some (Inr conn, closed)"
    by (auto simp: client_connect_def map_sum_eq_Inr)
  with True connectQUIC_cases [of g Q c] show ?thesis by (fastforce simp: session_proved_def)
next
  case False
  with assms(2) have mux: "newDialer c = SessionMux" by (cases "newDialer c") auto
  from False assms(1) obtain conn closed where "x = SmuxSession (sx_Client L conn)" "connectMux ops ca g c = Some (Inr conn, closed)"
    by (auto simp: client_connect_def map_sum_eq_Inr)
  with mux connectMux_cases [of ca g c] show ?thesis by (fastforce simp: session_proved_def carrier_proved_def)
qed

lemma client_dial_once_proved:
  "client_dial_once ops ca c g = Some (Inr conn) \<Longrightarrow> carrier_proved content ops ca c conn"
  using dialAuthenticated_cases [of ca g c]
  by (fastforce simp: client_dial_once_def dialerFunc_Dial_def carrier_proved_def)

end

section \<open>A scripted library\<close>

text \<open>An smux session as its closed flag and the number of streams opened on it, and a run of \<^verbatim>\<open>Dial\<close> over it.\<close>

definition demo_smux :: "(bool \<times> nat, nat, conn) smux_lib" where
  "demo_smux = \<lparr>sx_Client = \<lambda>_. (False, 0),
     sx_OpenStream = (\<lambda>(closed, n). if closed then (Inl ErrClosed, (closed, n)) else (Inr n, (closed, Suc n))),
     sx_IsClosed = fst, sx_Close = (\<lambda>(_, n). (True, n))\<rparr>"

interpretation demo_libs: session_libraries demo_smux demo_quic
  by unfold_locales (auto simp: demo_smux_def demo_quic_def split: if_splits)

abbreviation demo_sessions ::
  "((bool \<times> nat, nat \<times> bool) session_object, (nat, conn) session_stream) muxSession" where
  "demo_sessions \<equiv> client_sessions net_ops (Inr (\<lambda>_. 1)) demo_smux demo_quic"

abbreviation demo_connects :: "carrier_error + (bool \<times> nat, nat \<times> bool) session_object \<Rightarrow> bool" where
  "demo_connects \<equiv> may_connect net_ops {(demo_carriers, qc_DialAddr demo_quic)} demo_smux demo_quic (demo_client TCPMux)"

type_synonym demo_world = "((bool \<times> nat, nat \<times> bool) session_object, carrier_error, (nat, conn) session_stream) go_world"

definition demo_returned :: demo_world where
  "demo_returned = \<lparr>gw_dialer = \<lparr>sd_cur = Some 0, sd_closed = False, sd_heap = [SmuxSession (False, 1)],
       sd_origin = [SmuxSession (False, 0)], sd_released = {}\<rparr>,
     gw_pcs = [0 \<mapsto> GReturned (Inr (0, StreamOfSmux (MuxStreamOf 0)))]\<rparr>"

lemma demo_newDialer: "newDialer (demo_client TCPMux) = SessionMux"
  by (simp add: newDialer_def demo_client_def Mux_def proto_names)

lemma demo_connects_session: "demo_connects (Inr (SmuxSession (False, 0)))"
proof -
  obtain c' where "run_io net_ops (Inr (\<lambda>_. 1)) (clientHandshake demo_token) demo_server_stream = Some (None, c')"
    using demo_client_handshake by blast
  then have "connectMux net_ops demo_carriers (Inr (\<lambda>_. 1)) (demo_client TCPMux) = Some (Inr c', None)"
    by (simp add: connectMux_def dialAuthenticated_def dialCarrier_def demo_client_def demo_carriers_def
        WebSocket_def proto_names)
  then show ?thesis
    by (auto simp: may_connect_def intro!: exI [of _ "Inr (\<lambda>_. 1)"])
      (simp add: client_connect_def demo_newDialer demo_smux_def)
qed

lemma demo_returned_reach: "reach go_init (go_step demo_sessions demo_connects) demo_returned"
proof -
  let ?step = "go_step demo_sessions demo_connects"
  let ?d = "\<lparr>sd_cur = Some 0, sd_closed = False, sd_heap = [SmuxSession (False, 0)], sd_origin = [SmuxSession (False, 0)],
      sd_released = {}\<rparr>"
  let ?w0 = "\<lparr>gw_dialer = sd_new, gw_pcs = Map.empty\<rparr> :: demo_world"
  let ?w1 = "?w0\<lparr>gw_pcs := (gw_pcs ?w0)(0 \<mapsto> GWants 2 None)\<rparr>"
  let ?w2 = "\<lparr>gw_dialer = ?d, gw_pcs = (gw_pcs ?w1)(0 \<mapsto> GOpening 1 0)\<rparr>"
  have "reach go_init ?step ?w0" by (rule reach_init) (simp add: go_init_def)
  moreover have "?step ?w0 ?w1" by (rule go_start) simp
  moreover have "sd_session demo_sessions (Inr (SmuxSession (False, 0)) :: carrier_error + _) (gw_dialer ?w1) = (Inr 0, ?d)"
    by (simp add: sd_session_def sd_new_def sd_connect_def)
  then have "?step ?w1 ?w2"
    using go_got_session [of ?w1 0 1 None demo_connects "Inr (SmuxSession (False, 0))" demo_sessions 0 ?d]
      demo_connects_session by (simp add: numeral_2_eq_2)
  moreover have "ms_open demo_sessions (sd_heap (gw_dialer ?w2) ! 0) =
      Some (Inr (StreamOfSmux (MuxStreamOf 0)), SmuxSession (False, 1))"
    by (simp add: client_sessions_def smuxSession_open_def demo_smux_def)
  then have "?step ?w2 demo_returned"
    using go_opened [of ?w2 0 1 0 demo_sessions "StreamOfSmux (MuxStreamOf 0)" "SmuxSession (False, 1)" demo_connects]
    by (simp add: demo_returned_def)
  ultimately show ?thesis by (meson reach_step)
qed

section \<open>Properties\<close>

text \<open>
  C6. Every stream of the client leads to an authenticated server. For each protocol and over every carrier that keeps the
  connection contract: a connection that \<^verbatim>\<open>Dial\<close> returns for a protocol without sessions is one whose server proved
  knowledge of the token; and in every interleaving of goroutines that dial, open, discard and close sessions, a stream
  that \<^verbatim>\<open>Dial\<close> returned for a protocol with sessions was opened on a session whose connection was proved in that way,
  an smux session for the multiplexed protocols and a QUIC connection for \<^verbatim>\<open>quic\<close>, however the network answers
  each attempt to connect.
\<close>

theorem client_streams_authenticated:
  assumes conn: "connection ops content final todo sent reliable"
  shows "(client_dial_once ops ca c g = Some (Inr st) \<longrightarrow> carrier_proved content ops ca c st)
    \<and> (newDialer c \<noteq> PerConnection
        \<and> reach go_init (go_step (client_sessions ops g L Q) (may_connect ops nets L Q c)) w
        \<and> gw_pcs w h = Some (GReturned (Inr (i, stream))) \<longrightarrow>
        i < length (sd_origin (gw_dialer w))
        \<and> (\<exists>(ca, dial) \<in> nets. session_proved content ops ca L (Q\<lparr>qc_DialAddr := dial\<rparr>) c (sd_origin (gw_dialer w) ! i))
        \<and> (\<exists>x x'. ms_open (client_sessions ops g L Q) x = Some (Inr stream, x')))"
proof ((rule conjI; rule impI), goal_cases)
  case 1
  then show ?case by (rule connection.client_dial_once_proved [OF conn])
next
  case 2
  let ?M = "client_sessions ops g L Q" and ?C = "may_connect ops nets L Q c"
  from 2 have "go_inv ?M ?C w" by (blast intro: go.inv_reach)
  with 2 have i: "i < length (sd_origin (gw_dialer w))" and st: "\<exists>x x'. ms_open ?M x = Some (Inr stream, x')"
    and o: "\<forall>x \<in> set (sd_origin (gw_dialer w)). ?C (Inr x)" by (auto simp: go_inv_def)
  from o i have "?C (Inr (sd_origin (gw_dialer w) ! i))" by (meson nth_mem)
  with 2 have "\<exists>(ca, dial) \<in> nets. session_proved content ops ca L (Q\<lparr>qc_DialAddr := dial\<rparr>) c (sd_origin (gw_dialer w) ! i)"
    unfolding may_connect_def by (blast intro: connection.client_connect_proved [OF conn])
  with i st show ?case by blast
qed

theorem client_streams_authenticated_witness:
  "session_proved conn_content net_ops demo_carriers demo_smux demo_quic (demo_client TCPMux) (SmuxSession (False, 0))"
proof -
  have "newDialer (demo_client TCPMux) \<noteq> PerConnection" by (simp add: demo_newDialer)
  moreover have "gw_pcs demo_returned 0 = Some (GReturned (Inr (0, StreamOfSmux (MuxStreamOf 0))))"
    by (simp add: demo_returned_def)
  ultimately have "\<exists>(ca, dial) \<in> {(demo_carriers, qc_DialAddr demo_quic)}. session_proved conn_content net_ops ca demo_smux
      (demo_quic\<lparr>qc_DialAddr := dial\<rparr>) (demo_client TCPMux) (sd_origin (gw_dialer demo_returned) ! 0)"
    using client_streams_authenticated [OF netc.connection_axioms, where w = demo_returned] demo_returned_reach by blast
  then show ?thesis by (simp add: demo_returned_def)
qed

text \<open>
  C8. The dialer over real sessions implements the abstract one. For smux sessions and QUIC connections alike, given that a
  closed session says so and stays closed: each critical section has the effect that theory \<open>Session\<close> gives it on what can be
  seen of the sessions, except that a session may die at any time, and every state that goroutines can reach over the
  objects is one that they can reach there. Hence every session ever connected is the current one or has been closed by
  the dialer, and a closed dialer has none.
\<close>

theorem dialer_objects_refine:
  assumes lib: "session_libraries L Q"
  shows "(sd_ok d \<longrightarrow> abs_dialer (client_sessions ops g L Q) (sd_discard (client_sessions ops g L Q) i d) =
             discard i (abs_dialer (client_sessions ops g L Q) d)
           \<and> abs_dialer (client_sessions ops g L Q) (sd_Close (client_sessions ops g L Q) d) =
             Close (abs_dialer (client_sessions ops g L Q) d))
    \<and> (reach go_init (go_step (client_sessions ops g L Q) connects) w \<longrightarrow>
        reach dial_init dial_step (abs_world (client_sessions ops g L Q) w)
        \<and> (\<forall>i < length (sd_heap (gw_dialer w)). sd_cur (gw_dialer w) = Some i
             \<or> (i \<in> sd_released (gw_dialer w) \<and> ms_isClosed (client_sessions ops g L Q) (sd_heap (gw_dialer w) ! i)))
        \<and> (sd_closed (gw_dialer w) \<longrightarrow> sd_cur (gw_dialer w) = None))"
proof -
  have "mux_sessions (client_sessions ops g L Q)" by (rule session_libraries.client_mux_sessions [OF lib])
  note M = mux_sessions.abs_discard [OF this] mux_sessions.abs_Close [OF this] mux_sessions.go_reach_simulated [OF this]
    mux_sessions.go_no_leak [OF this]
  from M(1,2) M(3) [of connects w] M(4) [of connects w] show ?thesis by blast
qed

theorem dialer_objects_refine_witness:
  "reach dial_init dial_step (abs_world demo_sessions demo_returned)"
  using dialer_objects_refine [OF demo_libs.session_libraries_axioms] demo_returned_reach by blast

end
