(* ===== verification/Udp_Shutdown.thy ===== *)
theory Udp_Shutdown
  imports Udp_Relay
begin

text \<open>
  How the datagram relay of \<^verbatim>\<open>internal/transport/udp.go\<close> comes to an end once its context is cancelled: the hook closes the
  listener, \<^verbatim>\<open>run\<close> returns and closes every session of the map, each \<^verbatim>\<open>pump\<close> sees its socket closed and removes itself, and
  the sweeper finishes its list and stops.
\<close>

section \<open>The tasks of a relay that shuts down\<close>

text \<open>
  What each goroutine still has to do, by goroutine: the hook closes the listener, the loop of \<^verbatim>\<open>run\<close> forwards what it
  holds and returns when the listener is closed, the sweeper closes the sessions on its list and takes the context's
  case of its \<^verbatim>\<open>select\<close>, and the pump of a session leaves when its socket is closed. These are steps of the relay.
\<close>

datatype relay_task = Hook | RunLoop | ExpireList | StopSweep | Pump nat

inductive udp_task :: "relay_task \<Rightarrow> udpRelay \<Rightarrow> udpRelay \<Rightarrow> bool" where
  closing_listener: "close_started r \<Longrightarrow> listener_open r \<Longrightarrow> udp_task Hook r (r\<lparr>listener_open := False\<rparr>)"
| closing_forward: "run_at r = Forwarding i payload \<Longrightarrow> udp_task RunLoop r (udp_forward now write_ok i payload r)"
| closing_return: "run_at r = Reading \<Longrightarrow> \<not> listener_open r \<Longrightarrow> udp_task RunLoop r (udp_return ErrClosed r)"
| closing_pump: "i < length (store r) \<Longrightarrow> us_pump (store r ! i) = Pumping \<Longrightarrow> \<not> us_open (store r ! i) \<Longrightarrow>
    udp_task (Pump i) r (udp_remove i r)"
| closing_removed: "i < length (store r) \<Longrightarrow> us_pump (store r ! i) = Removed \<Longrightarrow> udp_task (Pump i) r (udp_remove_close i r)"
| closing_expire: "sweep_at r = Expiring idle \<Longrightarrow> udp_task ExpireList r (udp_expire idle r)"
| closing_sweep: "sweep_at r = Ticking \<Longrightarrow> udp_ctx_done r \<Longrightarrow> udp_task StopSweep r (r\<lparr>sweep_at := Stopped\<rparr>)"

lemma task_is_step: "udp_task a r r' \<Longrightarrow> udp_step up down r r'"
  by (induction rule: udp_task.induct) (auto intro: udp_step.intros)

abbreviation udp_closing :: "udpRelay \<Rightarrow> udpRelay \<Rightarrow> bool" where
  "udp_closing r r' \<equiv> \<exists>a. udp_task a r r'"

lemma closing_run: "udp_closing\<^sup>*\<^sup>* r r' \<Longrightarrow> (udp_step up down)\<^sup>*\<^sup>* r r'"
  by (induction rule: rtranclp_induct) (auto intro: rtranclp.rtrancl_into_rtrancl task_is_step)

section \<open>Cancellation\<close>

text \<open>
  Once the hook has started the context is done, and a \<^verbatim>\<open>run\<close> that has returned has returned nil: had it returned before,
  the hook would have been stopped.
\<close>

definition cancel_ok :: "udpRelay \<Rightarrow> bool" where
  "cancel_ok r \<longleftrightarrow> (close_started r \<longrightarrow> udp_ctx_done r \<and> (\<forall>x. run_at r = Finished x \<longrightarrow> x = None))"

lemma closeAll_flags [simp]:
  "run_at (udp_closeAll r) = run_at r" "sweep_at (udp_closeAll r) = sweep_at r"
  "udp_ctx_done (udp_closeAll r) = udp_ctx_done r" "close_started (udp_closeAll r) = close_started r"
  "listener_open (udp_closeAll r) = listener_open r"
  using udp_closeAll_simps [of r] by simp_all

lemmas udp_flag_ops = udp_receive_def udp_session_def udp_forward_def udp_return_def udp_pump_def udp_remove_def
  udp_remove_close_def udp_sweep_def udp_expire_def udp_cancel_def udp_touch_def close_upstream_def Let_def

lemma cancel_ok_step: "udp_step up down r r' \<Longrightarrow> cancel_ok r \<Longrightarrow> cancel_ok r'"
  by (induction rule: udp_step.induct)
    (auto simp: cancel_ok_def udp_flag_ops split: option.splits list.splits run_pc.splits)

lemma closing_keeps:
  "udp_task a r r' \<Longrightarrow> udp_ctx_done r' = udp_ctx_done r \<and> close_started r' = close_started r"
  by (induction rule: udp_task.induct) (auto simp: udp_flag_ops split: list.splits)

interpretation udp_cancelling: invariant_system udp_init "udp_step up down" cancel_ok for up down
proof
  show "udp_init r \<Longrightarrow> cancel_ok r" for r by (simp add: udp_init_def udp_start_def cancel_ok_def)
  show "cancel_ok r \<Longrightarrow> udp_step up down r r' \<Longrightarrow> cancel_ok r'" for r r' by (rule cancel_ok_step)
qed

section \<open>Progress of the shutdown\<close>

fun pump_rank :: "pump_pc \<Rightarrow> nat" where
  "pump_rank Pumping = 2"
| "pump_rank Removed = 1"
| "pump_rank Ended = 0"

fun run_pc_rank :: "run_pc \<Rightarrow> nat" where
  "run_pc_rank (Forwarding _ _) = 2"
| "run_pc_rank Reading = 1"
| "run_pc_rank (Finished _) = 0"

fun sweep_rank :: "sweep_pc \<Rightarrow> nat" where
  "sweep_rank (Expiring idle) = length idle + 2"
| "sweep_rank Ticking = 1"
| "sweep_rank Stopped = 0"

definition pumps_rank :: "udpRelay \<Rightarrow> nat" where
  "pumps_rank r = sum_list (map (\<lambda>s. pump_rank (us_pump s)) (store r))"

definition closing_rank :: "udpRelay \<Rightarrow> nat" where
  "closing_rank r = pumps_rank r + run_pc_rank (run_at r) + sweep_rank (sweep_at r) + (if listener_open r then 1 else 0)"

lemma pumps_rank_same: "(\<And>s. us_pump (f s) = us_pump s) \<Longrightarrow> pumps_rank (upd_session i f r) = pumps_rank r"
  using list_update_id [of "map (\<lambda>s. pump_rank (us_pump s)) (store r)" i]
  by (cases "i < length (store r)") (simp_all add: pumps_rank_def upd_session_def map_update list_update_beyond)

lemma pumps_rank_frame [simp]:
  "pumps_rank (r\<lparr>listener_open := b\<rparr>) = pumps_rank r" "pumps_rank (r\<lparr>run_at := pc\<rparr>) = pumps_rank r"
  "pumps_rank (r\<lparr>sweep_at := sw\<rparr>) = pumps_rank r" "pumps_rank (r\<lparr>sessions := m\<rparr>) = pumps_rank r"
  "pumps_rank (r\<lparr>forwarded := fw\<rparr>) = pumps_rank r"
  by (simp_all add: pumps_rank_def)

lemma pumps_rank_close [simp]: "pumps_rank (close_upstream i r) = pumps_rank r"
  by (simp add: close_upstream_def pumps_rank_same)

lemma pumps_rank_closeAll [simp]: "pumps_rank (udp_closeAll r) = pumps_rank r"
proof -
  have "pumps_rank (fold close_upstream is r) = pumps_rank r" for "is" r by (induction "is" arbitrary: r) simp_all
  then show ?thesis by (simp add: udp_closeAll_def)
qed

lemma pumps_rank_less:
  assumes "i < length (store r)" and "pump_rank (us_pump (f (store r ! i))) < pump_rank (us_pump (store r ! i))"
  shows "pumps_rank (upd_session i f r) < pumps_rank r"
proof -
  let ?m = "map (\<lambda>s. pump_rank (us_pump s)) (store r)"
  have "?m ! i \<le> sum_list ?m" using assms(1) by (intro elem_le_sum_list) simp
  moreover have "sum_list (?m[i := x]) = sum_list ?m + x - ?m ! i" for x using assms(1) by (intro sum_list_update) simp
  ultimately show ?thesis using assms by (simp add: pumps_rank_def upd_session_def map_update)
qed

lemma closing_decreases: "udp_task a r r' \<Longrightarrow> closing_rank r' < closing_rank r"
proof (induction rule: udp_task.induct)
  case (closing_forward r i payload now write_ok)
  then show ?case by (simp add: closing_rank_def udp_forward_def udp_touch_def pumps_rank_same Let_def)
next
  case (closing_pump i r)
  let ?f = "\<lambda>s. s\<lparr>us_pump := Removed\<rparr>"
  have "pumps_rank (upd_session i ?f r') < pumps_rank r'" if "store r' = store r" for r'
    using closing_pump that by (intro pumps_rank_less) simp_all
  from this [of r] this [of "r\<lparr>sessions := filter (\<lambda>(p, _). p \<noteq> us_peer (store r ! i)) (sessions r)\<rparr>"] show ?case
    by (simp add: closing_rank_def udp_remove_def Let_def)
next
  case (closing_removed i r)
  then have "pumps_rank (upd_session i (\<lambda>s. s\<lparr>us_pump := Ended\<rparr>) (close_upstream i r)) < pumps_rank (close_upstream i r)"
    by (intro pumps_rank_less) (simp_all add: close_upstream_def upd_session_nth)
  then show ?case by (simp add: closing_rank_def udp_remove_close_def close_upstream_def pumps_rank_same)
next
  case (closing_expire r idle)
  then show ?case by (cases idle) (simp_all add: closing_rank_def udp_expire_def close_upstream_def pumps_rank_same)
qed (simp_all add: closing_rank_def udp_return_def)

text \<open>The relay has come to its end: every goroutine has returned and every socket is closed.\<close>

definition relay_closed :: "udpRelay \<Rightarrow> bool" where
  "relay_closed r \<longleftrightarrow> run_at r = Finished None \<and> sweep_at r = Stopped \<and> \<not> listener_open r \<and> sessions r = []
     \<and> (\<forall>s \<in> set (store r). us_pump s = Ended \<and> \<not> us_open s)"

definition closing_inv :: "datagramFilter \<Rightarrow> datagramFilter \<Rightarrow> udpRelay \<Rightarrow> bool" where
  "closing_inv up down r \<longleftrightarrow> udp_inv up down r \<and> cancel_ok r \<and> close_started r"

lemma closing_enabled:
  assumes inv: "closing_inv up down r" and "\<not> relay_closed r"
  shows "\<exists>r'. udp_closing r r'"
proof (rule ccontr)
  assume stuck: "\<not> ?thesis"
  from inv have ok: "map_ok r" "sockets_ok r" "udp_ctx_done r" "close_started r" "\<forall>x. run_at r = Finished x \<longrightarrow> x = None"
    by (auto simp: closing_inv_def udp_inv_def cancel_ok_def)
  with stuck have l: "\<not> listener_open r" using closing_listener by blast
  from stuck ok(3) have sw: "sweep_at r = Stopped"
    using closing_expire closing_sweep by (cases "sweep_at r") blast+
  from stuck l have "\<exists>x. run_at r = Finished x"
    using closing_forward closing_return by (cases "run_at r") blast+
  with ok have run: "run_at r = Finished None" "sessions r = []" by (auto simp: map_ok_def)
  have "us_pump (store r ! i) = Ended \<and> \<not> us_open (store r ! i)" if i: "i < length (store r)" for i
  proof -
    have "us_pump (store r ! i) \<noteq> Removed" using stuck i closing_removed by blast
    with ok(2) i run(2) sw have "\<not> us_open (store r ! i)" by (auto simp: sockets_ok_def expiring_def)
    with stuck i closing_pump \<open>us_pump (store r ! i) \<noteq> Removed\<close> show ?thesis by (cases "us_pump (store r ! i)") blast+
  qed
  then have "relay_closed r" using run sw l by (auto simp: relay_closed_def in_set_conv_nth)
  with assms(2) show False ..
qed

interpretation shutdown: terminating_system "\<lambda>r. reach udp_init (udp_step up down) r \<and> close_started r" udp_closing
  "closing_inv up down" closing_rank relay_closed for up down
proof
  show "reach udp_init (udp_step up down) r \<and> close_started r \<Longrightarrow> closing_inv up down r" for r
    using udp.inv_reach udp_cancelling.inv_reach by (auto simp: closing_inv_def)
  show "closing_inv up down r \<Longrightarrow> udp_closing r r' \<Longrightarrow> closing_inv up down r'" for r r'
    using udp_inv_step cancel_ok_step task_is_step closing_keeps unfolding closing_inv_def by blast
  show "closing_inv up down r \<Longrightarrow> udp_closing r r' \<Longrightarrow> closing_rank r' < closing_rank r" for r r'
    using closing_decreases by blast
  show "closing_inv up down r \<Longrightarrow> \<not> relay_closed r \<Longrightarrow> \<exists>r'. udp_closing r r'" for r by (rule closing_enabled)
qed

section \<open>Every fair run\<close>

text \<open>What the steps of the relay can and cannot undo.\<close>

lemma step_flags:
  "udp_step up down r r' \<Longrightarrow> (close_started r \<longrightarrow> close_started r') \<and> (listener_open r' \<longrightarrow> listener_open r)
     \<and> (sweep_at r = Stopped \<longrightarrow> sweep_at r' = Stopped)"
  by (induction rule: udp_step.induct) (auto simp: udp_flag_ops split: option.splits list.splits)

lemma step_run_pc:
  "udp_step up down r r' \<Longrightarrow> \<not> listener_open r \<Longrightarrow>
     run_pc_rank (run_at r') \<le> run_pc_rank (run_at r) \<and> length (store r') = length (store r)"
  by (induction rule: udp_step.induct)
    (auto simp: udp_flag_ops udp_closeAll_simps split: option.splits list.splits)

lemma step_sweep:
  "udp_step up down r r' \<Longrightarrow> sweep_at r = Expiring idle \<Longrightarrow> sweep_rank (sweep_at r') \<le> sweep_rank (sweep_at r)"
  by (induction rule: udp_step.induct) (auto simp: udp_flag_ops split: option.splits list.splits)

lemma upd_pump_nth:
  "(\<And>s. us_pump (f s) = us_pump s) \<Longrightarrow> us_pump (store (upd_session i f r) ! j) = us_pump (store r ! j)"
  by (cases "i < length (store r)") (simp_all add: upd_session_def nth_list_update list_update_beyond)

lemma closeAll_pump: "us_pump (store (udp_closeAll r) ! j) = us_pump (store r ! j)"
proof -
  have "us_pump (store (fold close_upstream is r) ! j) = us_pump (store r ! j)" for "is" r
    by (induction "is" arbitrary: r) (simp_all add: close_upstream_def upd_pump_nth)
  then show ?thesis by (simp add: udp_closeAll_def)
qed

lemma step_pump:
  "udp_step up down r r' \<Longrightarrow> j < length (store r) \<Longrightarrow> pump_rank (us_pump (store r' ! j)) \<le> pump_rank (us_pump (store r ! j))"
proof (induction rule: udp_step.induct)
  case (receives r now dial_err peer pkt)
  then show ?case by (auto simp: udp_receive_def udp_session_def Let_def nth_append split: option.splits)
next
  case (pumps i r now write_ok pkt)
  then show ?case by (auto simp: udp_pump_def udp_touch_def upd_pump_nth Let_def split: option.splits)
next
  case (pump_fails i r)
  then show ?case by (cases "i = j") (simp_all add: udp_remove_def upd_session_nth Let_def)
next
  case (pump_ends i r)
  then show ?case by (cases "i = j") (simp_all add: udp_remove_close_def upd_session_nth close_upstream_def)
next
  case (expires r idle)
  then show ?case by (cases idle) (simp_all add: udp_expire_def close_upstream_def upd_pump_nth)
qed (simp_all add: udp_forward_def udp_touch_def upd_pump_nth udp_return_def closeAll_pump udp_sweep_def udp_cancel_def Let_def)

text \<open>The tasks lower what they work on.\<close>

lemma task_lowers:
  assumes "udp_task a r r'"
  shows "a = Hook \<Longrightarrow> \<not> listener_open r'"
    and "a = RunLoop \<Longrightarrow> run_pc_rank (run_at r') < run_pc_rank (run_at r)"
    and "a = ExpireList \<Longrightarrow> sweep_rank (sweep_at r') < sweep_rank (sweep_at r)"
    and "a = StopSweep \<Longrightarrow> sweep_at r' = Stopped"
    and "a = Pump i \<Longrightarrow> pump_rank (us_pump (store r' ! i)) < pump_rank (us_pump (store r ! i))"
  using assms
  by (cases; auto simp: udp_flag_ops upd_session_nth split: list.splits)+

text \<open>A run in which every task is scheduled fairly, after cancellation while \<^verbatim>\<open>run\<close> was running.\<close>

definition cancelled_run :: "datagramFilter \<Rightarrow> datagramFilter \<Rightarrow> (nat \<Rightarrow> udpRelay) \<Rightarrow> bool" where
  "cancelled_run up down f \<longleftrightarrow>
     run_of (udp_step up down) f \<and> (\<forall>a. fair (udp_task a) f) \<and> closing_inv up down (f 0)"

lemma cancelled_run_moves: "cancelled_run up down f \<Longrightarrow> udp_step up down (f n) (f (Suc n))"
  by (simp add: cancelled_run_def run_of_def)

lemma cancelled_run_tasks: "cancelled_run up down f \<Longrightarrow> fair (udp_task a) f"
  by (simp add: cancelled_run_def)

lemma cancelled_run_inv: "cancelled_run up down f \<Longrightarrow> closing_inv up down (f n)"
proof (induction n)
  case (Suc n)
  note step = cancelled_run_moves [OF Suc.prems, of n]
  from Suc show ?case
    using udp_inv_step [OF step] cancel_ok_step [OF step] step_flags [OF step] unfolding closing_inv_def by blast
qed (simp add: cancelled_run_def)

lemma cancelled_run_started:
  assumes "cancelled_run up down f"
  shows "close_started (f n)" "udp_ctx_done (f n)" "map_ok (f n)" "sockets_ok (f n)"
    and "run_at (f n) = Finished x \<Longrightarrow> x = None"
  using cancelled_run_inv [OF assms, of n] by (auto simp: closing_inv_def cancel_ok_def udp_inv_def)

lemma listener_closes: "cancelled_run up down f \<Longrightarrow> \<exists>n. \<forall>m\<ge>n. \<not> listener_open (f m)"
proof -
  assume cr: "cancelled_run up down f"
  have "\<exists>n\<ge>0. \<forall>m\<ge>n. (if listener_open (f m) then 1 else 0 :: nat) = 0"
  proof (rule fair_zero [where rank = "\<lambda>r. if listener_open r then 1 else 0", OF cancelled_run_tasks [OF cr, of Hook]])
    show "\<exists>t. udp_task Hook (f m) t" if "(if listener_open (f m) then 1 else 0 :: nat) \<noteq> 0" for m
      using that cancelled_run_started(1) [OF cr] closing_listener by (cases "listener_open (f m)") auto
    show "(if listener_open (f (Suc m)) then 1 else 0 :: nat) < (if listener_open (f m) then 1 else 0)"
      if "udp_task Hook (f m) (f (Suc m))" for m
      using that task_lowers(1) [OF that] by (auto elim: udp_task.cases)
  qed (use step_flags [OF cancelled_run_moves [OF cr]] in auto)
  then show "\<exists>n. \<forall>m\<ge>n. \<not> listener_open (f m)" by (auto split: if_splits)
qed

lemma run_returns:
  assumes cr: "cancelled_run up down f" and closed: "\<And>m. n \<le> m \<Longrightarrow> \<not> listener_open (f m)"
  shows "\<exists>n'\<ge>n. \<forall>m\<ge>n'. run_at (f m) = Finished None"
proof -
  have "\<exists>n'\<ge>n. \<forall>m\<ge>n'. run_pc_rank (run_at (f m)) = 0"
  proof (rule fair_zero [where rank = "\<lambda>r. run_pc_rank (run_at r)", OF cancelled_run_tasks [OF cr, of RunLoop]])
    show "\<exists>t. udp_task RunLoop (f m) t" if "n \<le> m" "run_pc_rank (run_at (f m)) \<noteq> 0" for m
      using that closed [of m] by (cases "run_at (f m)") (auto intro: closing_forward closing_return)
  qed (use step_run_pc [OF cancelled_run_moves [OF cr] closed] task_lowers(2) in auto)
  moreover have "run_at (f m) = Finished None" if "run_pc_rank (run_at (f m)) = 0" for m
    using that cancelled_run_started(5) [OF cr, of m] by (cases "run_at (f m)") auto
  ultimately show ?thesis by blast
qed

lemma sweeper_stops: "cancelled_run up down f \<Longrightarrow> \<exists>n. \<forall>m\<ge>n. sweep_at (f m) = Stopped"
proof (rule ccontr)
  assume cr: "cancelled_run up down f" and "\<not> (\<exists>n. \<forall>m\<ge>n. sweep_at (f m) = Stopped)"
  with run_keeps [of _ "\<lambda>r. sweep_at r = Stopped" f] step_flags [OF cancelled_run_moves [OF cr]] have never: "sweep_at (f m) \<noteq> Stopped" for m
    by blast
  have "\<exists>m\<ge>n. sweep_at (f m) = Ticking" for n
  proof (rule fair_descent [where rank = "\<lambda>r. sweep_rank (sweep_at r)", OF cancelled_run_tasks [OF cr, of ExpireList]])
    fix m assume "sweep_at (f m) \<noteq> Ticking"
    with never [of m] obtain idle where idle: "sweep_at (f m) = Expiring idle" by (cases "sweep_at (f m)") auto
    then show "\<exists>t. udp_task ExpireList (f m) t" using closing_expire by blast
    from step_sweep [OF cancelled_run_moves [OF cr] idle] show "sweep_rank (sweep_at (f (Suc m))) \<le> sweep_rank (sweep_at (f m))" .
  qed (use task_lowers(3) in auto)
  then have "\<forall>n. \<exists>m\<ge>n. \<exists>t. udp_task StopSweep (f m) t" using closing_sweep cancelled_run_started(2) [OF cr] by blast
  with cancelled_run_tasks [OF cr, of StopSweep] obtain m where "udp_task StopSweep (f m) (f (Suc m))" unfolding fair_def by blast
  with task_lowers(4) never show False by blast
qed

lemma pump_ended:
  assumes cr: "cancelled_run up down f" and i: "\<And>m. n \<le> m \<Longrightarrow> i < length (store (f m))"
    and run: "\<And>m. n \<le> m \<Longrightarrow> run_at (f m) = Finished None" and sweep: "\<And>m. n \<le> m \<Longrightarrow> sweep_at (f m) = Stopped"
  shows "\<exists>n'. \<forall>m\<ge>n'. us_pump (store (f m) ! i) = Ended"
proof -
  have "\<exists>n'\<ge>n. \<forall>m\<ge>n'. pump_rank (us_pump (store (f m) ! i)) = 0"
  proof (rule fair_zero [where rank = "\<lambda>r. pump_rank (us_pump (store r ! i))", OF cancelled_run_tasks [OF cr, of "Pump i"]])
    fix m assume m: "n \<le> m" "pump_rank (us_pump (store (f m) ! i)) \<noteq> 0"
    have "sessions (f m) = []" using cancelled_run_started(3) [OF cr, of m] run [OF m(1)] by (simp add: map_ok_def)
    with cancelled_run_started(4) [OF cr, of m] i [OF m(1)] sweep [OF m(1)]
    have "us_pump (store (f m) ! i) \<noteq> Removed \<longrightarrow> \<not> us_open (store (f m) ! i)" by (auto simp: sockets_ok_def expiring_def)
    with m(2) i [OF m(1)] show "\<exists>t. udp_task (Pump i) (f m) t"
      by (cases "us_pump (store (f m) ! i)") (auto intro: closing_pump closing_removed)
  qed (use step_pump [OF cancelled_run_moves [OF cr] i] task_lowers(5) in auto)
  moreover have "us_pump s = Ended" if "pump_rank (us_pump s) = 0" for s
    using that by (cases "us_pump s") auto
  ultimately show ?thesis by blast
qed

lemma comes_to_end: "cancelled_run up down f \<Longrightarrow> \<exists>n. \<forall>m\<ge>n. relay_closed (f m)"
proof -
  assume cr: "cancelled_run up down f"
  obtain n0 where n0: "\<And>m. n0 \<le> m \<Longrightarrow> \<not> listener_open (f m)" using listener_closes [OF cr] by blast
  obtain n1 where n1: "n0 \<le> n1" "\<And>m. n1 \<le> m \<Longrightarrow> run_at (f m) = Finished None" using run_returns [OF cr, of n0] n0 by metis
  obtain n2 where n2: "\<And>m. n2 \<le> m \<Longrightarrow> sweep_at (f m) = Stopped" using sweeper_stops [OF cr] by blast
  define n where "n = max n1 n2"
  have len: "length (store (f m)) = length (store (f n))" if "n \<le> m" for m
    using that
  proof (induction m rule: dec_induct)
    case (step k)
    with step_run_pc [OF cancelled_run_moves [OF cr] n0, of k] n1(1) show ?case by (simp add: n_def)
  qed simp
  have "\<exists>n'. \<forall>m\<ge>n'. us_pump (store (f m) ! i) = Ended" if "i < length (store (f n))" for i
  proof (rule pump_ended [OF cr])
    show "i < length (store (f m))" if "n \<le> m" for m using len [OF that] \<open>i < length (store (f n))\<close> by simp
    show "run_at (f m) = Finished None" if "n \<le> m" for m using n1(2) that by (simp add: n_def)
    show "sweep_at (f m) = Stopped" if "n \<le> m" for m using n2 that by (simp add: n_def)
  qed
  then obtain top where top: "\<And>m i. top \<le> m \<Longrightarrow> i < length (store (f n)) \<Longrightarrow> us_pump (store (f m) ! i) = Ended"
    using eventually_all_less [of "length (store (f n))" "\<lambda>i m. us_pump (store (f m) ! i) = Ended"] by blast
  have "relay_closed (f m)" if m: "max n top \<le> m" for m
  proof -
    have ends: "run_at (f m) = Finished None" "sweep_at (f m) = Stopped" "\<not> listener_open (f m)"
      using n0 [of m] n1 n2 [of m] m by (auto simp: n_def)
    then have map: "sessions (f m) = []" using cancelled_run_started(3) [OF cr, of m] by (simp add: map_ok_def)
    have pump: "us_pump (store (f m) ! i) = Ended" if "i < length (store (f m))" for i
      using top [of m i] that len [of m] m by simp
    then have "\<not> us_open (store (f m) ! i)" if "i < length (store (f m))" for i
      using cancelled_run_started(4) [OF cr, of m] that map ends(2) by (auto simp: sockets_ok_def expiring_def)
    with ends map pump show ?thesis by (auto simp: relay_closed_def in_set_conv_nth)
  qed
  then show "\<exists>n. \<forall>m\<ge>n. relay_closed (f m)" by blast
qed

lemma closed_no_task: "relay_closed r \<Longrightarrow> \<not> udp_task a r t"
  by (auto simp: relay_closed_def elim!: udp_task.cases)

section \<open>Properties\<close>

text \<open>
  C12. A cancelled relay shuts down completely. Let the context end at any moment while \<^verbatim>\<open>run\<close> is running, in the middle of
  whatever its goroutines are doing. In every run of the relay from there, in which datagrams may still arrive, peers may
  still come and the clock may still tick, and in which every goroutine that can go on again and again does so again and
  again: from some moment on \<^verbatim>\<open>run\<close> has returned nil, the sweeper and every pump have returned, and the listener and every
  upstream socket ever opened are closed. There are such runs.
\<close>

theorem udp_shutdown:
  assumes "reach udp_init (udp_step up down) r" and "\<forall>x. run_at r \<noteq> Finished x"
  shows "(\<forall>f. f 0 = udp_cancel r \<and> run_of (udp_step up down) f \<and> (\<forall>a. fair (udp_task a) f) \<longrightarrow>
           (\<exists>n. \<forall>m\<ge>n. relay_closed (f m)))
    \<and> (\<exists>f. f 0 = udp_cancel r \<and> run_of (udp_step up down) f \<and> (\<forall>a. fair (udp_task a) f))"
proof -
  have r: "reach udp_init (udp_step up down) (udp_cancel r)" using reach_step [OF assms(1) cancelled] .
  have "close_started (udp_cancel r)" using assms(2) by (auto simp: udp_cancel_def split: run_pc.splits)
  with r have inv: "closing_inv up down (udp_cancel r)" using shutdown.inv_init by blast
  have "\<exists>n. \<forall>m\<ge>n. relay_closed (f m)"
    if "f 0 = udp_cancel r" "run_of (udp_step up down) f" "\<forall>a. fair (udp_task a) f" for f
    by (rule comes_to_end [of up down]) (use that inv in \<open>simp add: cancelled_run_def\<close>)
  moreover obtain t where t: "udp_closing\<^sup>*\<^sup>* (udp_cancel r) t" "relay_closed t" using shutdown.runs_to_end [OF inv] by blast
  have "closing_inv up down t" using shutdown.inv_run [OF t(1) inv] .
  then have "udp_cancel t = t" by (simp add: closing_inv_def cancel_ok_def udp_cancel_def)
  then have "udp_step up down t t" using cancelled [of up down t] by simp
  from run_of_extend [OF closing_run [OF t(1)] this] obtain f n where f: "f 0 = udp_cancel r" "run_of (udp_step up down) f"
      "\<forall>m\<ge>n. f m = t" by blast
  moreover have "fair (udp_task a) f" for a
    unfolding fair_def using f(3) closed_no_task [OF t(2)] by (metis order_refl)
  ultimately show ?thesis by blast
qed

theorem udp_shutdown_witness:
  "\<exists>f n. f 0 = udp_cancel (demo_udp 3) \<and> run_of (udp_step (server_up demo_token) (server_down demo_token)) f
     \<and> relay_closed (f n)"
proof -
  have "\<forall>x. run_at (demo_udp 3) \<noteq> Finished x" by (simp add: demo_udp_3 udp_start_def)
  from udp_shutdown [OF demo_udp_reach this] show ?thesis by (metis order_refl)
qed

end
