(* ===== verification/Udp_Tunnel.thy ===== *)
theory Udp_Tunnel
  imports Udp_Relay
begin

text \<open>
  The UDP tunnel from end to end: the relay that a client's \<^verbatim>\<open>runUDP\<close> starts and the one that a server's \<^verbatim>\<open>serveUDP\<close>
  starts (\<^verbatim>\<open>internal/transport/udp.go\<close>), joined by a network that loses, reorders and repeats datagrams and in which anyone
  may send anything.
\<close>

section \<open>Two relays and a network\<close>






section \<open>Invariant\<close>


lemma closeAll_logs [simp]:
  "got (udp_closeAll r) = got r" "forwarded (udp_closeAll r) = forwarded r"
  "from_upstream (udp_closeAll r) = from_upstream r" "replied (udp_closeAll r) = replied r"
proof -
  have "got (fold close_upstream is r) = got r \<and> forwarded (fold close_upstream is r) = forwarded r
      \<and> from_upstream (fold close_upstream is r) = from_upstream r \<and> replied (fold close_upstream is r) = replied r" for "is" r
    by (induction "is" arbitrary: r) (simp_all add: close_upstream_def)
  then show "got (udp_closeAll r) = got r" "forwarded (udp_closeAll r) = forwarded r"
    "from_upstream (udp_closeAll r) = from_upstream r" "replied (udp_closeAll r) = replied r"
    by (simp_all add: udp_closeAll_def)
qed





section \<open>Where datagrams come from\<close>




section \<open>Datagrams that are not lost\<close>





section \<open>Properties\<close>



end
