(* ===== verification/Session_Lock.thy ===== *)
theory Session_Lock
  imports Session
begin

text \<open>
  The session dialer of \<^verbatim>\<open>internal/transport/session.go\<close> with its mutex. In theory \<open>Session\<close> a critical section is one step;
  here a goroutine takes \<^verbatim>\<open>d.mu\<close>, which it can do only while nobody holds it, works under it, and lets it go in a step of
  its own, the deferred \<^verbatim>\<open>Unlock\<close>. In \<^verbatim>\<open>session\<close> it may hold the mutex for as long as \<^verbatim>\<open>connect\<close> takes, while the others
  wait. The finer system refines the one of theory \<open>Session\<close>, and its calls return.
\<close>

section \<open>Goroutines and the mutex\<close>

text \<open>
  Where a call of \<^verbatim>\<open>Dial\<close> is, with \<open>n\<close> attempts left after the one it is in: before \<^verbatim>\<open>session\<close>; in it, holding the mutex,
  before the checks, in \<^verbatim>\<open>connect\<close> (having dropped a dead session, the last argument), or before the deferred \<^verbatim>\<open>Unlock\<close>
  with the result; opening a stream; before \<^verbatim>\<open>discard\<close>, in it, and before its \<^verbatim>\<open>Unlock\<close>; returned. And where a call of
  \<^verbatim>\<open>Close\<close> is.
\<close>

datatype 'e call =
    Waiting nat "'e dial_error option"
  | Checking nat "'e dial_error option"
  | Connecting nat "'e dial_error option" "nat option"
  | Leaving nat "'e dial_error + nat"
  | OpeningOn nat nat
  | WantsDiscard nat nat "'e dial_error"
  | InDiscard nat nat "'e dial_error"
  | LeavesDiscard nat "'e dial_error"
  | DialDone "'e dial_error option + nat"
  | WantsClose
  | InClose
  | LeavesClose
  | CloseDone

record 'e lock_world =
  mu :: "nat option"
  ld :: dialer
  calls :: "nat \<rightharpoonup> 'e call"

text \<open>
  The steps. New calls and sessions that die are up to the outside (\<open>env\<close>); \<^verbatim>\<open>connect\<close> and \<^verbatim>\<open>open\<close> return at some time,
  with whatever result, since their contexts have deadlines.
\<close>

definition moves_to :: "'e lock_world \<Rightarrow> nat \<Rightarrow> 'e call \<Rightarrow> 'e lock_world" where
  "moves_to w g c = w\<lparr>calls := (calls w)(g \<mapsto> c)\<rparr>"

inductive lock_step :: "bool \<Rightarrow> 'e lock_world \<Rightarrow> 'e lock_world \<Rightarrow> bool" for env :: bool where
  calls_Dial: "env \<Longrightarrow> calls w g = None \<Longrightarrow> lock_step env w (moves_to w g (Waiting 2 None))"
| calls_Close: "env \<Longrightarrow> calls w g = None \<Longrightarrow> lock_step env w (moves_to w g WantsClose)"
| session_dies: "env \<Longrightarrow> i < connected (ld w) \<Longrightarrow> lock_step env w (w\<lparr>ld := (ld w)\<lparr>gone := insert i (gone (ld w))\<rparr>\<rparr>)"
| loop_ends: "calls w g = Some (Waiting 0 lastErr) \<Longrightarrow> lock_step env w (moves_to w g (DialDone (Inl lastErr)))"
| locks_session: "calls w g = Some (Waiting (Suc n) lastErr) \<Longrightarrow> mu w = None \<Longrightarrow>
    lock_step env w ((moves_to w g (Checking n lastErr))\<lparr>mu := Some g\<rparr>)"
| finds_closed: "calls w g = Some (Checking n lastErr) \<Longrightarrow> dialer_closed (ld w) \<Longrightarrow>
    lock_step env w (moves_to w g (Leaving n (Inl DialerClosed)))"
| reuses: "calls w g = Some (Checking n lastErr) \<Longrightarrow> \<not> dialer_closed (ld w) \<Longrightarrow> cur (ld w) = Some i \<Longrightarrow>
    \<not> isClosed i (ld w) \<Longrightarrow> lock_step env w (moves_to w g (Leaving n (Inr i)))"
| must_connect: "calls w g = Some (Checking n lastErr) \<Longrightarrow> \<not> dialer_closed (ld w) \<Longrightarrow>
    (\<And>i. cur (ld w) = Some i \<Longrightarrow> isClosed i (ld w)) \<Longrightarrow>
    lock_step env w ((moves_to w g (Connecting n lastErr (cur (ld w))))\<lparr>ld := drop_cur (ld w)\<rparr>)"
| connect_fails: "calls w g = Some (Connecting n lastErr old) \<Longrightarrow>
    lock_step env w (moves_to w g (Leaving n (Inl (ConnectFailed e))))"
| connect_returns: "calls w g = Some (Connecting n lastErr old) \<Longrightarrow>
    lock_step env w ((moves_to w g (Leaving n (Inr (connected (ld w)))))
      \<lparr>ld := (ld w)\<lparr>cur := Some (connected (ld w)), connected := Suc (connected (ld w))\<rparr>\<rparr>)"
| unlocks_session: "calls w g = Some (Leaving n res) \<Longrightarrow>
    lock_step env w ((moves_to w g (case res of Inl e \<Rightarrow> DialDone (Inl (Some e)) | Inr i \<Rightarrow> OpeningOn n i))\<lparr>mu := None\<rparr>)"
| open_returns: "calls w g = Some (OpeningOn n i) \<Longrightarrow> lock_step env w (moves_to w g (DialDone (Inr i)))"
| open_errs: "calls w g = Some (OpeningOn n i) \<Longrightarrow> lock_step env w (moves_to w g (WantsDiscard n i (OpenFailed e)))"
| locks_discard: "calls w g = Some (WantsDiscard n i e) \<Longrightarrow> mu w = None \<Longrightarrow>
    lock_step env w ((moves_to w g (InDiscard n i e))\<lparr>mu := Some g\<rparr>)"
| does_discard: "calls w g = Some (InDiscard n i e) \<Longrightarrow>
    lock_step env w ((moves_to w g (LeavesDiscard n e))\<lparr>ld := discard i (ld w)\<rparr>)"
| unlocks_discard: "calls w g = Some (LeavesDiscard n e) \<Longrightarrow>
    lock_step env w ((moves_to w g (Waiting n (Some e)))\<lparr>mu := None\<rparr>)"
| locks_close: "calls w g = Some WantsClose \<Longrightarrow> mu w = None \<Longrightarrow> lock_step env w ((moves_to w g InClose)\<lparr>mu := Some g\<rparr>)"
| does_close: "calls w g = Some InClose \<Longrightarrow> lock_step env w ((moves_to w g LeavesClose)\<lparr>ld := Close (ld w)\<rparr>)"
| unlocks_close: "calls w g = Some LeavesClose \<Longrightarrow> lock_step env w ((moves_to w g CloseDone)\<lparr>mu := None\<rparr>)"

definition lock_init :: "'e lock_world \<Rightarrow> bool" where
  "lock_init w \<longleftrightarrow> w = \<lparr>mu = None, ld = newSessionDialer, calls = Map.empty\<rparr>"

section \<open>Mutual exclusion\<close>

text \<open>Who is between \<^verbatim>\<open>Lock\<close> and \<^verbatim>\<open>Unlock\<close>, and how far a call is from its return.\<close>

fun holds :: "'e call \<Rightarrow> bool" where
  "holds (Checking _ _) = True"
| "holds (Connecting _ _ _) = True"
| "holds (Leaving _ _) = True"
| "holds (InDiscard _ _ _) = True"
| "holds (LeavesDiscard _ _) = True"
| "holds InClose = True"
| "holds LeavesClose = True"
| "holds _ = False"

fun call_rank :: "'e call \<Rightarrow> nat" where
  "call_rank (Waiting n _) = 8 * n + 1"
| "call_rank (Checking n _) = 8 * n + 8"
| "call_rank (Connecting n _ _) = 8 * n + 7"
| "call_rank (Leaving n _) = 8 * n + 6"
| "call_rank (OpeningOn n _) = 8 * n + 5"
| "call_rank (WantsDiscard n _ _) = 8 * n + 4"
| "call_rank (InDiscard n _ _) = 8 * n + 3"
| "call_rank (LeavesDiscard n _) = 8 * n + 2"
| "call_rank (DialDone _) = 0"
| "call_rank WantsClose = 3"
| "call_rank InClose = 2"
| "call_rank LeavesClose = 1"
| "call_rank CloseDone = 0"

definition lock_inv :: "'e lock_world \<Rightarrow> bool" where
  "lock_inv w \<longleftrightarrow> finite (dom (calls w)) \<and> (\<forall>g. mu w = Some g \<longleftrightarrow> (\<exists>c. calls w g = Some c \<and> holds c))
     \<and> (\<forall>g c. calls w g = Some c \<longrightarrow> call_rank c \<le> 17)
     \<and> (\<forall>g n lastErr old. calls w g = Some (Connecting n lastErr old) \<longrightarrow> cur (ld w) = None \<and> \<not> dialer_closed (ld w)
          \<and> (\<forall>i. old = Some i \<longrightarrow> i \<in> gone (ld w) \<and> i \<in> released (ld w)))"

lemma moves_to_simps [simp]:
  "calls (moves_to w g c) = (calls w)(g \<mapsto> c)" "mu (moves_to w g c) = mu w" "ld (moves_to w g c) = ld w"
  by (simp_all add: moves_to_def)

text \<open>The goroutine that works under the mutex is the one that holds it, and the only one.\<close>

lemma lock_inv_holder:
  "lock_inv w \<Longrightarrow> calls w g = Some c \<Longrightarrow> holds c \<Longrightarrow> mu w = Some g \<and> (\<forall>h d. calls w h = Some d \<and> holds d \<longrightarrow> h = g)"
  by (auto simp: lock_inv_def) (metis option.inject)

lemma lock_inv_rank: "lock_inv w \<Longrightarrow> calls w g = Some c \<Longrightarrow> call_rank c \<le> 17"
  by (simp add: lock_inv_def)

lemma drop_cur_gone: "cur d = Some i \<Longrightarrow> i \<in> gone (drop_cur d) \<and> i \<in> released (drop_cur d)"
  by (simp add: drop_cur_def close_session_def)

lemma lock_inv_step: "lock_step env w w' \<Longrightarrow> lock_inv w \<Longrightarrow> lock_inv w'"
proof (induction rule: lock_step.induct)
  case (must_connect w g n lastErr)
  with lock_inv_holder [OF must_connect.prems must_connect.hyps(1)] lock_inv_rank [OF must_connect.prems must_connect.hyps(1)]
  show ?case using drop_cur_gone [of "ld w"] by (fastforce simp: lock_inv_def)
next
  case (connect_returns w g n lastErr old)
  with lock_inv_holder [OF connect_returns.prems connect_returns.hyps] lock_inv_rank [OF connect_returns.prems connect_returns.hyps]
  show ?case by (fastforce simp: lock_inv_def)
next
  case (does_discard w g n i e)
  with lock_inv_holder [OF does_discard.prems does_discard.hyps] lock_inv_rank [OF does_discard.prems does_discard.hyps]
  show ?case by (fastforce simp: lock_inv_def)
next
  case (does_close w g)
  with lock_inv_holder [OF does_close.prems does_close.hyps] show ?case by (fastforce simp: lock_inv_def)
next
  case (unlocks_session w g n res)
  with lock_inv_holder [OF unlocks_session.prems unlocks_session.hyps] lock_inv_rank [OF unlocks_session.prems unlocks_session.hyps]
  show ?case by (cases res) (fastforce simp: lock_inv_def)+
next
  case (unlocks_discard w g n e)
  with lock_inv_holder [OF unlocks_discard.prems unlocks_discard.hyps] lock_inv_rank [OF unlocks_discard.prems unlocks_discard.hyps]
  show ?case by (fastforce simp: lock_inv_def)
next
  case (unlocks_close w g)
  with lock_inv_holder [OF unlocks_close.prems unlocks_close.hyps] show ?case by (fastforce simp: lock_inv_def)
qed (fastforce simp: lock_inv_def split: if_splits)+

interpretation lock: invariant_system lock_init "lock_step env" lock_inv for env
proof
  show "lock_init w \<Longrightarrow> lock_inv w" for w by (simp add: lock_init_def lock_inv_def)
  show "lock_inv w \<Longrightarrow> lock_step env w w' \<Longrightarrow> lock_inv w'" for w w' by (rule lock_inv_step)
qed

section \<open>Who can move\<close>

definition goroutine_moves :: "nat \<Rightarrow> 'e lock_world \<Rightarrow> 'e lock_world \<Rightarrow> bool" where
  "goroutine_moves g w w' \<longleftrightarrow> lock_step False w w' \<and> calls w' g \<noteq> calls w g"

lemma lock_step_call:
  "lock_step env w w' \<Longrightarrow> calls w g = Some c \<Longrightarrow> \<exists>c'. calls w' g = Some c' \<and> (c' = c \<or> call_rank c' < call_rank c)"
  by (induction rule: lock_step.induct) (auto split: sum.splits)

lemma lock_step_mu:
  "lock_step env w w' \<Longrightarrow> mu w = Some g \<Longrightarrow> lock_inv w \<Longrightarrow> mu w' = None \<or> mu w' = Some g"
  by (induction rule: lock_step.induct) auto

lemma goroutine_movesI:
  "lock_step False w w' \<Longrightarrow> calls w' g = Some d \<Longrightarrow> calls w g = Some c \<Longrightarrow> d \<noteq> c \<Longrightarrow> \<exists>w'. goroutine_moves g w w'"
  by (auto simp: goroutine_moves_def)

text \<open>A goroutine that holds the mutex can always go on, and any that has not returned can when nobody holds it.\<close>

lemma can_move:
  assumes c: "calls w g = Some c" and "call_rank c \<noteq> 0" and free: "holds c \<or> mu w = None"
  shows "\<exists>w'. goroutine_moves g w w'"
proof (cases c)
  case (Waiting n lastErr)
  show ?thesis
  proof (cases n)
    case 0
    with c Waiting show ?thesis by (intro goroutine_movesI [OF loop_ends]) auto
  next
    case (Suc m)
    with c free Waiting show ?thesis by (intro goroutine_movesI [OF locks_session]) auto
  qed
next
  case (Checking n lastErr)
  consider "dialer_closed (ld w)" | i where "\<not> dialer_closed (ld w)" "cur (ld w) = Some i" "\<not> isClosed i (ld w)"
    | "\<not> dialer_closed (ld w)" "\<And>i. cur (ld w) = Some i \<Longrightarrow> isClosed i (ld w)" by blast
  then show ?thesis
  proof cases
    case 1
    with c Checking show ?thesis by (intro goroutine_movesI [OF finds_closed]) auto
  next
    case 2
    with c Checking show ?thesis by (intro goroutine_movesI [OF reuses]) auto
  next
    case 3
    with c Checking show ?thesis by (intro goroutine_movesI [OF must_connect]) auto
  qed
next
  case (Connecting n lastErr old)
  with c show ?thesis by (intro goroutine_movesI [OF connect_returns]) auto
next
  case (Leaving n res)
  with c show ?thesis by (cases res) (rule goroutine_movesI [OF unlocks_session], auto)+
next
  case (OpeningOn n i)
  with c show ?thesis by (intro goroutine_movesI [OF open_returns]) auto
next
  case (WantsDiscard n i e)
  with c free show ?thesis by (intro goroutine_movesI [OF locks_discard]) auto
next
  case (InDiscard n i e)
  with c show ?thesis by (intro goroutine_movesI [OF does_discard]) auto
next
  case (LeavesDiscard n e)
  with c show ?thesis by (intro goroutine_movesI [OF unlocks_discard]) auto
next
  case WantsClose
  with c free show ?thesis by (intro goroutine_movesI [OF locks_close]) auto
next
  case InClose
  with c show ?thesis by (intro goroutine_movesI [OF does_close]) auto
next
  case LeavesClose
  with c show ?thesis by (intro goroutine_movesI [OF unlocks_close]) auto
qed (use assms in auto)

text \<open>What happens to one call along a run: its rank never rises, and a move of its goroutine lowers it.\<close>

definition rank_of :: "'e lock_world \<Rightarrow> nat \<Rightarrow> nat" where
  "rank_of w g = (case calls w g of None \<Rightarrow> 0 | Some c \<Rightarrow> call_rank c)"

lemma rank_of_step:
  assumes "calls w g \<noteq> None" and "lock_step env w w'"
  shows "calls w' g \<noteq> None \<and> rank_of w' g \<le> rank_of w g"
  using assms lock_step_call [OF assms(2)] by (fastforce simp: rank_of_def)

lemma rank_of_moves: "calls w g \<noteq> None \<Longrightarrow> goroutine_moves g w w' \<Longrightarrow> rank_of w' g < rank_of w g"
  using lock_step_call [of False w w' g] by (fastforce simp: goroutine_moves_def rank_of_def)

lemma lock_run_inv:
  "reach lock_init (lock_step True) (f 0) \<Longrightarrow> run_of (lock_step True) f \<Longrightarrow> lock_inv (f m) \<and> lock_step True (f m) (f (Suc m))"
  using lock.inv_reach [where env = True] run_of_reach [of "lock_step True" f lock_init m] by (auto simp: run_of_def)

text \<open>The mutex is free again and again: whoever holds it goes on to its \<^verbatim>\<open>Unlock\<close>.\<close>

lemma mutex_released:
  assumes run: "reach lock_init (lock_step True) (f 0)" "run_of (lock_step True) f"
    and fairness: "\<And>g. fair (goroutine_moves g) f"
  shows "\<exists>m\<ge>n. mu (f m) = None"
proof (rule ccontr)
  assume "\<not> ?thesis"
  then have never: "mu (f m) \<noteq> None" if "n \<le> m" for m using that by simp
  then obtain g where g: "mu (f n) = Some g" by blast
  have "mu (f m) = Some g" if "n \<le> m" for m
  proof (rule run_keeps [where P = "\<lambda>w. mu w = Some g" and f = f, OF _ g that])
    fix k assume "n \<le> k" "mu (f k) = Some g"
    with lock_run_inv [OF run, of k] lock_step_mu [of True "f k" "f (Suc k)" g] never [of "Suc k"]
    show "mu (f (Suc k)) = Some g" by auto
  qed
  then have holder: "\<exists>c. calls (f m) g = Some c \<and> holds c" if "n \<le> m" for m
    using lock_run_inv [OF run, of m] that by (auto simp: lock_inv_def)
  have "\<exists>m\<ge>n. False"
  proof (rule fair_descent [where act = "goroutine_moves g" and rank = "\<lambda>w. rank_of w g" and Q = "\<lambda>_. False", OF fairness])
    fix m assume "n \<le> m"
    then obtain c where c: "calls (f m) g = Some c" "holds c" using holder by blast
    moreover from c(2) have "call_rank c \<noteq> 0" by (cases c) auto
    ultimately show "\<exists>t. goroutine_moves g (f m) t" by (blast intro: can_move)
    from c rank_of_step [of "f m" g True "f (Suc m)"] lock_run_inv [OF run, of m]
    show "rank_of (f (Suc m)) g \<le> rank_of (f m) g" by auto
    assume "goroutine_moves g (f m) (f (Suc m))"
    with c show "rank_of (f (Suc m)) g < rank_of (f m) g" by (simp add: rank_of_moves)
  qed
  then show False by blast
qed

section \<open>Refinement of the coarser model\<close>

text \<open>
  What theory \<open>Session\<close> sees of a call and of the dialer. Between dropping a dead session and the return of \<^verbatim>\<open>connect\<close> the
  dead session still counts as the current one, since there the two happen in one step.
\<close>

fun pc_of_call :: "'e call \<Rightarrow> 'e dial_pc option" where
  "pc_of_call (Waiting n lastErr) = Some (Wants n lastErr)"
| "pc_of_call (Checking n lastErr) = Some (Wants (Suc n) lastErr)"
| "pc_of_call (Connecting n lastErr _) = Some (Wants (Suc n) lastErr)"
| "pc_of_call (Leaving n (Inl e)) = Some (Returned (Inl (Some e)))"
| "pc_of_call (Leaving n (Inr i)) = Some (Opening n i)"
| "pc_of_call (OpeningOn n i) = Some (Opening n i)"
| "pc_of_call (WantsDiscard n i e) = Some (Discarding n i e)"
| "pc_of_call (InDiscard n i e) = Some (Discarding n i e)"
| "pc_of_call (LeavesDiscard n e) = Some (Wants n (Some e))"
| "pc_of_call (DialDone r) = Some (Returned r)"
| "pc_of_call _ = None"

definition dropped :: "'e lock_world \<Rightarrow> nat option" where
  "dropped w = (case Option.bind (mu w) (calls w) of Some (Connecting _ _ old) \<Rightarrow> old | _ \<Rightarrow> None)"

definition lock_abs :: "'e lock_world \<Rightarrow> 'e dial_world" where
  "lock_abs w = \<lparr>
     dlr = (case dropped w of
              None \<Rightarrow> ld w
            | Some i \<Rightarrow> (ld w)\<lparr>cur := Some i, released := released (ld w) - {i}\<rparr>),
     pcs = (\<lambda>g. Option.bind (calls w g) pc_of_call)\<rparr>"

lemma abs_calls_upd [simp]:
  "(\<lambda>h. Option.bind (if h = g then Some c else m h) pc_of_call) = (\<lambda>h. Option.bind (m h) pc_of_call)(g := pc_of_call c)"
  by auto

lemma dropped_simps [simp]:
  "dropped (w\<lparr>ld := d\<rparr>) = dropped w"
  "dropped (w\<lparr>mu := None\<rparr>) = None"
  by (simp_all add: dropped_def)

lemma dropped_moves [simp]: "mu w \<noteq> Some g \<Longrightarrow> dropped (moves_to w g c) = dropped w"
  by (cases "mu w") (auto simp: dropped_def)

lemma dropped_holder:
  "mu w = Some g \<Longrightarrow> dropped (moves_to w g c) = (case c of Connecting _ _ old \<Rightarrow> old | _ \<Rightarrow> None)"
  by (simp add: dropped_def split: call.splits)

lemma dropped_free [simp]: "mu w = None \<Longrightarrow> dropped w = None"
  by (simp add: dropped_def)

lemma dropped_call: "mu w = Some g \<Longrightarrow> calls w g = Some c \<Longrightarrow> dropped w = (case c of Connecting _ _ old \<Rightarrow> old | _ \<Rightarrow> None)"
  by (simp add: dropped_def split: call.splits)

lemma lock_inv_other: "lock_inv w \<Longrightarrow> calls w g = None \<Longrightarrow> mu w \<noteq> Some g"
  "lock_inv w \<Longrightarrow> calls w g = Some c \<Longrightarrow> \<not> holds c \<Longrightarrow> mu w \<noteq> Some g"
  by (auto simp: lock_inv_def)

lemma session_connects:
  assumes "cur d = old" and "\<not> dialer_closed d" and "\<And>i. old = Some i \<Longrightarrow> isClosed i d"
  shows "session res d = (let d' = drop_cur d in case res of
      Some e \<Rightarrow> (Inl (ConnectFailed e), d')
    | None \<Rightarrow> (Inr (connected d'), d'\<lparr>cur := Some (connected d'), connected := Suc (connected d')\<rparr>))"
  using assms by (auto simp: session_def drop_cur_def Let_def split: option.splits)

text \<open>What \<^verbatim>\<open>connect\<close> finds: putting the dropped session back and dropping it again changes nothing.\<close>

lemma drop_again:
  assumes "cur d = None" and "\<And>i. old = Some i \<Longrightarrow> i \<in> gone d \<and> i \<in> released d"
  shows "drop_cur (case old of None \<Rightarrow> d | Some i \<Rightarrow> d\<lparr>cur := Some i, released := released d - {i}\<rparr>) = d"
  using assms by (cases d; cases old) (auto simp: drop_cur_def close_session_def insert_absorb)

lemma put_back:
  assumes "\<And>i. cur d = Some i \<Longrightarrow> isClosed i d \<and> i \<notin> released d"
  shows "(case cur d of None \<Rightarrow> drop_cur d | Some i \<Rightarrow> (drop_cur d)\<lparr>cur := Some i, released := released (drop_cur d) - {i}\<rparr>) = d"
  using assms by (cases d; cases "cur d") (auto simp: drop_cur_def close_session_def isClosed_def insert_absorb)

lemma connecting_abs:
  assumes "lock_inv w" and c: "calls w g = Some (Connecting n lastErr old)"
  defines "d \<equiv> dlr (lock_abs w)"
  shows "dropped w = old" and "drop_cur d = ld w" and "cur d = old" and "\<not> dialer_closed d" and "old = Some i \<Longrightarrow> isClosed i d"
proof -
  have mu: "mu w = Some g" using lock_inv_holder [OF assms(1) c] by simp
  with c show old: "dropped w = old" by (simp add: dropped_call)
  from assms(1) c have l: "cur (ld w) = None" "\<not> dialer_closed (ld w)" "\<And>i. old = Some i \<Longrightarrow> i \<in> gone (ld w) \<and> i \<in> released (ld w)"
    by (auto simp: lock_inv_def)
  show "drop_cur d = ld w" using drop_again [OF l(1) l(3)] old by (simp add: d_def lock_abs_def)
  show "cur d = old" "\<not> dialer_closed d" "old = Some i \<Longrightarrow> isClosed i d"
    using l old by (auto simp: d_def lock_abs_def isClosed_def split: option.splits)
qed

text \<open>A step that only moves a call, seen from outside.\<close>

lemma abs_moves: "mu w \<noteq> Some g \<Longrightarrow> lock_abs (moves_to w g c) = (lock_abs w)\<lparr>pcs := (pcs (lock_abs w))(g := pc_of_call c)\<rparr>"
  by (simp add: lock_abs_def split: option.splits)

lemma abs_undropped: "dropped w = None \<Longrightarrow> lock_abs w = \<lparr>dlr = ld w, pcs = \<lambda>g. Option.bind (calls w g) pc_of_call\<rparr>"
  by (simp add: lock_abs_def)

lemma gone_put_back:
  "d\<lparr>cur := c, released := r, gone := g\<rparr> = d\<lparr>gone := g, cur := c, released := r\<rparr>"
  by (cases d) simp

lemma lock_simulates:
  fixes w w' :: "'e lock_world"
  assumes "lock_step env w w'" and inv: "lock_inv w" and ok: "dialer_ok (dlr (lock_abs w))"
  shows "lock_abs w' = lock_abs w \<or> dial_step (lock_abs w) (lock_abs w')"
  using assms(1)
proof cases
  case (calls_Dial g)
  with lock_inv_other(1) [OF inv calls_Dial(3)] show ?thesis
    using start [of "lock_abs w" g] by (simp add: abs_moves) (simp add: lock_abs_def)
next
  case (calls_Close g)
  with lock_inv_other(1) [OF inv calls_Close(3)] show ?thesis
    by (auto simp: abs_moves) (auto simp: lock_abs_def)
next
  case (session_dies i)
  then show ?thesis using dies [of i "lock_abs w"] by (cases "dropped w") (simp_all add: lock_abs_def gone_put_back)
next
  case (loop_ends g lastErr)
  with lock_inv_other(2) [OF inv loop_ends(2)] show ?thesis
    using give_up [of "lock_abs w" g lastErr] by (simp add: abs_moves) (simp add: lock_abs_def)
next
  case (open_returns g n i)
  with lock_inv_other(2) [OF inv open_returns(2)] show ?thesis
    using opened [of "lock_abs w" g n i] by (simp add: abs_moves) (simp add: lock_abs_def)
next
  case (open_errs g n i e)
  with lock_inv_other(2) [OF inv open_errs(2)] show ?thesis
    using open_fails [of "lock_abs w" g n i e] by (simp add: abs_moves) (simp add: lock_abs_def)
next
  case (locks_session g n lastErr)
  then show ?thesis by (simp add: lock_abs_def dropped_def) auto
next
  case (locks_discard g n i e)
  then show ?thesis by (simp add: lock_abs_def dropped_def) auto
next
  case (locks_close g)
  then show ?thesis by (simp add: lock_abs_def dropped_def) auto
next
  case (finds_closed g n lastErr)
  then have "dropped w = None" using lock_inv_holder [OF inv finds_closed(2)] by (simp add: dropped_call)
  with finds_closed show ?thesis
    using no_session [of "lock_abs w" g n lastErr None DialerClosed "ld w"] lock_inv_holder [OF inv finds_closed(2)]
    by (simp add: abs_undropped dropped_holder session_def)
next
  case (reuses g n lastErr i)
  then have "dropped w = None" using lock_inv_holder [OF inv reuses(2)] by (simp add: dropped_call)
  with reuses show ?thesis
    using got_session [of "lock_abs w" g n lastErr None i "ld w"] lock_inv_holder [OF inv reuses(2)]
    by (simp add: abs_undropped dropped_holder session_def)
next
  case (must_connect g n lastErr)
  have mu: "mu w = Some g" using lock_inv_holder [OF inv must_connect(2)] by simp
  with must_connect(2) have none: "dropped w = None" by (simp add: dropped_call)
  with ok must_connect(4) have "(case cur (ld w) of None \<Rightarrow> drop_cur (ld w)
      | Some i \<Rightarrow> (drop_cur (ld w))\<lparr>cur := Some i, released := released (drop_cur (ld w)) - {i}\<rparr>) = ld w"
    by (intro put_back) (auto simp: abs_undropped dialer_ok_def)
  with must_connect mu none have "lock_abs w' = lock_abs w"
    by (cases "cur (ld w)") (auto simp: lock_abs_def dropped_holder)
  then show ?thesis ..
next
  case (connect_fails g n lastErr old e)
  note abs = connecting_abs [OF inv connect_fails(2)]
  have s: "session (Some e) (dlr (lock_abs w)) = (Inl (ConnectFailed e), ld w)"
    using session_connects [OF abs(3,4,5), of "Some e"] abs(2) by (simp add: Let_def)
  with connect_fails lock_inv_holder [OF inv connect_fails(2)] show ?thesis
    using no_session [OF _ s, of g n lastErr] by (simp add: abs_undropped dropped_holder) (simp add: lock_abs_def)
next
  case (connect_returns g n lastErr old)
  note abs = connecting_abs [OF inv connect_returns(2)]
  let ?d = "(ld w)\<lparr>cur := Some (connected (ld w)), connected := Suc (connected (ld w))\<rparr>"
  have s: "session None (dlr (lock_abs w)) = (Inr (connected (ld w)), ?d)"
    using session_connects [OF abs(3,4,5), of None] abs(2) by (simp add: Let_def)
  with connect_returns lock_inv_holder [OF inv connect_returns(2)] show ?thesis
    using got_session [OF _ s, of g n lastErr] by (simp add: abs_undropped dropped_holder) (simp add: lock_abs_def)
next
  case (does_discard g n i e)
  then have "dropped w = None" using lock_inv_holder [OF inv does_discard(2)] by (simp add: dropped_call)
  with does_discard show ?thesis
    using discards [of "lock_abs w" g n i e] lock_inv_holder [OF inv does_discard(2)]
    by (simp add: abs_undropped dropped_holder)
next
  case (does_close g)
  then have "dropped w = None" using lock_inv_holder [OF inv does_close(2)] by (simp add: dropped_call)
  with does_close show ?thesis
    using closes [of "lock_abs w"] lock_inv_holder [OF inv does_close(2)]
    by (simp add: abs_undropped dropped_holder fun_upd_idem)
next
  case (unlocks_session g n res)
  then have "dropped w = None" using lock_inv_holder [OF inv unlocks_session(2)] by (simp add: dropped_call)
  with unlocks_session show ?thesis
    by (cases res) (simp_all add: abs_undropped dropped_def fun_upd_idem)
next
  case (unlocks_discard g n e)
  then have "dropped w = None" using lock_inv_holder [OF inv unlocks_discard(2)] by (simp add: dropped_call)
  with unlocks_discard show ?thesis by (simp add: abs_undropped dropped_def fun_upd_idem)
next
  case (unlocks_close g)
  then have "dropped w = None" using lock_inv_holder [OF inv unlocks_close(2)] by (simp add: dropped_call)
  with unlocks_close show ?thesis by (simp add: abs_undropped dropped_def fun_upd_idem)
qed

section \<open>Properties\<close>

text \<open>
  The model with the mutex refines the one without: what it reaches is, seen from outside, reachable there, so that the
  properties of theory \<open>Session\<close> hold of it.
\<close>

theorem lock_refines_dial:
  assumes "reach lock_init (lock_step env) w"
  shows "reach dial_init dial_step (lock_abs w)"
  using assms
proof (induction rule: reach.induct)
  case (reach_init w)
  then show ?case by (intro reach.reach_init) (simp add: lock_init_def dial_init_def lock_abs_def dropped_def)
next
  case (reach_step w w')
  have "lock_inv w" using lock.inv_reach [OF reach_step.hyps(1)] .
  moreover have "dialer_ok (dlr (lock_abs w))" using dial.inv_reach [OF reach_step.IH] by (simp add: dial_inv_def)
  ultimately show ?case using lock_simulates [OF reach_step.hyps(2)] reach_step.IH reach.reach_step by metis
qed

text \<open>A world in which one call has dialled and returned and the session it connected has died.\<close>

definition demo_world :: "nat option \<Rightarrow> io_error call \<Rightarrow> dialer \<Rightarrow> io_error lock_world" where
  "demo_world m c d = \<lparr>mu = m, ld = d, calls = [0 \<mapsto> c]\<rparr>"

definition demo_dead :: "io_error lock_world" where
  "demo_dead = demo_world None (DialDone (Inr 0)) \<lparr>cur = Some 0, dialer_closed = False, connected = 1, gone = {0}, released = {}\<rparr>"

lemma demo_dead_run: "(lock_step True)\<^sup>*\<^sup>* (demo_world None (Waiting 2 None) newSessionDialer) demo_dead"
proof -
  let ?d = "newSessionDialer\<lparr>cur := Some 0, connected := 1\<rparr>"
  have "lock_step True (demo_world None (Waiting 2 None) newSessionDialer) (demo_world (Some 0) (Checking 1 None) newSessionDialer)"
    using locks_session [of "demo_world None (Waiting 2 None) newSessionDialer" 0 1 None True]
    by (simp add: demo_world_def moves_to_def numeral_2_eq_2)
  moreover have "lock_step True \<dots> (demo_world (Some 0) (Connecting 1 None None) newSessionDialer)"
    using must_connect [of "demo_world (Some 0) (Checking 1 None) newSessionDialer" 0 1 None True]
    by (simp add: demo_world_def moves_to_def newSessionDialer_def drop_cur_def)
  moreover have "lock_step True \<dots> (demo_world (Some 0) (Leaving 1 (Inr 0)) ?d)"
    using connect_returns [of "demo_world (Some 0) (Connecting 1 None None) newSessionDialer" 0 1 None None True]
    by (simp add: demo_world_def moves_to_def newSessionDialer_def)
  moreover have "lock_step True \<dots> (demo_world None (OpeningOn 1 0) ?d)"
    using unlocks_session [of "demo_world (Some 0) (Leaving 1 (Inr 0)) ?d" 0 1 "Inr 0" True]
    by (simp add: demo_world_def moves_to_def)
  moreover have "lock_step True \<dots> (demo_world None (DialDone (Inr 0)) ?d)"
    using open_returns [of "demo_world None (OpeningOn 1 0) ?d" 0 1 0 True] by (simp add: demo_world_def moves_to_def)
  moreover have "lock_step True \<dots> demo_dead"
    using session_dies [of True 0 "demo_world None (DialDone (Inr 0)) ?d"]
    by (simp add: demo_dead_def demo_world_def newSessionDialer_def)
  ultimately show ?thesis by (meson converse_rtranclp_into_rtranclp rtranclp.rtrancl_refl)
qed

lemma demo_waiting_reach: "reach lock_init (lock_step True) (demo_world None (Waiting 2 None) newSessionDialer)"
proof -
  let ?w = "\<lparr>mu = None, ld = newSessionDialer, calls = Map.empty\<rparr> :: io_error lock_world"
  have "reach lock_init (lock_step True) ?w" by (intro reach_init) (simp add: lock_init_def)
  moreover have "lock_step True ?w (demo_world None (Waiting 2 None) newSessionDialer)"
    using calls_Dial [of True ?w 0] by (simp add: demo_world_def moves_to_def)
  ultimately show ?thesis by (rule reach_step)
qed

text \<open>
  C25. \<^verbatim>\<open>Dial\<close> and \<^verbatim>\<open>Close\<close> return, although they wait for one mutex and \<^verbatim>\<open>connect\<close> runs under it. Any number of
  goroutines call \<^verbatim>\<open>Dial\<close> and \<^verbatim>\<open>Close\<close>, for ever, and sessions die at any time; the goroutines that can go on again and
  again do so again and again. Then every call returns. At every moment at most one goroutine is between \<^verbatim>\<open>Lock\<close> and
  \<^verbatim>\<open>Unlock\<close>, in particular in \<^verbatim>\<open>connect\<close>, and from every moment on the mutex is free at some later one.
\<close>

theorem dial_calls_return:
  assumes "reach lock_init (lock_step True) (f 0)" and "run_of (lock_step True) f"
    and "\<And>h. fair (goroutine_moves h) f"
  shows "(\<forall>n g c. calls (f n) g = Some c \<longrightarrow>
            (\<exists>m\<ge>n. calls (f m) g = Some CloseDone \<or> (\<exists>r. calls (f m) g = Some (DialDone r))))
    \<and> (\<forall>n g h c d. calls (f n) g = Some c \<and> holds c \<and> calls (f n) h = Some d \<and> holds d \<longrightarrow> g = h)
    \<and> (\<forall>n. \<exists>m\<ge>n. mu (f m) = None)"
proof (intro conjI allI impI)
  fix n g c assume c: "calls (f n) g = Some c"
  have has: "calls (f m) g \<noteq> None" if "n \<le> m" for m
  proof (rule run_keeps [where P = "\<lambda>w. calls w g \<noteq> None" and f = f, OF _ _ that])
    fix k assume "calls (f k) g \<noteq> None"
    with rank_of_step lock_run_inv [OF assms(1,2), of k] show "calls (f (Suc k)) g \<noteq> None" by blast
  qed (simp add: c)
  have "\<exists>m\<ge>n. rank_of (f m) g = 0"
  proof (rule fair_descent_again [where rank = "\<lambda>w. rank_of w g", OF assms(3) [of g]])
    fix m assume m: "n \<le> m" "\<And>k. m \<le> k \<Longrightarrow> rank_of (f k) g \<noteq> 0"
    obtain k where k: "m \<le> k" "mu (f k) = None" using mutex_released [OF assms] by blast
    obtain c where "calls (f k) g = Some c" using has [of k] m(1) k(1) by auto
    moreover from this have "call_rank c \<noteq> 0" using m(2) [OF k(1)] by (simp add: rank_of_def)
    ultimately show "\<exists>k\<ge>m. \<exists>t. goroutine_moves g (f k) t"
      using k can_move [of "f k" g c] by blast
  next
    fix m assume "n \<le> m"
    then show "rank_of (f (Suc m)) g \<le> rank_of (f m) g"
      using rank_of_step [OF has] lock_run_inv [OF assms(1,2), of m] by blast
    show "goroutine_moves g (f m) (f (Suc m)) \<Longrightarrow> rank_of (f (Suc m)) g < rank_of (f m) g"
      using rank_of_moves [OF has [OF \<open>n \<le> m\<close>]] .
  qed
  then obtain m d where m: "n \<le> m" "calls (f m) g = Some d" "call_rank d = 0" using has by (fastforce simp: rank_of_def)
  from m(3) have "d = CloseDone \<or> (\<exists>r. d = DialDone r)" by (cases d) auto
  with m show "\<exists>m\<ge>n. calls (f m) g = Some CloseDone \<or> (\<exists>r. calls (f m) g = Some (DialDone r))" by blast
next
  fix n g h c d assume "calls (f n) g = Some c \<and> holds c \<and> calls (f n) h = Some d \<and> holds d"
  with lock_inv_holder lock_run_inv [OF assms(1,2), of n] show "g = h" by blast
next
  show "\<exists>m\<ge>n. mu (f m) = None" for n by (rule mutex_released [OF assms])
qed

theorem dial_calls_return_witness:
  "\<exists>f m. f 0 = demo_world None (Waiting 2 None) newSessionDialer \<and> run_of (lock_step True) f
     \<and> (calls (f m) 0 = Some CloseDone \<or> (\<exists>r. calls (f m) 0 = Some (DialDone r)))"
proof -
  have "lock_step True demo_dead demo_dead"
    using session_dies [of True 0 demo_dead] by (simp add: demo_dead_def demo_world_def)
  from run_of_extend [OF demo_dead_run this] obtain f n where f: "f 0 = demo_world None (Waiting 2 None) newSessionDialer"
      "run_of (lock_step True) f" "\<forall>m\<ge>n. f m = demo_dead" by blast
  have "\<not> goroutine_moves h demo_dead t" for h t
    by (auto simp: goroutine_moves_def demo_dead_def demo_world_def elim!: lock_step.cases split: if_splits)
  then have "fair (goroutine_moves h) f" for h unfolding fair_def using f(3) by (metis order_refl)
  with dial_calls_return [OF _ f(2)] demo_waiting_reach f(1)
  have all: "\<forall>n g c. calls (f n) g = Some c \<longrightarrow>
      (\<exists>m\<ge>n. calls (f m) g = Some CloseDone \<or> (\<exists>r. calls (f m) g = Some (DialDone r)))" by simp
  have "calls (f 0) 0 = Some (Waiting 2 None)" using f(1) by (simp add: demo_world_def)
  with all have "\<exists>m. calls (f m) 0 = Some CloseDone \<or> (\<exists>r. calls (f m) 0 = Some (DialDone r))" by blast
  with f show ?thesis by blast
qed

end
